(* ===== verification/Prelude.thy ===== *)
theory Prelude
  imports Main "HOL-Library.Word"
begin

text \<open>
  Shared vocabulary of the development: the Rust \<open>Result\<close> type with the combinators the code
  uses (the question mark operator, \<open>map_err\<close>, collecting an iterator of results), joining of
  strings, the decimal text of the integers, and the lemma collections the component theories
  use.  Nothing in this theory is specific to the crate.
\<close>

named_theorems result_simps \<open>how the Result combinators behave on each constructor\<close>
named_theorems sql_defs \<open>definitions of the helpers that emit SQL text\<close>

section \<open>Results\<close>

datatype ('a, 'e) result = Ok 'a | Err 'e

text \<open>The question mark operator: the rest of the function runs on \<open>Ok\<close> only.\<close>

fun and_then :: "('a, 'e) result \<Rightarrow> ('a \<Rightarrow> ('b, 'e) result) \<Rightarrow> ('b, 'e) result" where
  "and_then (Ok x) f = f x"
| "and_then (Err e) f = Err e"

fun map_ok :: "('a \<Rightarrow> 'b) \<Rightarrow> ('a, 'e) result \<Rightarrow> ('b, 'e) result" where
  "map_ok f (Ok x) = Ok (f x)"
| "map_ok f (Err e) = Err e"

fun map_err :: "('e \<Rightarrow> 'f) \<Rightarrow> ('a, 'e) result \<Rightarrow> ('a, 'f) result" where
  "map_err f (Ok x) = Ok x"
| "map_err f (Err e) = Err (f e)"

fun is_ok :: "('a, 'e) result \<Rightarrow> bool" where
  "is_ok (Ok x) = True"
| "is_ok (Err e) = False"

text \<open>\<open>iter.map(f).collect::<Result<Vec<_>, _>>()\<close>: stops at the first error.\<close>

fun try_map :: "('a \<Rightarrow> ('b, 'e) result) \<Rightarrow> 'a list \<Rightarrow> ('b list, 'e) result" where
  "try_map f [] = Ok []"
| "try_map f (x # xs) = and_then (f x) (\<lambda>y. and_then (try_map f xs) (\<lambda>ys. Ok (y # ys)))"

lemma and_then_eq_Ok [result_simps]:
  "and_then r f = Ok y \<longleftrightarrow> (\<exists>x. r = Ok x \<and> f x = Ok y)"
  by (cases r) auto

lemma and_then_eq_Err [result_simps]:
  "and_then r f = Err e \<longleftrightarrow> r = Err e \<or> (\<exists>x. r = Ok x \<and> f x = Err e)"
  by (cases r) auto

lemma and_then_assoc: "and_then (and_then r f) g = and_then r (\<lambda>x. and_then (f x) g)"
  by (cases r) auto

lemma and_then_Ok [simp]: "and_then r Ok = r"
  by (cases r) auto

lemma map_ok_eq_Ok [result_simps]: "map_ok f r = Ok y \<longleftrightarrow> (\<exists>x. r = Ok x \<and> y = f x)"
  by (cases r) auto

lemma map_ok_eq_Err [result_simps]: "map_ok f r = Err e \<longleftrightarrow> r = Err e"
  by (cases r) auto

lemma map_err_eq_Ok [result_simps]: "map_err f r = Ok y \<longleftrightarrow> r = Ok y"
  by (cases r) auto

lemma map_err_eq_Err [result_simps]: "map_err f r = Err e \<longleftrightarrow> (\<exists>d. r = Err d \<and> e = f d)"
  by (cases r) auto

lemma is_ok_iff [result_simps]: "is_ok r \<longleftrightarrow> (\<exists>x. r = Ok x)"
  by (cases r) auto

lemma and_then_cong [fundef_cong]:
  "r = s \<Longrightarrow> (\<And>x. s = Ok x \<Longrightarrow> f x = g x) \<Longrightarrow> and_then r f = and_then s g"
  by (cases s) auto

lemma try_map_cong [fundef_cong]:
  "xs = ys \<Longrightarrow> (\<And>x. x \<in> set ys \<Longrightarrow> f x = g x) \<Longrightarrow> try_map f xs = try_map g ys"
  by (induction ys arbitrary: xs) auto

lemma try_map_all_Ok: "(\<And>x. x \<in> set xs \<Longrightarrow> f x = Ok (g x)) \<Longrightarrow> try_map f xs = Ok (map g xs)"
  by (induction xs) auto

lemma try_map_Ok_iff: "try_map f xs = Ok ys \<longleftrightarrow> list_all2 (\<lambda>x y. f x = Ok y) xs ys"
proof (induction xs arbitrary: ys)
  case Nil
  then show ?case by auto
next
  case (Cons x xs)
  then show ?case
    by (cases ys) (auto simp: result_simps)
qed

lemma try_map_length: "try_map f xs = Ok ys \<Longrightarrow> length ys = length xs"
  by (simp add: try_map_Ok_iff list_all2_lengthD)

lemma try_map_member: "try_map f xs = Ok ys \<Longrightarrow> y \<in> set ys \<Longrightarrow> \<exists>x \<in> set xs. f x = Ok y"
  by (induction xs arbitrary: ys) (auto simp: result_simps)

lemma try_map_Err: "try_map f xs = Err e \<Longrightarrow> \<exists>x \<in> set xs. f x = Err e"
  by (induction xs) (auto simp: result_simps)

lemma try_map_Err_iff:
  "try_map f xs = Err e \<longleftrightarrow>
     (\<exists>before x after. xs = before @ x # after \<and> f x = Err e \<and> (\<forall>y \<in> set before. is_ok (f y)))"
proof (induction xs)
  case Nil
  then show ?case by simp
next
  case (Cons y ys)
  show ?case
  proof (cases "f y")
    case (Ok z)
    then have "try_map f (y # ys) = Err e \<longleftrightarrow> try_map f ys = Err e"
      by (simp add: and_then_eq_Err)
    also note Cons.IH
    also have "(\<exists>before x after. ys = before @ x # after \<and> f x = Err e \<and> (\<forall>y \<in> set before. is_ok (f y))) \<longleftrightarrow>
        (\<exists>before x after. y # ys = before @ x # after \<and> f x = Err e \<and> (\<forall>y \<in> set before. is_ok (f y)))"
      (is "?L \<longleftrightarrow> ?R")
    proof
      assume ?L
      then obtain before x after where "ys = before @ x # after" "f x = Err e"
        "\<forall>y \<in> set before. is_ok (f y)" by blast
      with Ok show ?R by (intro exI [of _ "y # before"]) auto
    next
      assume ?R
      then obtain before x after where *: "y # ys = before @ x # after" "f x = Err e"
        "\<forall>y \<in> set before. is_ok (f y)" by blast
      with Ok show ?L by (cases before) auto
    qed
    finally show ?thesis .
  next
    case (Err d)
    have "\<exists>before x after. y # ys = before @ x # after \<and> f x = Err d \<and> (\<forall>y \<in> set before. is_ok (f y))"
      using Err by (intro exI [of _ "[]"]) auto
    with Err show ?thesis by (auto simp: Cons_eq_append_conv)
  qed
qed

section \<open>Strings\<close>

abbreviation dquote :: char where
  "dquote \<equiv> CHR 0x22"

abbreviation squote :: char where
  "squote \<equiv> CHR 0x27"

text \<open>\<open>Vec<String>::join\<close>.\<close>

fun join :: "string \<Rightarrow> string list \<Rightarrow> string" where
  "join sep [] = ''''"
| "join sep [x] = x"
| "join sep (x # y # ys) = x @ sep @ join sep (y # ys)"

lemma join_Cons: "join sep (x # xs) = x @ (if xs = [] then '''' else sep @ join sep xs)"
  by (cases xs) auto

lemma set_join: "set (join sep xs) \<subseteq> set sep \<union> \<Union> (set ` set xs)"
  by (induction sep xs rule: join.induct) auto

section \<open>Decimal text of the integers\<close>

text \<open>\<open>to_string\<close> of the unsigned and signed integer types: decimal digits without leading
  zeros, a minus sign in front of a negative value.\<close>

definition digit_char :: "nat \<Rightarrow> char" where
  "digit_char d = char_of (48 + d)"

fun show_nat :: "nat \<Rightarrow> string" where
  "show_nat n = (if n < 10 then [digit_char n] else show_nat (n div 10) @ [digit_char (n mod 10)])"

declare show_nat.simps [simp del]

definition show_int :: "int \<Rightarrow> string" where
  "show_int i = (if i < 0 then CHR ''-'' # show_nat (nat (- i)) else show_nat (nat i))"

definition is_digit :: "char \<Rightarrow> bool" where
  "is_digit c \<longleftrightarrow> 48 \<le> (of_char c :: nat) \<and> (of_char c :: nat) \<le> 57"

definition digit_val :: "char \<Rightarrow> nat" where
  "digit_val c = of_char c - 48"

text \<open>Reading decimal text back: the reference the printers are checked against.\<close>

fun read_nat_from :: "nat \<Rightarrow> string \<Rightarrow> nat option" where
  "read_nat_from acc [] = Some acc"
| "read_nat_from acc (c # cs) =
     (if is_digit c then read_nat_from (10 * acc + digit_val c) cs else None)"

definition read_nat :: "string \<Rightarrow> nat option" where
  "read_nat s = (if s = [] then None else read_nat_from 0 s)"

fun read_int :: "string \<Rightarrow> int option" where
  "read_int (c # cs) =
     (if c = CHR ''-'' then map_option (\<lambda>n. - int n) (read_nat cs)
      else map_option int (read_nat (c # cs)))"
| "read_int [] = None"

lemma of_char_digit_char: "d < 10 \<Longrightarrow> (of_char (digit_char d) :: nat) = 48 + d"
  by (simp add: digit_char_def)

lemma is_digit_digit_char [simp]: "d < 10 \<Longrightarrow> is_digit (digit_char d)"
  by (simp add: is_digit_def of_char_digit_char)

lemma digit_val_digit_char [simp]: "d < 10 \<Longrightarrow> digit_val (digit_char d) = d"
  by (simp add: digit_val_def of_char_digit_char)

lemma digit_char_simps [simp]:
  "digit_char 0 = CHR ''0''" "digit_char 1 = CHR ''1''" "digit_char (Suc 0) = CHR ''1''"
  "digit_char 2 = CHR ''2''" "digit_char 3 = CHR ''3''" "digit_char 4 = CHR ''4''"
  "digit_char 5 = CHR ''5''" "digit_char 6 = CHR ''6''" "digit_char 7 = CHR ''7''"
  "digit_char 8 = CHR ''8''" "digit_char 9 = CHR ''9''"
  by (simp_all add: digit_char_def char_of_def bit_0)

lemma show_nat_not_Nil [simp]: "show_nat n \<noteq> []"
  by (subst show_nat.simps) simp

lemma show_nat_digits: "\<forall>c \<in> set (show_nat n). is_digit c"
proof (induction n rule: show_nat.induct)
  case (1 n)
  then show ?case by (subst show_nat.simps) auto
qed

lemma read_nat_from_append:
  "read_nat_from a (xs @ [c]) =
     (case read_nat_from a xs of None \<Rightarrow> None
      | Some n \<Rightarrow> if is_digit c then Some (10 * n + digit_val c) else None)"
  by (induction a xs rule: read_nat_from.induct) auto

lemma read_nat_from_show_nat: "read_nat_from 0 (show_nat n) = Some n"
proof (induction n rule: show_nat.induct)
  case (1 n)
  then show ?case
    by (subst show_nat.simps) (auto simp: read_nat_from_append)
qed

lemma read_show_nat [simp]: "read_nat (show_nat n) = Some n"
  by (simp add: read_nat_def read_nat_from_show_nat)

lemma show_nat_inject [simp]: "show_nat m = show_nat n \<longleftrightarrow> m = n"
  by (metis read_show_nat option.inject)

lemma show_nat_no_minus: "show_nat n = c # cs \<Longrightarrow> c \<noteq> CHR ''-''"
  using show_nat_digits [of n] by (auto simp: is_digit_def)

lemma read_show_int [simp]: "read_int (show_int i) = Some i"
proof (cases "i < 0")
  case True
  then show ?thesis by (simp add: show_int_def)
next
  case False
  obtain c cs where s: "show_nat (nat i) = c # cs"
    by (cases "show_nat (nat i)") auto
  with False show ?thesis
    using read_show_nat [of "nat i"] show_nat_no_minus [OF s]
    by (simp add: show_int_def)
qed

lemma show_int_inject [simp]: "show_int i = show_int j \<longleftrightarrow> i = j"
  by (metis read_show_int option.inject)

text \<open>A 64-bit word below \<open>2 ^ 63\<close> has the same signed and unsigned value.\<close>

lemma sint_eq_uint_small: "unat u < 2 ^ 63 \<Longrightarrow> sint u = uint u" for u :: "64 word"
proof -
  assume "unat u < 2 ^ 63"
  then have "int (unat u) < int (2 ^ 63)" by (simp only: of_nat_less_iff)
  then have "uint u < 2 ^ 63" by simp
  moreover have "- (2 ^ 63) \<le> uint u" by (rule order_trans [of _ 0]) simp_all
  ultimately have "signed_take_bit 63 (uint u) = uint u" by (intro signed_take_bit_int_eq_self)
  then show ?thesis by (simp add: sint_uint)
qed

lemma sint_word_of_nat_64: "n < 2 ^ 63 \<Longrightarrow> sint (word_of_nat n :: 64 word) = int n"
  by (simp add: signed_of_nat signed_take_bit_int_eq_self)

lemma unat_word_of_nat_64: "n < 2 ^ 64 \<Longrightarrow> unat (word_of_nat n :: 64 word) = n"
  by (simp add: unsigned_of_nat take_bit_nat_eq_self)

lemma uint_eq_sint: "0 \<le> sint u \<Longrightarrow> uint u = sint u" for u :: "64 word"
proof -
  assume "0 \<le> sint u"
  moreover have "sint u < 2 ^ 64" using sint_lt [of u] by simp
  ultimately show ?thesis by (simp add: uint_sint take_bit_int_eq_self)
qed

text \<open>\<open>char::is_ascii_alphabetic\<close> and \<open>char::is_ascii_alphanumeric\<close>.\<close>

definition is_ascii_alphabetic :: "char \<Rightarrow> bool" where
  "is_ascii_alphabetic c \<longleftrightarrow>
     (65 \<le> (of_char c :: nat) \<and> (of_char c :: nat) \<le> 90) \<or>
     (97 \<le> (of_char c :: nat) \<and> (of_char c :: nat) \<le> 122)"

definition is_ascii_alphanumeric :: "char \<Rightarrow> bool" where
  "is_ascii_alphanumeric c \<longleftrightarrow> is_ascii_alphabetic c \<or> is_digit c"

end
