(* ===== verification/Rust_Float.thy ===== *)
theory Rust_Float
  imports Prelude
begin

text \<open>
  The part of Rust's \<open>f64\<close> the crate uses: \<open>is_finite\<close>, \<open>to_string\<close> and the widening of \<open>f32\<close>.  A float is its 64
  bits (IEEE 754 binary64).  \<open>to_string\<close> is the Display of the standard library: the shortest
  decimal that lies in the rounding interval of the float (the nearest one of that length, the
  larger on a tie), written without an exponent.
\<close>

datatype f64 = F64 (f64_bits: "64 word")

definition f64_negative :: "f64 \<Rightarrow> bool" where
  "f64_negative x \<longleftrightarrow> 2 ^ 63 \<le> unat (f64_bits x)"

definition f64_exponent :: "f64 \<Rightarrow> nat" where
  "f64_exponent x = unat (f64_bits x) div 2 ^ 52 mod 2048"

definition f64_fraction :: "f64 \<Rightarrow> nat" where
  "f64_fraction x = unat (f64_bits x) mod 2 ^ 52"

definition is_finite :: "f64 \<Rightarrow> bool" where
  "is_finite x \<longleftrightarrow> f64_exponent x \<noteq> 2047"

text \<open>
  A finite non-zero float as \<open>mant * 2 ^ exp\<close>, with the bounds of its rounding interval
  \<open>(mant - minus) * 2 ^ exp\<close> and \<open>(mant + plus) * 2 ^ exp\<close>; the bounds belong to the interval when
  the significand is even.
\<close>

record decoded =
  mant :: nat
  minus_ulp :: nat
  plus_ulp :: nat
  exp2 :: int
  inclusive :: bool

definition decode_float :: "f64 \<Rightarrow> decoded" where
  "decode_float x =
     (let e = f64_exponent x; f = f64_fraction x in
      if e = 0 then
        \<lparr>mant = 2 * f, minus_ulp = 1, plus_ulp = 1, exp2 = - 1075, inclusive = even f\<rparr>
      else if f = 0 then
        \<lparr>mant = 4 * 2 ^ 52, minus_ulp = 1, plus_ulp = 2, exp2 = int e - 1077, inclusive = True\<rparr>
      else
        \<lparr>mant = 2 * (2 ^ 52 + f), minus_ulp = 1, plus_ulp = 1, exp2 = int e - 1076,
         inclusive = even f\<rparr>)"

text \<open>The value and the bounds over a common denominator.\<close>

definition numer :: "decoded \<Rightarrow> nat \<Rightarrow> nat" where
  "numer d m = m * 2 ^ nat (exp2 d)"

definition denom :: "decoded \<Rightarrow> nat" where
  "denom d = 2 ^ nat (- exp2 d)"

function leading_zeros :: "nat \<Rightarrow> nat \<Rightarrow> nat" where
  "leading_zeros v d = (if v = 0 \<or> d \<le> 10 * v then 0 else Suc (leading_zeros (10 * v) d))"
  by pat_completeness auto
termination
  by (relation "measure (\<lambda>(v, d). d - v)") auto

declare leading_zeros.simps [simp del]

text \<open>The decimal point: \<open>10 ^ (k - 1) \<le> v / d < 10 ^ k\<close>.\<close>

definition decimal_point :: "nat \<Rightarrow> nat \<Rightarrow> int" where
  "decimal_point v d =
     (if d \<le> v then int (length (show_nat (v div d))) else - int (leading_zeros v d))"

text \<open>\<open>digits * 10 ^ q\<close> lies in the rounding interval.\<close>

definition in_interval :: "decoded \<Rightarrow> int \<Rightarrow> nat \<Rightarrow> bool" where
  "in_interval d q digits =
     (let n = 10 ^ nat (- q); m = denom d * 10 ^ nat q;
          low = numer d (mant d - minus_ulp d) * n; high = numer d (mant d + plus_ulp d) * n in
      if inclusive d then low \<le> digits * m \<and> digits * m \<le> high
      else low < digits * m \<and> digits * m < high)"

definition floor_digits :: "decoded \<Rightarrow> int \<Rightarrow> nat" where
  "floor_digits d q = numer d (mant d) * 10 ^ nat (- q) div (denom d * 10 ^ nat q)"

text \<open>The remainder is at least one half: rounding up is nearest, or the tie goes up.\<close>

definition nearer_up :: "decoded \<Rightarrow> int \<Rightarrow> bool" where
  "nearer_up d q \<longleftrightarrow>
     denom d * 10 ^ nat q
       \<le> 2 * (numer d (mant d) * 10 ^ nat (- q) mod (denom d * 10 ^ nat q))"

text \<open>One more digit at a time, until a decimal of that length lies in the interval.\<close>

fun shortest :: "nat \<Rightarrow> decoded \<Rightarrow> int \<Rightarrow> nat \<times> int" where
  "shortest 0 d q = (floor_digits d q, q)"
| "shortest (Suc fuel) d q =
     (let lo = floor_digits d q; down = in_interval d q lo; up = in_interval d q (Suc lo) in
      if up \<and> (\<not> down \<or> nearer_up d q) then (Suc lo, q)
      else if down then (lo, q)
      else shortest fuel d (q - 1))"

definition shortest_fuel :: "decoded \<Rightarrow> int \<Rightarrow> nat" where
  "shortest_fuel d k = nat k + nat (- exp2 d)"

definition shortest_digits :: "decoded \<Rightarrow> nat \<times> int" where
  "shortest_digits d =
     (let k = decimal_point (numer d (mant d)) (denom d)
      in shortest (shortest_fuel d k) d (k - 1))"

text \<open>The digits laid out around the decimal point, without trailing zeros.\<close>

definition layout_decimal :: "nat \<Rightarrow> int \<Rightarrow> string" where
  "layout_decimal digits q =
     (let s = show_nat digits; k = int (length s) + q;
          t = rev (dropWhile (\<lambda>c. c = CHR ''0'') (rev s)) in
      if k \<le> 0 then ''0.'' @ replicate (nat (- k)) CHR ''0'' @ t
      else if nat k < length t then take (nat k) t @ ''.'' @ drop (nat k) t
      else t @ replicate (nat k - length t) CHR ''0'')"

definition f64_to_string :: "f64 \<Rightarrow> string" where
  "f64_to_string x =
     (if f64_exponent x = 2047 then
        (if f64_fraction x \<noteq> 0 then ''NaN'' else if f64_negative x then ''-inf'' else ''inf'')
      else
        (if f64_negative x then ''-'' else '''') @
        (if f64_exponent x = 0 \<and> f64_fraction x = 0 then ''0''
         else (case shortest_digits (decode_float x) of (digits, q) \<Rightarrow> layout_decimal digits q)))"

text \<open>
  \<open>f32\<close>, its 32 bits (binary32), and the widening \<open>f64::from\<close>: the exponent is rebiased and the
  fraction extended, a subnormal is normalized, infinities stay, and a NaN becomes a quiet one.
\<close>

datatype f32 = F32 (f32_bits: "32 word")

definition f32_negative :: "f32 \<Rightarrow> bool" where
  "f32_negative x \<longleftrightarrow> 2 ^ 31 \<le> unat (f32_bits x)"

definition f32_exponent :: "f32 \<Rightarrow> nat" where
  "f32_exponent x = unat (f32_bits x) div 2 ^ 23 mod 256"

definition f32_fraction :: "f32 \<Rightarrow> nat" where
  "f32_fraction x = unat (f32_bits x) mod 2 ^ 23"

definition f64_of_parts :: "bool \<Rightarrow> nat \<Rightarrow> nat \<Rightarrow> f64" where
  "f64_of_parts neg e f = F64 (word_of_nat ((if neg then 2 ^ 63 else 0) + e * 2 ^ 52 + f))"

fun log2_floor :: "nat \<Rightarrow> nat" where
  "log2_floor n = (if n < 2 then 0 else Suc (log2_floor (n div 2)))"

declare log2_floor.simps [simp del]

definition f64_from_f32 :: "f32 \<Rightarrow> f64" where
  "f64_from_f32 x =
     (let neg = f32_negative x; e = f32_exponent x; f = f32_fraction x in
      if e = 255 then f64_of_parts neg 2047 (if f = 0 then 0 else 2 ^ 51 + f * 2 ^ 29 mod 2 ^ 51)
      else if e \<noteq> 0 then f64_of_parts neg (e + 896) (f * 2 ^ 29)
      else if f = 0 then f64_of_parts neg 0 0
      else (let k = log2_floor f in f64_of_parts neg (874 + k) ((f - 2 ^ k) * 2 ^ (52 - k))))"

end
