(* ===== verification/Soap_Core.thy ===== *)
theory Soap_Core
  imports Rust_Float "HOL-Library.Char_ord" "HOL-Library.List_Lexorder"
begin

text \<open>
  The data of the crates the adapter is written against (\<open>soaprs_core\<close>, \<open>soaprs_repository\<close> and
  \<open>sqlx\<close>), as far as the adapter builds or matches it.  Those crates are not part of the
  repository, so only their data appears here: the constructors the source names in its
  exhaustive matches, the fields it reads, the kinds of \<open>SoapError\<close> it builds.  Their functions
  (\<open>FieldName::new\<close>, the \<open>validate\<close> methods, the encoding of arguments, the driver) are fields
  of the records \<open>soaprs_api\<close> and \<open>sqlx_api\<close> below or arguments of the definitions that call
  them; no definition is given for them.
\<close>

section \<open>Errors\<close>

datatype soap_error_kind =
  Validation | Not_Found | Conflict | Unsupported | Timeout | Unavailable | Infrastructure

datatype error_transience = Transient | Permanent

text \<open>The kinds \<open>sqlx::error::ErrorKind\<close> the source matches, the others as \<open>Other_Kind\<close>.\<close>

datatype db_error_kind =
  Unique_Violation | Exclusion_Violation | Foreign_Key_Violation | Not_Null_Violation
| Check_Violation | Other_Kind

text \<open>A \<open>dyn DatabaseError\<close>: what \<open>code()\<close>, \<open>kind()\<close> and \<open>message()\<close> return.\<close>

record database_error =
  code :: "string option"
  db_kind :: db_error_kind
  db_message :: string

text \<open>\<open>sqlx::Error\<close>: the variants the source names; a text stands for the technical payload.
  \<open>Sqlx_Other\<close> is any variant that falls to the wildcard.\<close>

datatype sqlx_error =
  Sqlx_Row_Not_Found | Sqlx_Pool_Timed_Out | Sqlx_Pool_Closed
| Sqlx_Io string | Sqlx_Tls string | Sqlx_Database database_error
| Sqlx_Configuration string | Sqlx_Protocol string | Sqlx_Column_Decode string
| Sqlx_Column_Index_Out_Of_Bounds nat nat | Sqlx_Column_Not_Found string
| Sqlx_Decode string | Sqlx_Encode string | Sqlx_Invalid_Argument string
| Sqlx_Migrate string | Sqlx_Type_Not_Found string
| Sqlx_Other string

text \<open>The technical source attached by \<open>with_source\<close>.\<close>

datatype error_source =
  From_Sqlx sqlx_error
| Pg_Binding_Encode_Error string

text \<open>
  A \<open>SoapError\<close> is recorded as it is built: its kind and message, the transience set by
  \<open>with_transience\<close> (\<open>None\<close> when the library's default for the kind applies) and the source.
\<close>

record soap_error =
  kind :: soap_error_kind
  message :: string
  set_transience :: "error_transience option"
  source :: "error_source option"

definition soap_error_new :: "soap_error_kind \<Rightarrow> string \<Rightarrow> soap_error" where
  "soap_error_new k m = \<lparr>kind = k, message = m, set_transience = None, source = None\<rparr>"

abbreviation err_validation :: "string \<Rightarrow> soap_error" where
  "err_validation \<equiv> soap_error_new Validation"

abbreviation err_infrastructure :: "string \<Rightarrow> soap_error" where
  "err_infrastructure \<equiv> soap_error_new Infrastructure"

abbreviation with_transience :: "error_transience \<Rightarrow> soap_error \<Rightarrow> soap_error" where
  "with_transience t e \<equiv> e\<lparr>set_transience := Some t\<rparr>"

abbreviation with_source :: "error_source \<Rightarrow> soap_error \<Rightarrow> soap_error" where
  "with_source s e \<equiv> e\<lparr>source := Some s\<rparr>"

lemma kind_soap_error_new [simp]: "kind (soap_error_new k m) = k"
  by (simp add: soap_error_new_def)

lemma soap_error_new_inject [simp]:
  "soap_error_new k m = soap_error_new k' m' \<longleftrightarrow> k = k' \<and> m = m'"
  by (simp add: soap_error_new_def)

type_synonym 'a soap_result = "('a, soap_error) result"

section \<open>Portable queries\<close>

text \<open>The logical field name of the application; \<open>as_str\<close> reads it.\<close>

datatype field_name = Field_Name (as_str: string)

text \<open>Field names are the keys of a \<open>BTreeMap\<close>: they are ordered as their text.\<close>

instantiation field_name :: linorder
begin

definition less_eq_field_name :: "field_name \<Rightarrow> field_name \<Rightarrow> bool" where
  "less_eq_field_name f g \<longleftrightarrow> as_str f \<le> as_str g"

definition less_field_name :: "field_name \<Rightarrow> field_name \<Rightarrow> bool" where
  "less_field_name f g \<longleftrightarrow> as_str f < as_str g"

instance
  by standard (auto simp: less_eq_field_name_def less_field_name_def field_name.expand)

end

datatype scalar_value =
  Scalar_Null
| Scalar_Bool bool
| Scalar_I64 "64 word"
| Scalar_U64 "64 word"
| Scalar_F64 f64
| Scalar_String string
| Scalar_Bytes "8 word list"
| Scalar_List "scalar_value list"

datatype operator =
  Op_Eq | Op_Ne | Op_Gt | Op_Gte | Op_Lt | Op_Lte | Op_Like
| Op_In | Op_Not_In | Op_Is_Null | Op_Is_Not_Null

datatype logical_operator = And | Or

datatype condition =
  Group logical_operator "condition list"
| Predicate field_name operator "scalar_value option"

datatype sort_direction = Ascending | Descending

record sort_key =
  sort_field :: field_name
  direction :: sort_direction

text \<open>\<open>FindParams\<close>; \<open>limit\<close> and \<open>offset\<close> are unsigned 64-bit counts, which \<open>i64::try_from\<close> may
  refuse.\<close>

record find_params =
  condition_of :: "condition option"
  sort_keys :: "sort_key list"
  limit :: "64 word option"
  offset :: "64 word"

section \<open>Functions of the other crates\<close>

text \<open>What the adapter calls in \<open>soaprs_repository\<close>.\<close>

record soaprs_api =
  field_name_new :: "string \<Rightarrow> field_name soap_result"
  field_name_display :: "field_name \<Rightarrow> string"
  condition_validate :: "condition \<Rightarrow> unit soap_result"
  params_validate :: "find_params \<Rightarrow> unit soap_result"
  scalar_validate :: "scalar_value \<Rightarrow> unit soap_result"

text \<open>
  A named hypothesis: \<open>FieldName::new\<close> accepts the text of a field name it produced and gives
  the same field name back.
\<close>

definition field_name_stable :: "soaprs_api \<Rightarrow> bool" where
  "field_name_stable api \<longleftrightarrow>
     (\<forall>s f. field_name_new api s = Ok f \<longrightarrow> field_name_new api (as_str f) = Ok f)"

text \<open>A sample instance: non-empty names, every other check passing.  Used by witnesses only.\<close>

definition sample_api :: soaprs_api where
  "sample_api =
     \<lparr>field_name_new = (\<lambda>s. if s = '''' then Err (err_validation ''empty'') else Ok (Field_Name s)),
      field_name_display = as_str,
      condition_validate = (\<lambda>c. Ok ()),
      params_validate = (\<lambda>p. Ok ()),
      scalar_validate = (\<lambda>v. Ok ())\<rparr>"

lemma field_name_stable_sample_api: "field_name_stable sample_api"
  by (simp add: field_name_stable_def sample_api_def)

end
