(* ===== verification/Identifier.thy ===== *)
theory Identifier
  imports Soap_Core
begin

text \<open>
  \<open>src/postgres/identifier.rs\<close>: the validated PostgreSQL identifier.  A Rust string is its UTF-8
  bytes; the characters the check accepts are ASCII, one byte each, and every byte of any other
  character is at least 128, so testing the bytes is testing the characters.
\<close>

datatype pg_identifier = Pg_Identifier (ident_str: string)

definition ident_start :: "char \<Rightarrow> bool" where
  "ident_start c \<longleftrightarrow> c = CHR ''_'' \<or> is_ascii_alphabetic c"

definition ident_continue :: "char \<Rightarrow> bool" where
  "ident_continue c \<longleftrightarrow> c = CHR ''_'' \<or> is_ascii_alphanumeric c"

fun identifier_new :: "string \<Rightarrow> pg_identifier soap_result" where
  "identifier_new [] = Err (err_validation ''PostgreSQL identifier cannot be empty'')"
| "identifier_new (first # rest) =
     (if ident_start first \<and> list_all ident_continue rest
      then Ok (Pg_Identifier (first # rest))
      else Err (err_validation (''invalid PostgreSQL identifier `'' @ (first # rest) @ ''`'')))"

definition quoted :: "pg_identifier \<Rightarrow> string" where
  "quoted i = dquote # ident_str i @ [dquote]"

text \<open>The derived order of the newtype is the order of its text.\<close>

instantiation pg_identifier :: linorder
begin

definition less_eq_pg_identifier :: "pg_identifier \<Rightarrow> pg_identifier \<Rightarrow> bool" where
  "less_eq_pg_identifier i j \<longleftrightarrow> ident_str i \<le> ident_str j"

definition less_pg_identifier :: "pg_identifier \<Rightarrow> pg_identifier \<Rightarrow> bool" where
  "less_pg_identifier i j \<longleftrightarrow> ident_str i < ident_str j"

instance
  by standard (auto simp: less_eq_pg_identifier_def less_pg_identifier_def pg_identifier.expand)

end

text \<open>What every identifier made by \<open>identifier_new\<close> satisfies.\<close>

definition ident_ok :: "pg_identifier \<Rightarrow> bool" where
  "ident_ok i \<longleftrightarrow>
     (case ident_str i of [] \<Rightarrow> False
      | c # cs \<Rightarrow> ident_start c \<and> list_all ident_continue cs)"

lemma ident_start_continue: "ident_start c \<Longrightarrow> ident_continue c"
  by (auto simp: ident_start_def ident_continue_def is_ascii_alphanumeric_def)

lemma identifier_new_eq_Ok:
  "identifier_new s = Ok i \<longleftrightarrow> i = Pg_Identifier s \<and> ident_ok i"
  by (cases s) (auto simp: ident_ok_def)

lemma identifier_new_ok: "identifier_new s = Ok i \<Longrightarrow> ident_ok i"
  by (auto simp: identifier_new_eq_Ok)

lemma identifier_new_Err: "identifier_new s = Err e \<Longrightarrow> kind e = Validation"
  by (cases s) (auto split: if_splits)

lemma ident_ok_chars: "ident_ok i \<Longrightarrow> c \<in> set (ident_str i) \<Longrightarrow> ident_continue c"
  by (cases "ident_str i") (auto simp: ident_ok_def list_all_iff ident_start_continue)

lemma ident_continue_not_special:
  "ident_continue c \<Longrightarrow> c \<noteq> dquote \<and> c \<noteq> squote \<and> c \<noteq> CHR ''$'' \<and> c \<noteq> CHR '';''"
  by (auto simp: ident_continue_def is_ascii_alphanumeric_def is_ascii_alphabetic_def is_digit_def)

lemma quoted_inject [simp]: "quoted i = quoted j \<longleftrightarrow> i = j"
  by (auto simp: quoted_def pg_identifier.expand)

end
