(* ===== verification/Field_Mapping.thy ===== *)
theory Field_Mapping
  imports Identifier
begin

text \<open>
  \<open>src/postgres/mapping.rs\<close>: scalar kinds, field permissions, physical columns and the explicit
  allow-list from logical fields to columns.  The \<open>BTreeMap\<close> of the field map is a partial
  function; nothing in the crate iterates over it.  The operations that take \<open>&mut self\<close> return
  the map with the result, because a failing insert has already changed the map.
\<close>

datatype pg_scalar_kind =
  Kind_Bool | Kind_Numeric | Kind_Text | Kind_Bytes | Kind_Uuid | Kind_Json
| Kind_Date | Kind_Time | Kind_Timestamp | Kind_TimestampTz

record pg_field_permissions =
  selectable :: bool
  insertable :: bool
  updatable :: bool

definition permissions_new :: "bool \<Rightarrow> bool \<Rightarrow> bool \<Rightarrow> pg_field_permissions" where
  "permissions_new s i u = \<lparr>selectable = s, insertable = i, updatable = u\<rparr>"

definition PERSISTED :: pg_field_permissions where
  "PERSISTED = permissions_new True True True"

definition IMMUTABLE :: pg_field_permissions where
  "IMMUTABLE = permissions_new True True False"

definition GENERATED :: pg_field_permissions where
  "GENERATED = permissions_new True False False"

record pg_column =
  column_ident :: pg_identifier
  scalar_kind :: pg_scalar_kind
  permissions :: pg_field_permissions

definition column_new ::
  "pg_identifier \<Rightarrow> pg_scalar_kind \<Rightarrow> pg_field_permissions \<Rightarrow> pg_column" where
  "column_new i k p = \<lparr>column_ident = i, scalar_kind = k, permissions = p\<rparr>"

record pg_field_map =
  columns :: "field_name \<rightharpoonup> pg_column"

definition field_map_new :: pg_field_map where
  "field_map_new = \<lparr>columns = Map.empty\<rparr>"

definition insert_with_permissions ::
  "soaprs_api \<Rightarrow> pg_field_map \<Rightarrow> string \<Rightarrow> string \<Rightarrow> pg_scalar_kind \<Rightarrow> pg_field_permissions
     \<Rightarrow> unit soap_result \<times> pg_field_map" where
  "insert_with_permissions api m logical physical k perms =
     (case field_name_new api logical of
        Err e \<Rightarrow> (Err e, m)
      | Ok field \<Rightarrow>
          (case identifier_new physical of
             Err e \<Rightarrow> (Err e, m)
           | Ok ident \<Rightarrow>
               (let m' = m\<lparr>columns := (columns m)(field \<mapsto> column_new ident k perms)\<rparr> in
                if columns m field \<noteq> None then
                  (Err (err_validation
                     (''duplicate PostgreSQL mapping for logical field `'' @
                      field_name_display api field @ ''`'')), m')
                else (Ok (), m'))))"

definition field_map_insert ::
  "soaprs_api \<Rightarrow> pg_field_map \<Rightarrow> string \<Rightarrow> string \<Rightarrow> pg_scalar_kind
     \<Rightarrow> unit soap_result \<times> pg_field_map" where
  "field_map_insert api m logical physical k =
     insert_with_permissions api m logical physical k PERSISTED"

definition field_map_with ::
  "soaprs_api \<Rightarrow> pg_field_map \<Rightarrow> string \<Rightarrow> string \<Rightarrow> pg_scalar_kind
     \<Rightarrow> pg_field_map soap_result" where
  "field_map_with api m logical physical k =
     (case field_map_insert api m logical physical k of
        (Err e, m') \<Rightarrow> Err e
      | (Ok u, m') \<Rightarrow> Ok m')"

definition resolve :: "soaprs_api \<Rightarrow> pg_field_map \<Rightarrow> field_name \<Rightarrow> pg_column soap_result" where
  "resolve api m logical =
     (case columns m logical of
        Some c \<Rightarrow> Ok c
      | None \<Rightarrow> Err (err_validation
          (''unknown logical field `'' @ field_name_display api logical @ ''` for PostgreSQL'')))"

definition contains :: "pg_field_map \<Rightarrow> field_name \<Rightarrow> bool" where
  "contains m logical \<longleftrightarrow> columns m logical \<noteq> None"

section \<open>Lookup\<close>

lemma resolve_eq_Ok [result_simps]: "resolve api m f = Ok c \<longleftrightarrow> columns m f = Some c"
  by (auto simp: resolve_def split: option.splits)

lemma resolve_Err: "resolve api m f = Err e \<Longrightarrow> kind e = Validation"
  by (auto simp: resolve_def split: option.splits)

lemma resolve_is_Err: "columns m f = None \<Longrightarrow> \<exists>e. resolve api m f = Err e \<and> kind e = Validation"
  by (simp add: resolve_def)

text \<open>Every column of a field map has a validated identifier.\<close>

definition field_map_ok :: "pg_field_map \<Rightarrow> bool" where
  "field_map_ok m \<longleftrightarrow> (\<forall>f c. columns m f = Some c \<longrightarrow> ident_ok (column_ident c))"

lemma field_map_ok_new [simp]: "field_map_ok field_map_new"
  by (simp add: field_map_ok_def field_map_new_def)

lemma field_map_okD: "field_map_ok m \<Longrightarrow> columns m f = Some c \<Longrightarrow> ident_ok (column_ident c)"
  by (simp add: field_map_ok_def)

lemma insert_keeps_field_map_ok:
  "field_map_ok m \<Longrightarrow> field_map_ok (snd (insert_with_permissions api m l p k perms))"
  by (auto simp: insert_with_permissions_def field_map_ok_def column_new_def Let_def
        identifier_new_eq_Ok split: result.splits if_splits)

section \<open>The registry contract\<close>

text \<open>
  What an entity mapping relies on when it keeps the order of its fields beside the field map:
  a successful add binds a new key and nothing else.
\<close>

locale field_registry =
  fixes look :: "'m \<Rightarrow> field_name \<Rightarrow> pg_column option"
    and add :: "'m \<Rightarrow> 'arg \<Rightarrow> unit soap_result \<times> 'm"
    and key :: "'arg \<Rightarrow> field_name option"
  assumes add_fresh: "add m a = (Ok (), m') \<Longrightarrow>
      \<exists>f c. key a = Some f \<and> look m f = None \<and> look m' = (look m)(f \<mapsto> c)"
    and add_other: "add m a = (r, m') \<Longrightarrow> key a \<noteq> Some f \<Longrightarrow> look m' f = look m f"
begin

lemma order_kept:
  assumes "set ord = dom (look m)" and "distinct ord"
    and "add m a = (Ok (), m')" and "key a = Some f"
  shows "set (ord @ [f]) = dom (look m') \<and> distinct (ord @ [f])"
proof -
  from add_fresh [OF assms(3)] assms(4)
  obtain c where "look m f = None" and "look m' = (look m)(f \<mapsto> c)" by auto
  with assms(1,2) show ?thesis by auto
qed

lemma no_rebinding: "add m a = (Ok (), m') \<Longrightarrow> look m f = Some c \<Longrightarrow> look m' f = Some c"
  using add_fresh by fastforce

end

definition registry_add ::
  "soaprs_api \<Rightarrow> pg_field_map \<Rightarrow> string \<times> string \<times> pg_scalar_kind \<times> pg_field_permissions
     \<Rightarrow> unit soap_result \<times> pg_field_map" where
  "registry_add api m = (\<lambda>(l, p, k, perms). insert_with_permissions api m l p k perms)"

definition registry_key ::
  "soaprs_api \<Rightarrow> string \<times> string \<times> pg_scalar_kind \<times> pg_field_permissions
     \<Rightarrow> field_name option" where
  "registry_key api = (\<lambda>(l, p, k, perms).
     case field_name_new api l of Ok f \<Rightarrow> Some f | Err e \<Rightarrow> None)"

lemma insert_Ok_iff:
  "insert_with_permissions api m l p k perms = (Ok u, m') \<longleftrightarrow>
     (\<exists>f i. field_name_new api l = Ok f \<and> identifier_new p = Ok i \<and> columns m f = None \<and>
            m' = m\<lparr>columns := (columns m)(f \<mapsto> column_new i k perms)\<rparr>)"
  by (auto simp: insert_with_permissions_def Let_def split: result.splits if_splits)

interpretation fmap: field_registry columns "registry_add api" "registry_key api" for api
proof
  show "\<exists>f c. registry_key api a = Some f \<and> columns m f = None \<and>
      columns m' = (columns m)(f \<mapsto> c)"
    if "registry_add api m a = (Ok (), m')" for m a m'
    using that by (cases a) (auto simp: registry_add_def registry_key_def insert_Ok_iff)
  show "columns m' f = columns m f"
    if "registry_add api m a = (r, m')" "registry_key api a \<noteq> Some f" for m a r m' f
    using that
    by (cases a) (auto simp: registry_add_def registry_key_def insert_with_permissions_def Let_def
        split: result.splits if_splits)
qed

section \<open>Properties\<close>

text \<open>
  The allow-list resolves exactly what was inserted.  After a successful insert of a
  logical field, that field resolves to the new column, every other field resolves as before,
  and no field that was mapped is remapped.
\<close>

theorem insert_then_resolve:
  assumes "insert_with_permissions api m logical physical k perms = (Ok (), m')"
  shows "\<exists>field ident. field_name_new api logical = Ok field \<and> identifier_new physical = Ok ident \<and>
           resolve api m' field = Ok (column_new ident k perms) \<and>
           is_ok (resolve api m field) = False \<and>
           (\<forall>g. g \<noteq> field \<longrightarrow> resolve api m' g = resolve api m g)"
proof -
  from assms obtain f i where
    *: "field_name_new api logical = Ok f" "identifier_new physical = Ok i"
       "columns m f = None" "m' = m\<lparr>columns := (columns m)(f \<mapsto> column_new i k perms)\<rparr>"
    by (auto simp: insert_Ok_iff)
  then show ?thesis by (auto simp: resolve_def)
qed

theorem insert_then_resolve_witness:
  "\<exists>field ident. field_name_new sample_api ''name'' = Ok field \<and>
     identifier_new ''display_name'' = Ok ident \<and>
     resolve sample_api (snd (insert_with_permissions sample_api field_map_new ''name''
        ''display_name'' Kind_Text PERSISTED)) field = Ok (column_new ident Kind_Text PERSISTED)"
proof -
  have h: "insert_with_permissions sample_api field_map_new ''name'' ''display_name'' Kind_Text
      PERSISTED = (Ok (), snd (insert_with_permissions sample_api field_map_new ''name''
        ''display_name'' Kind_Text PERSISTED))"
    by (simp add: insert_with_permissions_def sample_api_def field_map_new_def ident_start_def
        ident_continue_def is_ascii_alphanumeric_def is_ascii_alphabetic_def)
  from insert_then_resolve [OF h] show ?thesis by blast
qed

text \<open>
  C34: a refused duplicate is not a no-op.  Inserting a logical field that is already mapped
  returns a validation error, and the map it leaves behind resolves that field to the new
  column: the old one has been overwritten.
\<close>

theorem duplicate_insert_overwrites:
  assumes "field_name_new api logical = Ok field" and "identifier_new physical = Ok ident"
    and "columns m field = Some old"
  shows "\<exists>e m'. insert_with_permissions api m logical physical k perms = (Err e, m') \<and>
           kind e = Validation \<and> resolve api m' field = Ok (column_new ident k perms)"
  using assms by (simp add: insert_with_permissions_def resolve_def)

theorem duplicate_insert_overwrites_witness:
  "\<exists>e m'. insert_with_permissions sample_api
       (field_map_new\<lparr>columns := [Field_Name ''a'' \<mapsto>
          column_new (Pg_Identifier ''a'') Kind_Text PERSISTED]\<rparr>)
       ''a'' ''b'' Kind_Bool GENERATED = (Err e, m') \<and>
     kind e = Validation \<and>
     resolve sample_api m' (Field_Name ''a'') =
       Ok (column_new (Pg_Identifier ''b'') Kind_Bool GENERATED)"
  by (rule duplicate_insert_overwrites)
    (simp_all add: sample_api_def ident_start_def is_ascii_alphabetic_def)

end
