(* ===== verification/Pg_Value.thy ===== *)
theory Pg_Value
  imports Soap_Core
begin

text \<open>
  \<open>src/postgres/value.rs\<close>: the persistence values an entity codec produces, their validation and
  the conversions into them.  The crate is modelled with its default features, so the native
  PostgreSQL types are present; their values are only moved, compared with nothing and never
  inspected, so the types are opaque.
\<close>

typedecl uuid
typedecl json
typedecl big_decimal
typedecl naive_date
typedecl naive_time
typedecl naive_date_time
typedecl date_time_utc

text \<open>Each has a Rust \<open>PartialEq\<close>; only that it is equality is used.\<close>

instantiation uuid :: equal
begin

definition equal_uuid :: "uuid \<Rightarrow> uuid \<Rightarrow> bool" where
  "equal_uuid a b \<longleftrightarrow> a = b"

instance by standard (simp add: equal_uuid_def)

end

instantiation json :: equal
begin

definition equal_json :: "json \<Rightarrow> json \<Rightarrow> bool" where
  "equal_json a b \<longleftrightarrow> a = b"

instance by standard (simp add: equal_json_def)

end

instantiation big_decimal :: equal
begin

definition equal_big_decimal :: "big_decimal \<Rightarrow> big_decimal \<Rightarrow> bool" where
  "equal_big_decimal a b \<longleftrightarrow> a = b"

instance by standard (simp add: equal_big_decimal_def)

end

instantiation naive_date :: equal
begin

definition equal_naive_date :: "naive_date \<Rightarrow> naive_date \<Rightarrow> bool" where
  "equal_naive_date a b \<longleftrightarrow> a = b"

instance by standard (simp add: equal_naive_date_def)

end

instantiation naive_time :: equal
begin

definition equal_naive_time :: "naive_time \<Rightarrow> naive_time \<Rightarrow> bool" where
  "equal_naive_time a b \<longleftrightarrow> a = b"

instance by standard (simp add: equal_naive_time_def)

end

instantiation naive_date_time :: equal
begin

definition equal_naive_date_time :: "naive_date_time \<Rightarrow> naive_date_time \<Rightarrow> bool" where
  "equal_naive_date_time a b \<longleftrightarrow> a = b"

instance by standard (simp add: equal_naive_date_time_def)

end

instantiation date_time_utc :: equal
begin

definition equal_date_time_utc :: "date_time_utc \<Rightarrow> date_time_utc \<Rightarrow> bool" where
  "equal_date_time_utc a b \<longleftrightarrow> a = b"

instance by standard (simp add: equal_date_time_utc_def)

end

datatype pg_value =
  Pg_Bool bool
| Pg_I64 "64 word"
| Pg_U64 "64 word"
| Pg_F64 f64
| Pg_Text string
| Pg_Bytes "8 word list"
| Pg_Uuid uuid
| Pg_Json json
| Pg_Decimal big_decimal
| Pg_Date naive_date
| Pg_Time naive_time
| Pg_Timestamp naive_date_time
| Pg_TimestampTz date_time_utc
| Pg_Null
| Pg_Default

definition value_validate :: "pg_value \<Rightarrow> unit soap_result" where
  "value_validate v =
     (if (case v of Pg_F64 x \<Rightarrow> \<not> is_finite x | _ \<Rightarrow> False)
      then Err (err_validation ''PostgreSQL floating-point persistence value must be finite'')
      else Ok ())"

definition value_try_from :: "soaprs_api \<Rightarrow> scalar_value \<Rightarrow> pg_value soap_result" where
  "value_try_from api value =
     and_then (scalar_validate api value) (\<lambda>_.
       case value of
         Scalar_Null \<Rightarrow> Ok Pg_Null
       | Scalar_Bool b \<Rightarrow> Ok (Pg_Bool b)
       | Scalar_I64 i \<Rightarrow> Ok (Pg_I64 i)
       | Scalar_U64 u \<Rightarrow> Ok (Pg_U64 u)
       | Scalar_F64 x \<Rightarrow> Ok (Pg_F64 x)
       | Scalar_String s \<Rightarrow> Ok (Pg_Text s)
       | Scalar_Bytes b \<Rightarrow> Ok (Pg_Bytes b)
       | Scalar_List vs \<Rightarrow>
           Err (err_validation ''a PostgreSQL persistence value cannot contain a scalar list''))"

text \<open>The \<open>From\<close> instances; the two macros generate one instance per integer type.\<close>

definition from_bool :: "bool \<Rightarrow> pg_value" where
  "from_bool b = Pg_Bool b"

definition from_signed :: "'a::len word \<Rightarrow> pg_value" where
  "from_signed i = Pg_I64 (scast i)"

definition from_unsigned :: "'a::len word \<Rightarrow> pg_value" where
  "from_unsigned u = Pg_U64 (ucast u)"

definition from_f32 :: "f32 \<Rightarrow> pg_value" where
  "from_f32 x = Pg_F64 (f64_from_f32 x)"

definition from_f64 :: "f64 \<Rightarrow> pg_value" where
  "from_f64 x = Pg_F64 x"

definition from_string :: "string \<Rightarrow> pg_value" where
  "from_string s = Pg_Text s"

definition from_bytes :: "8 word list \<Rightarrow> pg_value" where
  "from_bytes b = Pg_Bytes b"

definition from_option :: "('t \<Rightarrow> pg_value) \<Rightarrow> 't option \<Rightarrow> pg_value" where
  "from_option into v = (case v of None \<Rightarrow> Pg_Null | Some x \<Rightarrow> into x)"

definition from_uuid :: "uuid \<Rightarrow> pg_value" where
  "from_uuid x = Pg_Uuid x"

definition from_json :: "json \<Rightarrow> pg_value" where
  "from_json x = Pg_Json x"

definition from_decimal :: "big_decimal \<Rightarrow> pg_value" where
  "from_decimal x = Pg_Decimal x"

definition from_date :: "naive_date \<Rightarrow> pg_value" where
  "from_date x = Pg_Date x"

definition from_time :: "naive_time \<Rightarrow> pg_value" where
  "from_time x = Pg_Time x"

definition from_timestamp :: "naive_date_time \<Rightarrow> pg_value" where
  "from_timestamp x = Pg_Timestamp x"

definition from_timestamptz :: "date_time_utc \<Rightarrow> pg_value" where
  "from_timestamptz x = Pg_TimestampTz x"

text \<open>\<open>value == PgValue::Default\<close> and \<open>matches!(value, PgValue::Null | PgValue::Default)\<close>.\<close>

definition is_default :: "pg_value \<Rightarrow> bool" where
  "is_default v = (case v of Pg_Default \<Rightarrow> True | _ \<Rightarrow> False)"

definition is_null_or_default :: "pg_value \<Rightarrow> bool" where
  "is_null_or_default v = (case v of Pg_Null \<Rightarrow> True | Pg_Default \<Rightarrow> True | _ \<Rightarrow> False)"

lemma is_default_iff [simp]: "is_default v \<longleftrightarrow> v = Pg_Default"
  by (cases v) (simp_all add: is_default_def)

lemma is_null_or_default_iff [simp]: "is_null_or_default v \<longleftrightarrow> v = Pg_Null \<or> v = Pg_Default"
  by (cases v) (simp_all add: is_null_or_default_def)

lemma value_validate_eq_Ok:
  "value_validate v = Ok u \<longleftrightarrow> (\<forall>x. v = Pg_F64 x \<longrightarrow> is_finite x)"
  by (cases v) (auto simp: value_validate_def)

lemma value_validate_Err: "value_validate v = Err e \<Longrightarrow> kind e = Validation"
  by (auto simp: value_validate_def split: if_splits)

end
