(* ===== verification/Entity_Mapping.thy ===== *)
theory Entity_Mapping
  imports Field_Mapping Pg_Value
begin

text \<open>
  \<open>src/postgres/entity.rs\<close>: the optionally qualified table name, the entity mapping (table,
  identity field, allow-list and statement order of the fields) with its builder and its
  validation, and the codec interface.
\<close>

section \<open>Tables\<close>

record pg_table =
  schema :: "pg_identifier option"
  table_name :: pg_identifier

definition table_new :: "string \<Rightarrow> pg_table soap_result" where
  "table_new name = and_then (identifier_new name) (\<lambda>n. Ok \<lparr>schema = None, table_name = n\<rparr>)"

definition table_in_schema :: "string \<Rightarrow> string \<Rightarrow> pg_table soap_result" where
  "table_in_schema sch name =
     and_then (identifier_new sch) (\<lambda>s.
     and_then (identifier_new name) (\<lambda>n. Ok \<lparr>schema = Some s, table_name = n\<rparr>))"

definition table_quoted :: "pg_table \<Rightarrow> string" where
  "table_quoted t =
     (case schema t of
        Some s \<Rightarrow> quoted s @ ''.'' @ quoted (table_name t)
      | None \<Rightarrow> quoted (table_name t))"

definition table_ok :: "pg_table \<Rightarrow> bool" where
  "table_ok t \<longleftrightarrow> ident_ok (table_name t) \<and> pred_option ident_ok (schema t)"

lemma table_new_ok: "table_new n = Ok t \<Longrightarrow> table_ok t"
  by (auto simp: table_new_def table_ok_def result_simps identifier_new_eq_Ok)

lemma table_in_schema_ok: "table_in_schema s n = Ok t \<Longrightarrow> table_ok t"
  by (auto simp: table_in_schema_def table_ok_def result_simps identifier_new_eq_Ok)

section \<open>Entity mappings\<close>

record pg_entity_mapping =
  table :: pg_table
  id_field :: field_name
  field_map :: pg_field_map
  ordered_fields :: "field_name list"

definition mapping_new :: "soaprs_api \<Rightarrow> string \<Rightarrow> string \<Rightarrow> pg_entity_mapping soap_result" where
  "mapping_new api tab idf =
     and_then (table_new tab) (\<lambda>t.
     and_then (field_name_new api idf) (\<lambda>i.
       Ok \<lparr>table = t, id_field = i, field_map = field_map_new, ordered_fields = []\<rparr>))"

definition mapping_in_schema ::
  "soaprs_api \<Rightarrow> string \<Rightarrow> string \<Rightarrow> string \<Rightarrow> pg_entity_mapping soap_result" where
  "mapping_in_schema api sch tab idf =
     and_then (table_in_schema sch tab) (\<lambda>t.
     and_then (field_name_new api idf) (\<lambda>i.
       Ok \<lparr>table = t, id_field = i, field_map = field_map_new, ordered_fields = []\<rparr>))"

definition with_field_permissions ::
  "soaprs_api \<Rightarrow> pg_entity_mapping \<Rightarrow> string \<Rightarrow> string \<Rightarrow> pg_scalar_kind \<Rightarrow> pg_field_permissions
     \<Rightarrow> pg_entity_mapping soap_result" where
  "with_field_permissions api m logical physical k perms =
     (if \<not> selectable perms \<and> \<not> insertable perms \<and> \<not> updatable perms then
        Err (err_validation
          ''PostgreSQL mapped field must participate in at least one operation'')
      else
        and_then (field_name_new api logical) (\<lambda>field.
          case insert_with_permissions api (field_map m) (as_str field) physical k perms of
            (Err e, fields') \<Rightarrow> Err e
          | (Ok u, fields') \<Rightarrow>
              Ok (m\<lparr>field_map := fields', ordered_fields := ordered_fields m @ [field]\<rparr>)))"

definition with_field ::
  "soaprs_api \<Rightarrow> pg_entity_mapping \<Rightarrow> string \<Rightarrow> string \<Rightarrow> pg_scalar_kind
     \<Rightarrow> pg_entity_mapping soap_result" where
  "with_field api m logical physical k = with_field_permissions api m logical physical k PERSISTED"

definition with_immutable_field ::
  "soaprs_api \<Rightarrow> pg_entity_mapping \<Rightarrow> string \<Rightarrow> string \<Rightarrow> pg_scalar_kind
     \<Rightarrow> pg_entity_mapping soap_result" where
  "with_immutable_field api m logical physical k =
     with_field_permissions api m logical physical k IMMUTABLE"

definition with_generated_field ::
  "soaprs_api \<Rightarrow> pg_entity_mapping \<Rightarrow> string \<Rightarrow> string \<Rightarrow> pg_scalar_kind
     \<Rightarrow> pg_entity_mapping soap_result" where
  "with_generated_field api m logical physical k =
     with_field_permissions api m logical physical k GENERATED"

definition fields_matching ::
  "soaprs_api \<Rightarrow> pg_entity_mapping \<Rightarrow> (pg_field_permissions \<Rightarrow> bool) \<Rightarrow> field_name list" where
  "fields_matching api m predicate =
     filter (\<lambda>field. case resolve api (field_map m) field of
                Ok column \<Rightarrow> predicate (permissions column)
              | Err e \<Rightarrow> False) (ordered_fields m)"

definition selectable_fields :: "soaprs_api \<Rightarrow> pg_entity_mapping \<Rightarrow> field_name list" where
  "selectable_fields api m = fields_matching api m selectable"

definition insertable_fields :: "soaprs_api \<Rightarrow> pg_entity_mapping \<Rightarrow> field_name list" where
  "insertable_fields api m = fields_matching api m insertable"

definition updatable_fields :: "soaprs_api \<Rightarrow> pg_entity_mapping \<Rightarrow> field_name list" where
  "updatable_fields api m = fields_matching api m updatable"

definition mapping_validate :: "soaprs_api \<Rightarrow> pg_entity_mapping \<Rightarrow> unit soap_result" where
  "mapping_validate api m =
     (if ordered_fields m = [] then
        Err (err_validation ''PostgreSQL entity mapping must contain at least one field'')
      else if \<not> contains (field_map m) (id_field m) then
        Err (err_validation (''PostgreSQL identity field `'' @
          field_name_display api (id_field m) @ ''` is not mapped''))
      else
        and_then (resolve api (field_map m) (id_field m)) (\<lambda>ident.
          if \<not> selectable (permissions ident) then
            Err (err_validation ''PostgreSQL identity field must be selectable'')
          else if selectable_fields api m = [] then
            Err (err_validation ''PostgreSQL entity mapping must select at least one field'')
          else Ok ()))"

text \<open>
  The codec an application supplies (\<open>PgEntityCodec\<close>).  \<open>entity_id\<close> is the entity's own \<open>id()\<close>.
\<close>

record ('e, 'id, 'row) pg_entity_codec =
  mapping :: pg_entity_mapping
  decode :: "'row \<Rightarrow> 'e soap_result"
  encode_value :: "'e \<Rightarrow> field_name \<Rightarrow> pg_value soap_result"
  id_value :: "'id \<Rightarrow> pg_value soap_result"
  entity_id :: "'e \<Rightarrow> 'id"

section \<open>The builder invariant\<close>

text \<open>
  The statement order lists every mapped field once, and the table and every column carry
  validated identifiers; each mapped field takes part in at least one kind of statement.
\<close>

definition participates :: "pg_field_permissions \<Rightarrow> bool" where
  "participates p \<longleftrightarrow> selectable p \<or> insertable p \<or> updatable p"

definition mapping_ok :: "pg_entity_mapping \<Rightarrow> bool" where
  "mapping_ok m \<longleftrightarrow>
     table_ok (table m) \<and> field_map_ok (field_map m) \<and>
     set (ordered_fields m) = dom (columns (field_map m)) \<and> distinct (ordered_fields m) \<and>
     (\<forall>c \<in> ran (columns (field_map m)). participates (permissions c))"

lemma mapping_okD:
  assumes "mapping_ok m"
  shows "table_ok (table m)" "field_map_ok (field_map m)"
    "set (ordered_fields m) = dom (columns (field_map m))" "distinct (ordered_fields m)"
    "c \<in> ran (columns (field_map m)) \<Longrightarrow> participates (permissions c)"
  using assms by (auto simp: mapping_ok_def)

lemma mapping_new_ok: "mapping_new api t i = Ok m \<Longrightarrow> mapping_ok m"
  by (auto simp: mapping_new_def mapping_ok_def result_simps table_new_ok field_map_new_def
      field_map_ok_def)

lemma mapping_in_schema_ok: "mapping_in_schema api s t i = Ok m \<Longrightarrow> mapping_ok m"
  by (auto simp: mapping_in_schema_def mapping_ok_def result_simps table_in_schema_ok
      field_map_new_def field_map_ok_def)

lemma with_field_permissions_Ok:
  assumes "with_field_permissions api m l p k perms = Ok m'"
  shows "participates perms \<and>
     (\<exists>f fs. field_name_new api l = Ok f \<and>
        insert_with_permissions api (field_map m) (as_str f) p k perms = (Ok (), fs) \<and>
        m' = m\<lparr>field_map := fs, ordered_fields := ordered_fields m @ [f]\<rparr>)"
proof -
  from assms obtain f where part: "participates perms" and f: "field_name_new api l = Ok f"
    and step: "(case insert_with_permissions api (field_map m) (as_str f) p k perms of
            (Err e, fields') \<Rightarrow> Err e
          | (Ok u, fields') \<Rightarrow>
              Ok (m\<lparr>field_map := fields', ordered_fields := ordered_fields m @ [f]\<rparr>)) = Ok m'"
    by (auto simp: with_field_permissions_def participates_def and_then_eq_Ok split: if_splits)
  obtain r fs where ins: "insert_with_permissions api (field_map m) (as_str f) p k perms = (r, fs)"
    by fastforce
  with step part f show ?thesis by (cases r) auto
qed

lemma with_field_permissions_ok:
  assumes stable: "field_name_stable api" and ok: "mapping_ok m"
    and step: "with_field_permissions api m l p k perms = Ok m'"
  shows "mapping_ok m'"
proof -
  from with_field_permissions_Ok [OF step] obtain f fs where
    perms: "participates perms" and f: "field_name_new api l = Ok f"
    and ins: "insert_with_permissions api (field_map m) (as_str f) p k perms = (Ok (), fs)"
    and m': "m' = m\<lparr>field_map := fs, ordered_fields := ordered_fields m @ [f]\<rparr>" by auto
  from stable f have f': "field_name_new api (as_str f) = Ok f"
    by (auto simp: field_name_stable_def)
  have add: "registry_add api (field_map m) (as_str f, p, k, perms) = (Ok (), fs)"
    by (simp add: registry_add_def ins)
  have key: "registry_key api (as_str f, p, k, perms) = Some f"
    by (simp add: registry_key_def f')
  have order: "set (ordered_fields m @ [f]) = dom (columns fs) \<and> distinct (ordered_fields m @ [f])"
    using fmap.order_kept [OF mapping_okD(3,4) [OF ok] add key] .
  have fok: "field_map_ok fs"
    using insert_keeps_field_map_ok [OF mapping_okD(2) [OF ok], of api "as_str f" p k perms] ins
    by simp
  from ins f' obtain i where "columns (field_map m) f = None"
      "fs = (field_map m)\<lparr>columns := (columns (field_map m))(f \<mapsto> column_new i k perms)\<rparr>"
    by (auto simp: insert_Ok_iff)
  then have "\<forall>c \<in> ran (columns fs). participates (permissions c)"
    using mapping_okD(5) [OF ok] perms by (auto simp: column_new_def)
  with order fok show ?thesis
    using mapping_okD(1) [OF ok] by (simp add: m' mapping_ok_def)
qed

section \<open>Field selections\<close>

lemma set_fields_matching:
  "set (fields_matching api m P) =
     {f \<in> set (ordered_fields m). \<exists>c. columns (field_map m) f = Some c \<and> P (permissions c)}"
  by (auto simp: fields_matching_def resolve_def split: option.splits)

lemma fields_matching_resolves:
  assumes "f \<in> set (fields_matching api m P)"
  obtains c where "columns (field_map m) f = Some c" "P (permissions c)"
  using assms by (auto simp: set_fields_matching)

lemma distinct_fields_matching: "mapping_ok m \<Longrightarrow> distinct (fields_matching api m P)"
  by (simp add: fields_matching_def mapping_okD)

lemmas field_selection_defs = selectable_fields_def insertable_fields_def updatable_fields_def

lemma mapping_validate_eq_Ok:
  "mapping_validate api m = Ok u \<longleftrightarrow>
     ordered_fields m \<noteq> [] \<and> selectable_fields api m \<noteq> [] \<and>
     (\<exists>c. columns (field_map m) (id_field m) = Some c \<and> selectable (permissions c))"
  by (auto simp: mapping_validate_def contains_def result_simps)

section \<open>Mappings as applications build them\<close>

inductive built :: "soaprs_api \<Rightarrow> pg_entity_mapping \<Rightarrow> bool" for api where
  built_new: "mapping_new api tab idf = Ok m \<Longrightarrow> built api m"
| built_in_schema: "mapping_in_schema api sch tab idf = Ok m \<Longrightarrow> built api m"
| built_field: "built api m \<Longrightarrow> with_field api m l p k = Ok m' \<Longrightarrow> built api m'"
| built_immutable: "built api m \<Longrightarrow> with_immutable_field api m l p k = Ok m' \<Longrightarrow> built api m'"
| built_generated: "built api m \<Longrightarrow> with_generated_field api m l p k = Ok m' \<Longrightarrow> built api m'"
| built_permissions: "built api m \<Longrightarrow> with_field_permissions api m l p k perms = Ok m' \<Longrightarrow> built api m'"

lemmas builder_defs = with_field_def with_immutable_field_def with_generated_field_def

lemma built_ok: "built api m \<Longrightarrow> field_name_stable api \<Longrightarrow> mapping_ok m"
  by (induction rule: built.induct)
    (auto simp: builder_defs intro: mapping_new_ok mapping_in_schema_ok with_field_permissions_ok)

lemma fields_matching_extend:
  assumes "columns (field_map m') = (columns (field_map m))(f \<mapsto> c)"
    and "ordered_fields m' = ordered_fields m @ [f]" and "f \<notin> set (ordered_fields m)"
  shows "fields_matching api m' P = fields_matching api m P @ (if P (permissions c) then [f] else [])"
proof -
  have "filter (\<lambda>g. case resolve api (field_map m') g of Ok c \<Rightarrow> P (permissions c) | Err e \<Rightarrow> False)
      (ordered_fields m) = fields_matching api m P"
    unfolding fields_matching_def using assms(1,3)
    by (intro filter_cong) (auto simp: resolve_def)
  then show ?thesis
    using assms(1,2) by (simp add: fields_matching_def resolve_def)
qed

section \<open>Properties\<close>

text \<open>
  C31: every mapping an application can build is well formed.  Whatever sequence of builder calls
  succeeded, the statement order lists each mapped field exactly once, the table and every column
  carry validated identifiers, and each mapped field takes part in at least one operation.  The
  one hypothesis is that a field name is accepted again as it was printed.
\<close>

theorem built_mappings_are_well_formed:
  assumes "field_name_stable api" and "built api m"
  shows "set (ordered_fields m) = dom (columns (field_map m)) \<and> distinct (ordered_fields m) \<and>
         table_ok (table m) \<and>
         (\<forall>f c. columns (field_map m) f = Some c \<longrightarrow>
            ident_ok (column_ident c) \<and>
            (selectable (permissions c) \<or> insertable (permissions c) \<or> updatable (permissions c)))"
proof -
  have ok: "mapping_ok m" using built_ok assms by blast
  show ?thesis
    using mapping_okD [OF ok] field_map_okD
    by (auto simp: participates_def ran_def)
qed

text \<open>A mapping of one field, built from strings.\<close>

definition sample_built :: "pg_entity_mapping soap_result" where
  "sample_built =
     and_then (mapping_new sample_api ''users'' ''id'')
       (\<lambda>m. with_immutable_field sample_api m ''id'' ''user_id'' Kind_Uuid)"

lemma sample_built_Ok:
  "sample_built = Ok \<lparr>table = \<lparr>schema = None, table_name = Pg_Identifier ''users''\<rparr>,
     id_field = Field_Name ''id'',
     field_map = \<lparr>columns = [Field_Name ''id'' \<mapsto> column_new (Pg_Identifier ''user_id'') Kind_Uuid IMMUTABLE]\<rparr>,
     ordered_fields = [Field_Name ''id'']\<rparr>"
  by (simp add: sample_built_def mapping_new_def table_new_def sample_api_def with_immutable_field_def
      with_field_permissions_def insert_with_permissions_def field_map_new_def IMMUTABLE_def
      permissions_new_def ident_start_def ident_continue_def is_ascii_alphabetic_def
      is_ascii_alphanumeric_def)

lemma sample_built_built: "sample_built = Ok m \<Longrightarrow> built sample_api m"
  unfolding sample_built_def and_then_eq_Ok by (blast intro: built_new built_immutable)

theorem built_mappings_are_well_formed_witness:
  "\<exists>m. sample_built = Ok m \<and> ordered_fields m = [Field_Name ''id''] \<and>
       dom (columns (field_map m)) = {Field_Name ''id''}"
proof -
  obtain m where m: "sample_built = Ok m" by (simp add: sample_built_Ok)
  from built_mappings_are_well_formed [OF field_name_stable_sample_api sample_built_built [OF m]]
  have "set (ordered_fields m) = dom (columns (field_map m))" by blast
  with m show ?thesis by (auto simp: sample_built_Ok)
qed

text \<open>
  Validation asks for a selectable identity and nothing else.  A built mapping validates
  exactly when its identity field is mapped to a selectable column; the check for at least one
  field is implied, and the last check, for at least one selected field, can never be the one
  that fails.
\<close>

theorem validation_is_selectable_identity:
  assumes "field_name_stable api" and "built api m"
  shows "(mapping_validate api m = Ok () \<longleftrightarrow>
           (\<exists>c. columns (field_map m) (id_field m) = Some c \<and> selectable (permissions c))) \<and>
         (\<forall>e. mapping_validate api m = Err e \<longrightarrow> kind e = Validation \<and>
            e \<noteq> err_validation ''PostgreSQL entity mapping must select at least one field'')"
proof -
  have order: "set (ordered_fields m) = dom (columns (field_map m))"
    using mapping_okD(3) [OF built_ok [OF assms(2,1)]] .
  have some: "selectable_fields api m \<noteq> []" "ordered_fields m \<noteq> []"
    if "columns (field_map m) (id_field m) = Some c" "selectable (permissions c)" for c
  proof -
    from that order have "id_field m \<in> set (selectable_fields api m)"
      by (auto simp: selectable_fields_def set_fields_matching)
    then show "selectable_fields api m \<noteq> []" by auto
    from that order show "ordered_fields m \<noteq> []" by auto
  qed
  have "(\<forall>e. mapping_validate api m = Err e \<longrightarrow> kind e = Validation \<and>
      e \<noteq> err_validation ''PostgreSQL entity mapping must select at least one field'')"
    using some
    by (auto simp: mapping_validate_def contains_def resolve_def split: option.splits if_splits)
  moreover have "mapping_validate api m = Ok () \<longleftrightarrow>
      (\<exists>c. columns (field_map m) (id_field m) = Some c \<and> selectable (permissions c))"
    using some by (auto simp: mapping_validate_eq_Ok)
  ultimately show ?thesis by blast
qed

theorem validation_is_selectable_identity_witness:
  "\<exists>m. sample_built = Ok m \<and> mapping_validate sample_api m = Ok ()"
proof -
  obtain m where m: "sample_built = Ok m" by (simp add: sample_built_Ok)
  have "columns (field_map m) (id_field m) =
      Some (column_new (Pg_Identifier ''user_id'') Kind_Uuid IMMUTABLE)"
    using m by (auto simp: sample_built_Ok)
  then have "\<exists>c. columns (field_map m) (id_field m) = Some c \<and> selectable (permissions c)"
    by (simp add: column_new_def IMMUTABLE_def permissions_new_def)
  with validation_is_selectable_identity [OF field_name_stable_sample_api sample_built_built [OF m]] m
  show ?thesis by blast
qed

text \<open>
  The builder extends the statements as the permissions say.  A successful builder call adds
  the new field at the end of the select, insert and update selections its permissions name, and
  leaves the rest of each selection as it was; a field without any permission is refused.
\<close>

theorem builder_extends_selections:
  assumes "field_name_stable api" and "built api m"
    and "with_field_permissions api m logical physical k perms = Ok m'"
  shows "\<exists>f. field_name_new api logical = Ok f \<and>
     selectable_fields api m' = selectable_fields api m @ (if selectable perms then [f] else []) \<and>
     insertable_fields api m' = insertable_fields api m @ (if insertable perms then [f] else []) \<and>
     updatable_fields api m' = updatable_fields api m @ (if updatable perms then [f] else []) \<and>
     (selectable perms \<or> insertable perms \<or> updatable perms)"
proof -
  from with_field_permissions_Ok [OF assms(3)] obtain f fs where
    perms: "participates perms" and f: "field_name_new api logical = Ok f"
    and ins: "insert_with_permissions api (field_map m) (as_str f) physical k perms = (Ok (), fs)"
    and m': "m' = m\<lparr>field_map := fs, ordered_fields := ordered_fields m @ [f]\<rparr>" by auto
  from assms(1) f have "field_name_new api (as_str f) = Ok f"
    by (auto simp: field_name_stable_def)
  with ins obtain i where new: "columns (field_map m) f = None"
    and cols: "columns fs = (columns (field_map m))(f \<mapsto> column_new i k perms)"
    by (auto simp: insert_Ok_iff)
  have "f \<notin> set (ordered_fields m)"
    using mapping_okD(3) [OF built_ok [OF assms(2,1)]] new by auto
  then have ext: "fields_matching api m' P = fields_matching api m P @ (if P perms then [f] else [])" for P
    using fields_matching_extend [of m' m f "column_new i k perms" api P] cols
    by (simp add: m' column_new_def)
  show ?thesis
    using f perms by (auto simp: field_selection_defs ext participates_def)
qed

theorem builder_extends_selections_witness:
  "\<exists>m m'. sample_built = Ok m \<and>
     with_field_permissions sample_api m ''at'' ''created_at'' Kind_TimestampTz GENERATED = Ok m' \<and>
     insertable_fields sample_api m' = insertable_fields sample_api m \<and>
     selectable_fields sample_api m' = selectable_fields sample_api m @ [Field_Name ''at'']"
proof -
  obtain m where m: "sample_built = Ok m" by (simp add: sample_built_Ok)
  then obtain m' where m': "with_field_permissions sample_api m ''at'' ''created_at'' Kind_TimestampTz
      GENERATED = Ok m'"
    by (auto simp: sample_built_Ok sample_api_def with_field_permissions_def
        insert_with_permissions_def GENERATED_def permissions_new_def ident_start_def
        ident_continue_def is_ascii_alphabetic_def is_ascii_alphanumeric_def)
  from builder_extends_selections [OF field_name_stable_sample_api sample_built_built [OF m] m'] m m'
  show ?thesis by (auto simp: sample_api_def GENERATED_def permissions_new_def)
qed

end
