(* ===== verification/Compiler.thy ===== *)
theory Compiler
  imports Entity_Mapping
begin

text \<open>
  \<open>src/postgres/compiler.rs\<close>: typed bindings, the compiled query and its encoding as driver
  arguments, and the compiler from portable conditions to SQL fragments.  The compiler writes
  into an output buffer (SQL text and bindings); the buffer is passed along explicitly.  On an
  error the source drops the buffer, so the error alone is returned.
\<close>

section \<open>Bindings and arguments\<close>

datatype pg_bind_value =
  Bind_Bool bool
| Bind_Numeric string
| Bind_Text string
| Bind_Bytes "8 word list"
| Bind_Uuid uuid
| Bind_Json json
| Bind_Decimal big_decimal
| Bind_Date naive_date
| Bind_Time naive_time
| Bind_Timestamp naive_date_time
| Bind_TimestampTz date_time_utc
| Bind_I64 "64 word"
| Bind_Null pg_scalar_kind

record pg_compiled_query =
  sql :: string
  bindings :: "pg_bind_value list"

definition from_bindings :: "pg_bind_value list \<Rightarrow> pg_compiled_query" where
  "from_bindings bs = \<lparr>sql = '''', bindings = bs\<rparr>"

text \<open>
  The Rust value handed to \<open>PgArguments::add\<close>: its Rust type decides the PostgreSQL type of the
  parameter.  \<open>Add_None_String\<close> and its kin are \<open>Option::<T>::None\<close>.
\<close>

datatype argument =
  Add_Bool bool | Add_String string | Add_Bytes "8 word list" | Add_Uuid uuid | Add_Json json
| Add_Decimal big_decimal | Add_Date naive_date | Add_Time naive_time
| Add_Timestamp naive_date_time | Add_TimestampTz date_time_utc | Add_I64 "64 word"
| Add_None_Bool | Add_None_String | Add_None_Bytes

type_synonym pg_arguments = "argument list"

text \<open>What the driver's encoder answers for an argument: \<open>None\<close> when it is encoded, otherwise
  the text of the boxed error.\<close>

type_synonym encoder = "argument \<Rightarrow> string option"

definition argument_of :: "pg_bind_value \<Rightarrow> argument" where
  "argument_of b =
     (case b of
        Bind_Bool v \<Rightarrow> Add_Bool v
      | Bind_Numeric v \<Rightarrow> Add_String v
      | Bind_Text v \<Rightarrow> Add_String v
      | Bind_Bytes v \<Rightarrow> Add_Bytes v
      | Bind_Uuid v \<Rightarrow> Add_Uuid v
      | Bind_Json v \<Rightarrow> Add_Json v
      | Bind_Decimal v \<Rightarrow> Add_Decimal v
      | Bind_Date v \<Rightarrow> Add_Date v
      | Bind_Time v \<Rightarrow> Add_Time v
      | Bind_Timestamp v \<Rightarrow> Add_Timestamp v
      | Bind_TimestampTz v \<Rightarrow> Add_TimestampTz v
      | Bind_I64 v \<Rightarrow> Add_I64 v
      | Bind_Null k \<Rightarrow>
          (case k of
             Kind_Bool \<Rightarrow> Add_None_Bool
           | Kind_Bytes \<Rightarrow> Add_None_Bytes
           | _ \<Rightarrow> Add_None_String))"

definition arguments_add :: "encoder \<Rightarrow> argument \<Rightarrow> pg_arguments \<Rightarrow> (pg_arguments, string) result" where
  "arguments_add enc a args = (case enc a of None \<Rightarrow> Ok (args @ [a]) | Some err \<Rightarrow> Err err)"

fun add_bindings :: "encoder \<Rightarrow> pg_bind_value list \<Rightarrow> pg_arguments \<Rightarrow> pg_arguments soap_result" where
  "add_bindings enc [] args = Ok args"
| "add_bindings enc (b # bs) args =
     and_then
       (map_err (\<lambda>err. with_source (Pg_Binding_Encode_Error err)
           (err_infrastructure ''failed to encode a PostgreSQL query binding''))
         (arguments_add enc (argument_of b) args))
       (add_bindings enc bs)"

definition into_arguments :: "encoder \<Rightarrow> pg_compiled_query \<Rightarrow> pg_arguments soap_result" where
  "into_arguments enc q = add_bindings enc (bindings q) []"

definition into_parts :: "pg_compiled_query \<Rightarrow> string \<times> pg_bind_value list" where
  "into_parts q = (sql q, bindings q)"

definition into_sqlx_parts ::
  "encoder \<Rightarrow> pg_compiled_query \<Rightarrow> (string \<times> pg_arguments) soap_result" where
  "into_sqlx_parts enc q =
     and_then (into_arguments enc q) (\<lambda>arguments. Ok (sql q, arguments))"

section \<open>Column expressions and bindings of one value\<close>

definition column_expression :: "pg_column \<Rightarrow> string" where
  "column_expression c =
     (let ident = quoted (column_ident c) in
      case scalar_kind c of
        Kind_Numeric \<Rightarrow> ident @ ''::numeric''
      | Kind_Text \<Rightarrow> ident @ '' COLLATE '' @ [dquote] @ ''C'' @ [dquote]
      | _ \<Rightarrow> ident)"

definition placeholder_cast :: "pg_scalar_kind \<Rightarrow> string option" where
  "placeholder_cast k =
     (case k of
        Kind_Bool \<Rightarrow> None | Kind_Text \<Rightarrow> None | Kind_Bytes \<Rightarrow> None
      | Kind_Numeric \<Rightarrow> Some ''numeric''
      | Kind_Uuid \<Rightarrow> Some ''uuid''
      | Kind_Json \<Rightarrow> Some ''jsonb''
      | Kind_Date \<Rightarrow> Some ''date''
      | Kind_Time \<Rightarrow> Some ''time''
      | Kind_Timestamp \<Rightarrow> Some ''timestamp''
      | Kind_TimestampTz \<Rightarrow> Some ''timestamptz'')"

definition bind_scalar :: "pg_scalar_kind \<Rightarrow> scalar_value \<Rightarrow> pg_bind_value soap_result" where
  "bind_scalar k v =
     (case (k, v) of
        (Kind_Bool, Scalar_Bool x) \<Rightarrow> Ok (Bind_Bool x)
      | (Kind_Numeric, Scalar_I64 x) \<Rightarrow> Ok (Bind_Numeric (show_int (sint x)))
      | (Kind_Numeric, Scalar_U64 x) \<Rightarrow> Ok (Bind_Numeric (show_nat (unat x)))
      | (Kind_Numeric, Scalar_F64 x) \<Rightarrow> Ok (Bind_Numeric (f64_to_string x))
      | (Kind_Text, Scalar_String x) \<Rightarrow> Ok (Bind_Text x)
      | (Kind_Bytes, Scalar_Bytes x) \<Rightarrow> Ok (Bind_Bytes x)
      | (Kind_Uuid, Scalar_String x) \<Rightarrow> Ok (Bind_Text x)
      | (Kind_Json, Scalar_String x) \<Rightarrow> Ok (Bind_Text x)
      | (Kind_Date, Scalar_String x) \<Rightarrow> Ok (Bind_Text x)
      | (Kind_Time, Scalar_String x) \<Rightarrow> Ok (Bind_Text x)
      | (Kind_Timestamp, Scalar_String x) \<Rightarrow> Ok (Bind_Text x)
      | (Kind_TimestampTz, Scalar_String x) \<Rightarrow> Ok (Bind_Text x)
      | (_, Scalar_Null) \<Rightarrow>
          Err (err_validation ''use IS NULL or IS NOT NULL for PostgreSQL null values'')
      | (_, Scalar_List _) \<Rightarrow>
          Err (err_validation ''a nested PostgreSQL binding list is invalid'')
      | (_, _) \<Rightarrow>
          Err (err_validation ''query value is incompatible with the mapped PostgreSQL column''))"

definition normalize_binding ::
  "soaprs_api \<Rightarrow> pg_scalar_kind \<Rightarrow> scalar_value \<Rightarrow> pg_bind_value soap_result" where
  "normalize_binding api k v = and_then (scalar_validate api v) (\<lambda>_. bind_scalar k v)"

definition bind_pg_value :: "pg_scalar_kind \<Rightarrow> pg_value \<Rightarrow> pg_bind_value soap_result" where
  "bind_pg_value k v =
     (case (k, v) of
        (_, Pg_Null) \<Rightarrow> Ok (Bind_Null k)
      | (_, Pg_Default) \<Rightarrow>
          Err (err_infrastructure ''PostgreSQL DEFAULT cannot be encoded as a query binding'')
      | (Kind_Bool, Pg_Bool x) \<Rightarrow> Ok (Bind_Bool x)
      | (Kind_Numeric, Pg_I64 x) \<Rightarrow> Ok (Bind_Numeric (show_int (sint x)))
      | (Kind_Numeric, Pg_U64 x) \<Rightarrow> Ok (Bind_Numeric (show_nat (unat x)))
      | (Kind_Numeric, Pg_F64 x) \<Rightarrow> Ok (Bind_Numeric (f64_to_string x))
      | (Kind_Text, Pg_Text x) \<Rightarrow> Ok (Bind_Text x)
      | (Kind_Bytes, Pg_Bytes x) \<Rightarrow> Ok (Bind_Bytes x)
      | (Kind_Uuid, Pg_Uuid x) \<Rightarrow> Ok (Bind_Uuid x)
      | (Kind_Json, Pg_Json x) \<Rightarrow> Ok (Bind_Json x)
      | (Kind_Numeric, Pg_Decimal x) \<Rightarrow> Ok (Bind_Decimal x)
      | (Kind_Date, Pg_Date x) \<Rightarrow> Ok (Bind_Date x)
      | (Kind_Time, Pg_Time x) \<Rightarrow> Ok (Bind_Time x)
      | (Kind_Timestamp, Pg_Timestamp x) \<Rightarrow> Ok (Bind_Timestamp x)
      | (Kind_TimestampTz, Pg_TimestampTz x) \<Rightarrow> Ok (Bind_TimestampTz x)
      | (_, _) \<Rightarrow>
          Err (err_validation ''persistence value is incompatible with the mapped PostgreSQL column''))"

definition normalize_entity_binding :: "pg_scalar_kind \<Rightarrow> pg_value \<Rightarrow> pg_bind_value soap_result" where
  "normalize_entity_binding k v = and_then (value_validate v) (\<lambda>_. bind_pg_value k v)"

section \<open>The output buffer\<close>

record compiler_output =
  out_sql :: string
  out_bindings :: "pg_bind_value list"

definition output_default :: compiler_output where
  "output_default = \<lparr>out_sql = '''', out_bindings = []\<rparr>"

definition push_str :: "string \<Rightarrow> compiler_output \<Rightarrow> compiler_output" where
  "push_str s out = out\<lparr>out_sql := out_sql out @ s\<rparr>"

definition cast_suffix :: "string option \<Rightarrow> string" where
  "cast_suffix cast = (case cast of Some c \<Rightarrow> ''::'' @ c | None \<Rightarrow> '''')"

definition push_binding ::
  "pg_bind_value \<Rightarrow> string option \<Rightarrow> compiler_output \<Rightarrow> compiler_output" where
  "push_binding b cast out =
     (let bs = out_bindings out @ [b] in
      \<lparr>out_sql = out_sql out @ ''$'' @ show_nat (length bs) @ cast_suffix cast,
       out_bindings = bs\<rparr>)"

definition finish :: "compiler_output \<Rightarrow> pg_compiled_query" where
  "finish out = \<lparr>sql = out_sql out, bindings = out_bindings out\<rparr>"

definition separate_clause :: "compiler_output \<Rightarrow> compiler_output" where
  "separate_clause out = (if out_sql out \<noteq> '''' then push_str '' '' out else out)"

section \<open>Predicates\<close>

text \<open>The loop over the values of a set operator; \<open>index\<close> is the loop counter.\<close>

fun write_set_values ::
  "soaprs_api \<Rightarrow> pg_scalar_kind \<Rightarrow> nat \<Rightarrow> scalar_value list \<Rightarrow> compiler_output
     \<Rightarrow> compiler_output soap_result" where
  "write_set_values api k index [] out = Ok out"
| "write_set_values api k index (v # vs) out =
     (let out1 = (if index > 0 then push_str '', '' out else out) in
      and_then (normalize_binding api k v) (\<lambda>b.
        write_set_values api k (Suc index) vs (push_binding b (placeholder_cast k) out1)))"

text \<open>The symbols of the comparison operators, \<open>None\<close> for the operators of other branches.\<close>

definition comparison_symbol :: "operator \<Rightarrow> string option" where
  "comparison_symbol op =
     (case op of
        Op_Eq \<Rightarrow> Some '' = '' | Op_Ne \<Rightarrow> Some '' <> '' | Op_Gt \<Rightarrow> Some '' > ''
      | Op_Gte \<Rightarrow> Some '' >= '' | Op_Lt \<Rightarrow> Some '' < '' | Op_Lte \<Rightarrow> Some '' <= ''
      | Op_Like \<Rightarrow> Some '' LIKE '' | _ \<Rightarrow> None)"

definition escape_clause :: string where
  "escape_clause = '' ESCAPE '' @ [squote, squote]"

definition write_set ::
  "soaprs_api \<Rightarrow> pg_column \<Rightarrow> bool \<Rightarrow> scalar_value option \<Rightarrow> compiler_output
     \<Rightarrow> compiler_output soap_result" where
  "write_set api column is_in value out =
     (case value of
        Some (Scalar_List values) \<Rightarrow>
          (if values = [] then
             Ok (if is_in then push_str ''FALSE'' out
                 else push_str '' IS NOT NULL'' (push_str (column_expression column) out))
           else
             and_then
               (write_set_values api (scalar_kind column) 0 values
                 (push_str (if is_in then '' IN ('' else '' NOT IN ('')
                   (push_str (column_expression column) out)))
               (\<lambda>out'. Ok (push_str '')'' out')))
      | _ \<Rightarrow> Err (err_validation ''set operator requires a list value''))"

definition write_comparison ::
  "soaprs_api \<Rightarrow> pg_column \<Rightarrow> operator \<Rightarrow> scalar_value option \<Rightarrow> compiler_output
     \<Rightarrow> compiler_output soap_result" where
  "write_comparison api column op value out =
     (case value of
        None \<Rightarrow> Err (err_validation ''comparison operator requires a value'')
      | Some v \<Rightarrow>
          and_then (normalize_binding api (scalar_kind column) v) (\<lambda>b.
            case comparison_symbol op of
              None \<Rightarrow>
          Err (err_infrastructure ''unexpected PostgreSQL compiler operator branch'')
            | Some symbol \<Rightarrow>
                (let out1 = push_binding b (placeholder_cast (scalar_kind column))
                              (push_str symbol (push_str (column_expression column) out)) in
                 Ok (if op = Op_Like then push_str escape_clause out1 else out1))))"

definition write_predicate ::
  "soaprs_api \<Rightarrow> pg_column \<Rightarrow> operator \<Rightarrow> scalar_value option \<Rightarrow> compiler_output
     \<Rightarrow> compiler_output soap_result" where
  "write_predicate api column op value out =
     (if op = Op_Like \<and> scalar_kind column \<noteq> Kind_Text then
        Err (err_validation ''LIKE requires a PostgreSQL text column'')
      else
        (case op of
           Op_Is_Null \<Rightarrow> Ok (push_str '' IS NULL'' (push_str (column_expression column) out))
         | Op_Is_Not_Null \<Rightarrow>
             Ok (push_str '' IS NOT NULL'' (push_str (column_expression column) out))
         | Op_In \<Rightarrow> write_set api column True value out
         | Op_Not_In \<Rightarrow> write_set api column False value out
         | _ \<Rightarrow> write_comparison api column op value out))"

section \<open>Conditions\<close>

definition separator :: "logical_operator \<Rightarrow> string" where
  "separator op = (case op of And \<Rightarrow> '' AND '' | Or \<Rightarrow> '' OR '')"

fun write_condition ::
  "soaprs_api \<Rightarrow> pg_field_map \<Rightarrow> condition \<Rightarrow> compiler_output \<Rightarrow> compiler_output soap_result"
and write_group ::
  "soaprs_api \<Rightarrow> pg_field_map \<Rightarrow> string \<Rightarrow> nat \<Rightarrow> condition list \<Rightarrow> compiler_output
     \<Rightarrow> compiler_output soap_result" where
  "write_condition api m (Group op conditions) out =
     and_then (write_group api m (separator op) 0 conditions (push_str ''('' out))
       (\<lambda>out'. Ok (push_str '')'' out'))"
| "write_condition api m (Predicate field op value) out =
     and_then (resolve api m field) (\<lambda>column. write_predicate api column op value out)"
| "write_group api m sep index [] out = Ok out"
| "write_group api m sep index (c # cs) out =
     and_then (write_condition api m c (if index > 0 then push_str sep out else out))
       (write_group api m sep (Suc index) cs)"

section \<open>The public operations\<close>

definition compile_condition ::
  "soaprs_api \<Rightarrow> pg_field_map \<Rightarrow> condition \<Rightarrow> pg_compiled_query soap_result" where
  "compile_condition api m condition =
     and_then (condition_validate api condition) (\<lambda>_.
     and_then (write_condition api m condition output_default) (\<lambda>out.
       Ok (finish out)))"

definition write_where ::
  "soaprs_api \<Rightarrow> pg_field_map \<Rightarrow> condition option \<Rightarrow> compiler_output
     \<Rightarrow> compiler_output soap_result" where
  "write_where api m c out =
     (case c of
        Some condition \<Rightarrow> write_condition api m condition (push_str ''WHERE '' out)
      | None \<Rightarrow> Ok out)"

fun write_sort_keys ::
  "soaprs_api \<Rightarrow> pg_field_map \<Rightarrow> nat \<Rightarrow> sort_key list \<Rightarrow> compiler_output
     \<Rightarrow> compiler_output soap_result" where
  "write_sort_keys api m index [] out = Ok out"
| "write_sort_keys api m index (s # ss) out =
     (let out1 = (if index > 0 then push_str '', '' out else out) in
      and_then (resolve api m (sort_field s)) (\<lambda>column.
        let out2 = push_str (column_expression column) out1 in
        write_sort_keys api m (Suc index) ss
          (case direction s of
             Ascending \<Rightarrow> push_str '' ASC NULLS FIRST'' out2
           | Descending \<Rightarrow> push_str '' DESC NULLS LAST'' out2)))"

definition write_order ::
  "soaprs_api \<Rightarrow> pg_field_map \<Rightarrow> sort_key list \<Rightarrow> compiler_output
     \<Rightarrow> compiler_output soap_result" where
  "write_order api m keys out =
     (if keys \<noteq> [] then
        write_sort_keys api m 0 keys
          (push_str ''ORDER BY '' (if out_sql out \<noteq> '''' then push_str '' '' out else out))
      else Ok out)"

text \<open>\<open>i64::try_from\<close> on an unsigned 64-bit value: the same bits, when the value fits.\<close>

definition i64_try_from_u64 :: "64 word \<Rightarrow> 64 word option" where
  "i64_try_from_u64 u = (if unat u < 2 ^ 63 then Some u else None)"

definition write_count_clause ::
  "string \<Rightarrow> string \<Rightarrow> 64 word \<Rightarrow> compiler_output \<Rightarrow> compiler_output soap_result" where
  "write_count_clause keyword failure n out =
     (let out1 = push_str keyword (separate_clause out) in
      case i64_try_from_u64 n of
        None \<Rightarrow> Err (err_validation failure)
      | Some i \<Rightarrow> Ok (push_binding (Bind_I64 i) None out1))"

definition write_limit :: "64 word option \<Rightarrow> compiler_output \<Rightarrow> compiler_output soap_result" where
  "write_limit lim out =
     (case lim of
        Some n \<Rightarrow> write_count_clause ''LIMIT '' ''PostgreSQL limit exceeds BIGINT range'' n out
      | None \<Rightarrow> Ok out)"

definition write_offset :: "64 word \<Rightarrow> compiler_output \<Rightarrow> compiler_output soap_result" where
  "write_offset off out =
     (if off > 0 then
        write_count_clause ''OFFSET '' ''PostgreSQL offset exceeds BIGINT range'' off out
      else Ok out)"

definition compile_find ::
  "soaprs_api \<Rightarrow> pg_field_map \<Rightarrow> find_params \<Rightarrow> pg_compiled_query soap_result" where
  "compile_find api m params =
     and_then (params_validate api params) (\<lambda>_.
     and_then (write_where api m (condition_of params) output_default) (\<lambda>out1.
     and_then (write_order api m (sort_keys params) out1) (\<lambda>out2.
     and_then (write_limit (limit params) out2) (\<lambda>out3.
     and_then (write_offset (offset params) out3) (\<lambda>out4.
       Ok (finish out4))))))"

definition compile_count ::
  "soaprs_api \<Rightarrow> pg_field_map \<Rightarrow> find_params \<Rightarrow> pg_compiled_query soap_result" where
  "compile_count api m params =
     and_then (params_validate api params) (\<lambda>_.
     and_then (write_where api m (condition_of params) output_default) (\<lambda>out.
       Ok (finish out)))"

end
