(* ===== verification/Source.thy ===== *)
theory Source
  imports Compiler
begin

text \<open>
  \<open>src/postgres/source.rs\<close>: the execution boundary \<open>PgSource\<close> and its pool implementation.  An
  asynchronous operation is modelled by its completion: it takes the state of the world and
  returns the result and the new state.  The driver (\<open>sqlx\<close> on a connection or a pool) is a
  parameter; what the adapter sends it is recorded in a log, so that properties can speak of the
  statements issued.
\<close>

record pg_query_result =
  rows_affected :: "64 word"

record ('s, 'row) pg_source =
  fetch_all :: "string \<Rightarrow> pg_arguments \<Rightarrow> 's \<Rightarrow> ('row list, sqlx_error) result \<times> 's"
  fetch_optional :: "string \<Rightarrow> pg_arguments \<Rightarrow> 's \<Rightarrow> ('row option, sqlx_error) result \<times> 's"
  fetch_one :: "string \<Rightarrow> pg_arguments \<Rightarrow> 's \<Rightarrow> ('row, sqlx_error) result \<times> 's"
  apply_sql :: "string \<Rightarrow> pg_arguments \<Rightarrow> 's \<Rightarrow> (pg_query_result, sqlx_error) result \<times> 's"
  apply_one :: "string \<Rightarrow> pg_arguments \<Rightarrow> 's \<Rightarrow> ('row, sqlx_error) result \<times> 's"

section \<open>The driver and the log\<close>

text \<open>The four methods of a driver query the adapter uses, on some executor.\<close>

record ('w, 'row) executor =
  run_fetch_all :: "string \<Rightarrow> pg_arguments \<Rightarrow> 'w \<Rightarrow> ('row list, sqlx_error) result \<times> 'w"
  run_fetch_optional :: "string \<Rightarrow> pg_arguments \<Rightarrow> 'w \<Rightarrow> ('row option, sqlx_error) result \<times> 'w"
  run_fetch_one :: "string \<Rightarrow> pg_arguments \<Rightarrow> 'w \<Rightarrow> ('row, sqlx_error) result \<times> 'w"
  run_execute :: "string \<Rightarrow> pg_arguments \<Rightarrow> 'w \<Rightarrow> (pg_query_result, sqlx_error) result \<times> 'w"

datatype driver_call = Fetch_All | Fetch_Optional | Fetch_One | Execute

text \<open>What reaches the driver: a statement on an endpoint (a pool or a connection, by number), or
  the beginning or the end of a transaction.\<close>

datatype event =
  Statement nat driver_call string pg_arguments
| Begin_Tx | Commit_Tx | Rollback_Tx

record 'w world =
  db :: 'w
  issued :: "event list"

definition issue :: "event \<Rightarrow> ('w \<Rightarrow> 'a \<times> 'w) \<Rightarrow> 'w world \<Rightarrow> 'a \<times> 'w world" where
  "issue ev run w =
     (case run (db w) of (r, d) \<Rightarrow> (r, w\<lparr>db := d, issued := issued w @ [ev]\<rparr>))"

text \<open>\<open>PgPoolSource\<close>: every operation is one driver call on the pool.\<close>

definition pool_source :: "nat \<Rightarrow> ('w, 'row) executor \<Rightarrow> ('w world, 'row) pg_source" where
  "pool_source endpoint pool =
     \<lparr>fetch_all = (\<lambda>stmt arguments.
        issue (Statement endpoint Fetch_All stmt arguments) (run_fetch_all pool stmt arguments)),
      fetch_optional = (\<lambda>stmt arguments.
        issue (Statement endpoint Fetch_Optional stmt arguments)
          (run_fetch_optional pool stmt arguments)),
      fetch_one = (\<lambda>stmt arguments.
        issue (Statement endpoint Fetch_One stmt arguments) (run_fetch_one pool stmt arguments)),
      apply_sql = (\<lambda>stmt arguments.
        issue (Statement endpoint Execute stmt arguments) (run_execute pool stmt arguments)),
      apply_one = (\<lambda>stmt arguments.
        issue (Statement endpoint Fetch_One stmt arguments) (run_fetch_one pool stmt arguments))\<rparr>"

lemma issue_trace: "issue ev run w = (r, w') \<Longrightarrow> issued w' = issued w @ [ev]"
  by (auto simp: issue_def split: prod.splits)

lemma issue_eq: "issue ev run w = (fst (run (db w)),
    w\<lparr>db := snd (run (db w)), issued := issued w @ [ev]\<rparr>)"
  by (simp add: issue_def case_prod_beta)

section \<open>The contract of a source\<close>

text \<open>
  What a repository relies on and what every implementation keeps: an operation sends its
  statement and its arguments, unchanged, exactly once to one endpoint, or it sends nothing and
  fails.  There is no retry and no rewriting.
\<close>

definition sent_once ::
  "('s \<Rightarrow> event list) \<Rightarrow> driver_call \<Rightarrow> string \<Rightarrow> pg_arguments \<Rightarrow> 's
     \<Rightarrow> ('a, sqlx_error) result \<times> 's \<Rightarrow> bool" where
  "sent_once trace call stmt arguments s outcome \<longleftrightarrow>
     (\<exists>endpoint. trace (snd outcome) = trace s @ [Statement endpoint call stmt arguments]) \<or>
     (trace (snd outcome) = trace s \<and> \<not> is_ok (fst outcome))"

locale pg_source_contract =
  fixes src :: "('s, 'row) pg_source"
    and trace :: "'s \<Rightarrow> event list"
  assumes fetch_all_once: "sent_once trace Fetch_All stmt arguments s (fetch_all src stmt arguments s)"
    and fetch_optional_once:
      "sent_once trace Fetch_Optional stmt arguments s (fetch_optional src stmt arguments s)"
    and fetch_one_once: "sent_once trace Fetch_One stmt arguments s (fetch_one src stmt arguments s)"
    and apply_once: "sent_once trace Execute stmt arguments s (apply_sql src stmt arguments s)"
    and apply_one_once: "sent_once trace Fetch_One stmt arguments s (apply_one src stmt arguments s)"
begin

lemmas source_once =
  fetch_all_once fetch_optional_once fetch_one_once apply_once apply_one_once

end

lemma sent_once_issue: "sent_once issued call stmt arguments w
    (issue (Statement endpoint call stmt arguments) run w)"
  by (auto simp: sent_once_def issue_eq)

interpretation pool: pg_source_contract "pool_source endpoint executor" issued
  for endpoint executor
  by unfold_locales (simp_all add: pool_source_def sent_once_issue)

end
