(* ===== verification/Sqlx_Error_Mapping.thy ===== *)
theory Sqlx_Error_Mapping
  imports Soap_Core "HOL-Library.Sublist"
begin

text \<open>
  \<open>src/postgres/error.rs\<close>: the classification of driver failures into the stable error model.
  The operation name is a static text of the adapter; the technical payload of the failure goes
  into the source of the error only.
\<close>

definition starts_with :: "string \<Rightarrow> string \<Rightarrow> bool" where
  "starts_with s p \<longleftrightarrow> prefix p s"

definition map_database_error :: "database_error \<Rightarrow> string \<Rightarrow> soap_error" where
  "map_database_error database operation =
     (let sqlstate = code database in
      if sqlstate = Some ''40001'' \<or> sqlstate = Some ''40P01'' then
        with_transience Transient (err_infrastructure
          (operation @ '' encountered a concurrent PostgreSQL transaction''))
      else if (case sqlstate of Some c \<Rightarrow> starts_with c ''08'' | None \<Rightarrow> False) then
        soap_error_new Unavailable (operation @ '' lost its PostgreSQL connection'')
      else
        (case db_kind database of
           Unique_Violation \<Rightarrow>
             soap_error_new Conflict (operation @ '' conflicts with an existing row'')
         | Exclusion_Violation \<Rightarrow>
             soap_error_new Conflict (operation @ '' conflicts with an existing row'')
         | Foreign_Key_Violation \<Rightarrow>
             soap_error_new Conflict (operation @ '' violates a relationship constraint'')
         | Not_Null_Violation \<Rightarrow>
             with_transience Permanent (err_infrastructure
               (operation @ '' violates the persisted schema''))
         | Check_Violation \<Rightarrow>
             with_transience Permanent (err_infrastructure
               (operation @ '' violates the persisted schema''))
         | _ \<Rightarrow>
             with_transience Permanent (err_infrastructure (operation @ '' failed in PostgreSQL''))))"

definition invalid_mapping :: "string \<Rightarrow> soap_error" where
  "invalid_mapping operation =
     with_transience Permanent
       (err_infrastructure (operation @ '' has an invalid PostgreSQL mapping''))"

definition map_sqlx_error :: "sqlx_error \<Rightarrow> string \<Rightarrow> soap_error" where
  "map_sqlx_error error operation =
     with_source (From_Sqlx error)
       (case error of
          Sqlx_Row_Not_Found \<Rightarrow> soap_error_new Not_Found (operation @ '' found no row'')
        | Sqlx_Pool_Timed_Out \<Rightarrow>
            soap_error_new Timeout (operation @ '' timed out acquiring a connection'')
        | Sqlx_Pool_Closed \<Rightarrow>
            soap_error_new Unavailable (operation @ '' cannot use a closed connection pool'')
        | Sqlx_Io _ \<Rightarrow> soap_error_new Unavailable (operation @ '' cannot reach PostgreSQL'')
        | Sqlx_Tls _ \<Rightarrow>
            with_transience Permanent
              (err_infrastructure (operation @ '' cannot establish PostgreSQL TLS''))
        | Sqlx_Database database \<Rightarrow> map_database_error database operation
        | Sqlx_Configuration _ \<Rightarrow> invalid_mapping operation
        | Sqlx_Protocol _ \<Rightarrow> invalid_mapping operation
        | Sqlx_Column_Decode _ \<Rightarrow> invalid_mapping operation
        | Sqlx_Column_Index_Out_Of_Bounds _ _ \<Rightarrow> invalid_mapping operation
        | Sqlx_Column_Not_Found _ \<Rightarrow> invalid_mapping operation
        | Sqlx_Decode _ \<Rightarrow> invalid_mapping operation
        | Sqlx_Encode _ \<Rightarrow> invalid_mapping operation
        | Sqlx_Invalid_Argument _ \<Rightarrow> invalid_mapping operation
        | Sqlx_Migrate _ \<Rightarrow> invalid_mapping operation
        | Sqlx_Type_Not_Found _ \<Rightarrow> invalid_mapping operation
        | _ \<Rightarrow> err_infrastructure (operation @ '' failed in SQLx''))"

text \<open>
  \<open>SoapError::transience()\<close> reads the transience that was set, or the default of the kind, which is
  the library's and a parameter.
\<close>

definition transience :: "(soap_error_kind \<Rightarrow> error_transience) \<Rightarrow> soap_error \<Rightarrow> error_transience" where
  "transience usual e = (case set_transience e of Some t \<Rightarrow> t | None \<Rightarrow> usual (kind e))"

section \<open>Lemmas\<close>

lemma source_map_sqlx_error [simp]: "source (map_sqlx_error e op) = Some (From_Sqlx e)"
  by (simp add: map_sqlx_error_def)

text \<open>The class of a failure: what the classification looks at.  Payload texts are not in it.\<close>

fun failure_class :: "sqlx_error \<Rightarrow> sqlx_error" where
  "failure_class (Sqlx_Io t) = Sqlx_Io ''''"
| "failure_class (Sqlx_Tls t) = Sqlx_Tls ''''"
| "failure_class (Sqlx_Database d) = Sqlx_Database (d\<lparr>db_message := ''''\<rparr>)"
| "failure_class (Sqlx_Configuration t) = Sqlx_Configuration ''''"
| "failure_class (Sqlx_Protocol t) = Sqlx_Protocol ''''"
| "failure_class (Sqlx_Column_Decode t) = Sqlx_Column_Decode ''''"
| "failure_class (Sqlx_Column_Index_Out_Of_Bounds i n) = Sqlx_Column_Index_Out_Of_Bounds 0 0"
| "failure_class (Sqlx_Column_Not_Found t) = Sqlx_Column_Not_Found ''''"
| "failure_class (Sqlx_Decode t) = Sqlx_Decode ''''"
| "failure_class (Sqlx_Encode t) = Sqlx_Encode ''''"
| "failure_class (Sqlx_Invalid_Argument t) = Sqlx_Invalid_Argument ''''"
| "failure_class (Sqlx_Migrate t) = Sqlx_Migrate ''''"
| "failure_class (Sqlx_Type_Not_Found t) = Sqlx_Type_Not_Found ''''"
| "failure_class (Sqlx_Other t) = Sqlx_Other ''''"
| "failure_class e = e"

lemma map_database_error_message:
  "map_database_error (d\<lparr>db_message := m\<rparr>) op = map_database_error d op"
  by (cases d) (simp add: map_database_error_def Let_def)

lemma map_sqlx_error_class:
  "map_sqlx_error e op = with_source (From_Sqlx e) (map_sqlx_error (failure_class e) op)"
  by (cases e) (simp_all add: map_sqlx_error_def map_database_error_message)

lemma message_map_sqlx_error: "\<exists>suffix. message (map_sqlx_error e op) = op @ suffix"
  by (cases e)
    (auto simp: map_sqlx_error_def map_database_error_def invalid_mapping_def soap_error_new_def
      Let_def split: db_error_kind.split)

section \<open>Properties\<close>

text \<open>
  C36: classification preserves the technical source and leaks nothing of it.  The mapped error
  always carries the driver failure itself as its source, and its kind, its transience and its
  message are the same for two failures that differ in their payload texts only.
\<close>

theorem error_mapping_preserves_source_without_leaking:
  "source (map_sqlx_error e operation) = Some (From_Sqlx e) \<and>
   (failure_class e = failure_class e' \<longrightarrow>
      kind (map_sqlx_error e operation) = kind (map_sqlx_error e' operation) \<and>
      set_transience (map_sqlx_error e operation) = set_transience (map_sqlx_error e' operation) \<and>
      message (map_sqlx_error e operation) = message (map_sqlx_error e' operation))"
  using map_sqlx_error_class [of e operation] map_sqlx_error_class [of e' operation] by simp

theorem error_mapping_preserves_source_without_leaking_witness:
  "message (map_sqlx_error (Sqlx_Io ''driver detail'') ''connect'') =
   message (map_sqlx_error (Sqlx_Io ''other'') ''connect'')"
  using error_mapping_preserves_source_without_leaking
    [of "Sqlx_Io ''driver detail''" "''connect''" "Sqlx_Io ''other''"] by simp

text \<open>
  C35: retry guidance.  Whatever default transience the error library gives to a kind, a mapped error
  is transient exactly in three cases: the SQLSTATE code is one of a serialization failure or a
  deadlock, which come back as infrastructure errors whatever kind the driver reports; or its kind is
  Not_Found, Timeout, Unavailable or Conflict and the default of that kind is transient; or the
  driver error is of no listed variant and the default of Infrastructure is transient.  So schema
  violations, invalid mappings, TLS failures and other database errors are never transient.  The
  error is a timeout exactly when the pool timed out, a conflict exactly for unique, exclusion and
  foreign-key violations that are neither of the codes above nor connection failures (class 08), and
  unavailable exactly for a closed pool, an input/output failure or class 08.
\<close>

theorem transient_and_conflict_classification:
  "(transience usual (map_sqlx_error e operation) = Transient \<longleftrightarrow>
      (\<exists>d. e = Sqlx_Database d \<and> code d \<in> {Some ''40001'', Some ''40P01''}) \<or>
      (kind (map_sqlx_error e operation) \<in> {Not_Found, Timeout, Unavailable, Conflict} \<and>
         usual (kind (map_sqlx_error e operation)) = Transient) \<or>
      (\<exists>t. e = Sqlx_Other t) \<and> usual Infrastructure = Transient) \<and>
   (kind (map_sqlx_error e operation) = Timeout \<longleftrightarrow> e = Sqlx_Pool_Timed_Out) \<and>
   (kind (map_sqlx_error e operation) = Conflict \<longleftrightarrow>
      (\<exists>d. e = Sqlx_Database d \<and> code d \<notin> {Some ''40001'', Some ''40P01''} \<and>
           (\<forall>c. code d = Some c \<longrightarrow> \<not> prefix ''08'' c) \<and>
           db_kind d \<in> {Unique_Violation, Exclusion_Violation, Foreign_Key_Violation})) \<and>
   (kind (map_sqlx_error e operation) = Unavailable \<longleftrightarrow>
      e = Sqlx_Pool_Closed \<or> (\<exists>t. e = Sqlx_Io t) \<or>
      (\<exists>d c. e = Sqlx_Database d \<and> code d = Some c \<and> prefix ''08'' c))"
proof (cases e)
  case (Sqlx_Database d)
  show ?thesis
    by (cases "db_kind d"; cases "code d")
      (auto simp: Sqlx_Database map_sqlx_error_def map_database_error_def starts_with_def
        soap_error_new_def transience_def Let_def)
qed (auto simp: map_sqlx_error_def invalid_mapping_def soap_error_new_def transience_def)

theorem transient_and_conflict_classification_witness:
  "transience (\<lambda>k. if k = Timeout then Transient else Permanent) (map_sqlx_error (Sqlx_Database
     \<lparr>code = Some ''40P01'', db_kind = Unique_Violation, db_message = ''m''\<rparr>) ''replace user'') = Transient \<and>
   transience (\<lambda>k. if k = Timeout then Transient else Permanent)
     (map_sqlx_error Sqlx_Pool_Timed_Out ''find users'') = Transient \<and>
   transience (\<lambda>k. if k = Timeout then Transient else Permanent)
     (map_sqlx_error (Sqlx_Io ''reset'') ''find users'') = Permanent"
proof -
  let ?usual = "\<lambda>k. if k = Timeout then Transient else Permanent"
  let ?deadlock = "\<lparr>code = Some ''40P01'', db_kind = Unique_Violation, db_message = ''m''\<rparr>"
  have "transience ?usual (map_sqlx_error (Sqlx_Database ?deadlock) ''replace user'') = Transient"
    using conjunct1 [OF transient_and_conflict_classification
      [of ?usual "Sqlx_Database ?deadlock" "''replace user''"]] by simp
  moreover have "kind (map_sqlx_error Sqlx_Pool_Timed_Out ''find users'') = Timeout"
    using transient_and_conflict_classification [of ?usual Sqlx_Pool_Timed_Out "''find users''"] by simp
  then have "transience ?usual (map_sqlx_error Sqlx_Pool_Timed_Out ''find users'') = Transient"
    using conjunct1 [OF transient_and_conflict_classification
      [of ?usual Sqlx_Pool_Timed_Out "''find users''"]] by simp
  moreover have "kind (map_sqlx_error (Sqlx_Io ''reset'') ''find users'') = Unavailable"
    using transient_and_conflict_classification [of ?usual "Sqlx_Io ''reset''" "''find users''"] by simp
  then have "transience ?usual (map_sqlx_error (Sqlx_Io ''reset'') ''find users'') \<noteq> Transient"
    using conjunct1 [OF transient_and_conflict_classification
      [of ?usual "Sqlx_Io ''reset''" "''find users''"]] by simp
  then have "transience ?usual (map_sqlx_error (Sqlx_Io ''reset'') ''find users'') = Permanent"
    by (cases "transience ?usual (map_sqlx_error (Sqlx_Io ''reset'') ''find users'')") simp_all
  ultimately show ?thesis by simp
qed

end
