(* ===== verification/Dispatch.thy ===== *)
theory Dispatch
  imports Source Sqlx_Error_Mapping
begin

text \<open>
  The shape every operation of \<open>src/postgres/repository.rs\<close> and \<open>src/postgres/native_query.rs\<close>
  has: a statement is prepared, an error returns early and nothing is sent; otherwise the source is
  awaited, a failure of the driver is mapped with the name of the operation, and the reply is
  handled.
\<close>

definition send ::
  "(string \<times> pg_arguments) soap_result
     \<Rightarrow> (string \<Rightarrow> pg_arguments \<Rightarrow> 's \<Rightarrow> ('a, sqlx_error) result \<times> 's)
     \<Rightarrow> string \<Rightarrow> ('a \<Rightarrow> 'b soap_result) \<Rightarrow> 's \<Rightarrow> 'b soap_result \<times> 's" where
  "send prepared call operation handle s =
     (case prepared of
        Err e \<Rightarrow> (Err e, s)
      | Ok (stmt, args) \<Rightarrow>
          (case call stmt args s of
             (reply, s') \<Rightarrow>
               (and_then (map_err (\<lambda>e. map_sqlx_error e operation) reply) handle, s')))"

lemma send_simps [simp]:
  "send (Err e) call operation handle s = (Err e, s)"
  "send (Ok (stmt, args)) call operation handle s =
     (and_then (map_err (\<lambda>e. map_sqlx_error e operation) (fst (call stmt args s))) handle,
      snd (call stmt args s))"
  by (simp_all add: send_def case_prod_beta)

text \<open>
  What such an operation promises of a source that keeps its contract: a statement that cannot be
  prepared is reported and nothing happens; a prepared one is sent exactly once, as prepared, or
  it is not sent and the operation fails.
\<close>

definition delivered ::
  "('s \<Rightarrow> event list) \<Rightarrow> driver_call \<Rightarrow> (string \<times> pg_arguments) soap_result \<Rightarrow> 's
     \<Rightarrow> 'b soap_result \<times> 's \<Rightarrow> bool" where
  "delivered trace c prepared s outcome \<longleftrightarrow>
     (case prepared of
        Err e \<Rightarrow> outcome = (Err e, s)
      | Ok (stmt, args) \<Rightarrow>
          (\<exists>endpoint. trace (snd outcome) = trace s @ [Statement endpoint c stmt args]) \<or>
          (trace (snd outcome) = trace s \<and> \<not> is_ok (fst outcome)))"

lemma delivered_send:
  assumes "\<And>stmt args s. sent_once trace c stmt args s (call stmt args s)"
  shows "delivered trace c prepared s (send prepared call operation handle s)"
proof (cases prepared)
  case (Ok p)
  obtain stmt args where p: "p = (stmt, args)" by fastforce
  from assms [of stmt args s] show ?thesis
    by (cases "fst (call stmt args s)") (auto simp: Ok p delivered_def sent_once_def)
qed (simp add: delivered_def)

context pg_source_contract
begin

lemmas source_delivers = source_once [THEN delivered_send]

end

text \<open>On a pool the source always answers, so the trace is a function of what was prepared.\<close>

lemma send_pool_trace:
  assumes "\<And>stmt args s. issued (snd (call stmt args s)) = issued s @ [Statement endpoint c stmt args]"
  shows "issued (snd (send prepared call operation handle w)) =
     issued w @ (case prepared of Err e \<Rightarrow> [] | Ok (stmt, args) \<Rightarrow> [Statement endpoint c stmt args])"
  using assms by (cases prepared) auto

end
