(* ===== verification/Repository.thy ===== *)
theory Repository
  imports Dispatch
begin

text \<open>
  \<open>src/postgres/repository.rs\<close>: the generic repository.  Each operation prepares one statement
  (text and arguments) from the codec and the compiler, sends it through the source, maps a
  failure of the driver, and decodes or interprets the reply.  The codec, the source and the
  reading of the count column of a row (\<open>get_count\<close>) are parameters.
\<close>

record ('s, 'e, 'id, 'row) pg_repository =
  repo_source :: "('s, 'row) pg_source"
  codec :: "('e, 'id, 'row) pg_entity_codec"
  compiler :: pg_field_map

definition repository_new ::
  "soaprs_api \<Rightarrow> ('s, 'row) pg_source \<Rightarrow> ('e, 'id, 'row) pg_entity_codec
     \<Rightarrow> ('s, 'e, 'id, 'row) pg_repository soap_result" where
  "repository_new api src cdc =
     and_then (mapping_validate api (mapping cdc)) (\<lambda>_.
       Ok \<lparr>repo_source = src, codec = cdc, compiler = field_map (mapping cdc)\<rparr>)"

definition from_pool ::
  "soaprs_api \<Rightarrow> nat \<Rightarrow> ('w, 'row) executor \<Rightarrow> ('e, 'id, 'row) pg_entity_codec
     \<Rightarrow> ('w world, 'e, 'id, 'row) pg_repository soap_result" where
  "from_pool api endpoint pool cdc = repository_new api (pool_source endpoint pool) cdc"

section \<open>Statement text\<close>

definition placeholder :: "nat \<Rightarrow> pg_scalar_kind \<Rightarrow> string" where
  "placeholder index k =
     (case placeholder_cast k of
        Some cast \<Rightarrow> ''$'' @ show_nat index @ ''::'' @ cast
      | None \<Rightarrow> ''$'' @ show_nat index)"

definition append_fragment :: "string \<Rightarrow> string \<Rightarrow> string" where
  "append_fragment stmt fragment =
     (if fragment \<noteq> '''' then stmt @ '' '' @ fragment else stmt)"

definition compiled_arguments :: "encoder \<Rightarrow> pg_bind_value list \<Rightarrow> pg_arguments soap_result" where
  "compiled_arguments enc bs = into_arguments enc (from_bindings bs)"

text \<open>The quoted column of a field, as every statement lists it.\<close>

definition column_text :: "soaprs_api \<Rightarrow> pg_entity_mapping \<Rightarrow> field_name \<Rightarrow> string soap_result" where
  "column_text api m field =
     map_ok (\<lambda>column. quoted (column_ident column)) (resolve api (field_map m) field)"

definition selected_columns ::
  "soaprs_api \<Rightarrow> ('s, 'e, 'id, 'row) pg_repository \<Rightarrow> string soap_result" where
  "selected_columns api r =
     (let m = mapping (codec r) in
      map_ok (join '', '') (try_map (column_text api m) (selectable_fields api m)))"

definition select_prefix ::
  "soaprs_api \<Rightarrow> ('s, 'e, 'id, 'row) pg_repository \<Rightarrow> string soap_result" where
  "select_prefix api r =
     and_then (selected_columns api r) (\<lambda>cols.
       Ok (''SELECT '' @ cols @ '' FROM '' @ table_quoted (table (mapping (codec r)))))"

definition entity_value ::
  "('s, 'e, 'id, 'row) pg_repository \<Rightarrow> 'e \<Rightarrow> field_name \<Rightarrow> pg_value soap_result" where
  "entity_value r e field =
     (if field = id_field (mapping (codec r)) then id_value (codec r) (entity_id (codec r) e)
      else encode_value (codec r) e field)"

definition null_identifier_text :: string where
  "null_identifier_text = ''PostgreSQL entity identifier cannot be null or default''"

definition compiled_id ::
  "soaprs_api \<Rightarrow> encoder \<Rightarrow> ('s, 'e, 'id, 'row) pg_repository \<Rightarrow> 'id
     \<Rightarrow> (string \<times> pg_arguments) soap_result" where
  "compiled_id api enc r i =
     (let m = mapping (codec r) in
      and_then (resolve api (field_map m) (id_field m)) (\<lambda>column.
      and_then (id_value (codec r) i) (\<lambda>v.
        if is_null_or_default v then Err (err_validation null_identifier_text)
        else
          and_then (normalize_entity_binding (scalar_kind column) v) (\<lambda>b.
            let stmt = quoted (column_ident column) @ '' = '' @ placeholder 1 (scalar_kind column) in
            and_then (compiled_arguments enc [b]) (\<lambda>args. Ok (stmt, args))))))"

text \<open>
  The body of the two closures that list values: the column, the value, and \<open>DEFAULT\<close> or the next
  placeholder with its binding pushed.
\<close>

definition value_cell ::
  "soaprs_api \<Rightarrow> ('s, 'e, 'id, 'row) pg_repository \<Rightarrow> 'e \<Rightarrow> pg_bind_value list \<Rightarrow> field_name
     \<Rightarrow> (pg_column \<times> string \<times> pg_bind_value list) soap_result" where
  "value_cell api r e bs field =
     and_then (resolve api (field_map (mapping (codec r))) field) (\<lambda>column.
     and_then (entity_value r e field) (\<lambda>v.
       if is_default v then Ok (column, ''DEFAULT'', bs)
       else
         and_then (normalize_entity_binding (scalar_kind column) v) (\<lambda>b.
           let bs' = bs @ [b] in
           Ok (column, placeholder (length bs') (scalar_kind column), bs'))))"

fun write_cells ::
  "soaprs_api \<Rightarrow> ('s, 'e, 'id, 'row) pg_repository \<Rightarrow> 'e \<Rightarrow> (pg_column \<Rightarrow> string \<Rightarrow> string)
     \<Rightarrow> pg_bind_value list \<Rightarrow> field_name list \<Rightarrow> (string list \<times> pg_bind_value list) soap_result"
where
  "write_cells api r e form bs [] = Ok ([], bs)"
| "write_cells api r e form bs (field # fs) =
     and_then (value_cell api r e bs field) (\<lambda>(column, expression, bs').
     and_then (write_cells api r e form bs' fs) (\<lambda>(cells, bs'').
       Ok (form column expression # cells, bs'')))"

definition add_returning ::
  "soaprs_api \<Rightarrow> ('s, 'e, 'id, 'row) pg_repository \<Rightarrow> bool \<Rightarrow> string \<Rightarrow> string soap_result" where
  "add_returning api r returning stmt =
     (if returning then
        and_then (selected_columns api r) (\<lambda>cols. Ok (stmt @ '' RETURNING '' @ cols))
      else Ok stmt)"

definition compile_insert ::
  "soaprs_api \<Rightarrow> encoder \<Rightarrow> ('s, 'e, 'id, 'row) pg_repository \<Rightarrow> 'e \<Rightarrow> bool
     \<Rightarrow> (string \<times> pg_arguments) soap_result" where
  "compile_insert api enc r e returning =
     (let m = mapping (codec r); fs = insertable_fields api m in
      and_then
        (if fs = [] then
           Ok (''INSERT INTO '' @ table_quoted (table m) @ '' DEFAULT VALUES'', [])
         else
           and_then (map_ok (join '', '') (try_map (column_text api m) fs)) (\<lambda>cols.
           and_then (write_cells api r e (\<lambda>column expression. expression) [] fs)
             (\<lambda>(cells, bs).
               Ok (''INSERT INTO '' @ table_quoted (table m) @ '' ('' @ cols @ '') VALUES ('' @
                   join '', '' cells @ '')'', bs))))
        (\<lambda>(stmt, bs).
          and_then (add_returning api r returning stmt) (\<lambda>stmt'.
          and_then (compiled_arguments enc bs) (\<lambda>args. Ok (stmt', args)))))"

definition replaced_fields ::
  "soaprs_api \<Rightarrow> ('s, 'e, 'id, 'row) pg_repository \<Rightarrow> field_name list" where
  "replaced_fields api r =
     (let m = mapping (codec r) in filter (\<lambda>f. f \<noteq> id_field m) (updatable_fields api m))"

definition compile_replace ::
  "soaprs_api \<Rightarrow> encoder \<Rightarrow> ('s, 'e, 'id, 'row) pg_repository \<Rightarrow> 'e \<Rightarrow> bool
     \<Rightarrow> (string \<times> pg_arguments) soap_result" where
  "compile_replace api enc r e returning =
     (let m = mapping (codec r); fs = replaced_fields api r in
      if fs = [] then
        Err (soap_error_new Unsupported
          ''PostgreSQL replacement requires an updatable non-identity field'')
      else
        and_then
          (write_cells api r e
            (\<lambda>column expression. quoted (column_ident column) @ '' = '' @ expression) [] fs)
          (\<lambda>(cells, bs).
        and_then (resolve api (field_map m) (id_field m)) (\<lambda>id_column.
        and_then (id_value (codec r) (entity_id (codec r) e)) (\<lambda>idv.
          if is_null_or_default idv then Err (err_validation null_identifier_text)
          else
            and_then (normalize_entity_binding (scalar_kind id_column) idv) (\<lambda>b.
              let bs' = bs @ [b];
                  stmt = ''UPDATE '' @ table_quoted (table m) @ '' SET '' @ join '', '' cells @
                    '' WHERE '' @ quoted (column_ident id_column) @ '' = '' @
                    placeholder (length bs') (scalar_kind id_column) in
              and_then (add_returning api r returning stmt) (\<lambda>stmt'.
              and_then (compiled_arguments enc bs') (\<lambda>args. Ok (stmt', args))))))))"

section \<open>The operations\<close>

text \<open>Every operation prepares its statement and sends it (\<open>send\<close>).\<close>

definition prepare_find ::
  "soaprs_api \<Rightarrow> encoder \<Rightarrow> ('s, 'e, 'id, 'row) pg_repository \<Rightarrow> find_params
     \<Rightarrow> (string \<times> pg_arguments) soap_result" where
  "prepare_find api enc r params =
     and_then (compile_find api (compiler r) params) (\<lambda>compiled.
     and_then (into_sqlx_parts enc compiled) (\<lambda>(fragment, args).
     and_then (select_prefix api r) (\<lambda>start. Ok (append_fragment start fragment, args))))"

definition repository_find ::
  "soaprs_api \<Rightarrow> encoder \<Rightarrow> ('s, 'e, 'id, 'row) pg_repository \<Rightarrow> find_params \<Rightarrow> 's
     \<Rightarrow> 'e list soap_result \<times> 's" where
  "repository_find api enc r params =
     send (prepare_find api enc r params) (fetch_all (repo_source r)) ''find entities''
       (\<lambda>rows. try_map (decode (codec r)) rows)"

definition prepare_get ::
  "soaprs_api \<Rightarrow> encoder \<Rightarrow> ('s, 'e, 'id, 'row) pg_repository \<Rightarrow> 'id
     \<Rightarrow> (string \<times> pg_arguments) soap_result" where
  "prepare_get api enc r i =
     and_then (compiled_id api enc r i) (\<lambda>(condition, args).
     and_then (select_prefix api r) (\<lambda>start. Ok (start @ '' WHERE '' @ condition, args)))"

definition repository_get ::
  "soaprs_api \<Rightarrow> encoder \<Rightarrow> ('s, 'e, 'id, 'row) pg_repository \<Rightarrow> 'id \<Rightarrow> 's
     \<Rightarrow> 'e option soap_result \<times> 's" where
  "repository_get api enc r i =
     send (prepare_get api enc r i) (fetch_optional (repo_source r)) ''get entity''
       (\<lambda>row. case row of None \<Rightarrow> Ok None | Some x \<Rightarrow> map_ok Some (decode (codec r) x))"

definition prepare_count ::
  "soaprs_api \<Rightarrow> encoder \<Rightarrow> ('s, 'e, 'id, 'row) pg_repository \<Rightarrow> find_params
     \<Rightarrow> (string \<times> pg_arguments) soap_result" where
  "prepare_count api enc r params =
     and_then (compile_count api (compiler r) params) (\<lambda>compiled.
     and_then (into_sqlx_parts enc compiled) (\<lambda>(fragment, args).
       Ok (append_fragment
             (''SELECT COUNT(*) AS count FROM '' @ table_quoted (table (mapping (codec r))))
             fragment, args)))"

text \<open>\<open>u64::try_from\<close> of an \<open>i64\<close>.\<close>

definition u64_try_from_i64 :: "64 word \<Rightarrow> 64 word option" where
  "u64_try_from_i64 n = (if sint n < 0 then None else Some n)"

definition count_of_row ::
  "('row \<Rightarrow> (64 word, sqlx_error) result) \<Rightarrow> 'row \<Rightarrow> 64 word soap_result" where
  "count_of_row get_count row =
     and_then (map_err (\<lambda>e. map_sqlx_error e ''decode entity count'') (get_count row)) (\<lambda>n.
       case u64_try_from_i64 n of
         Some u \<Rightarrow> Ok u
       | None \<Rightarrow> Err (err_infrastructure ''PostgreSQL returned a negative count''))"

definition repository_count ::
  "soaprs_api \<Rightarrow> encoder \<Rightarrow> ('row \<Rightarrow> (64 word, sqlx_error) result)
     \<Rightarrow> ('s, 'e, 'id, 'row) pg_repository \<Rightarrow> find_params \<Rightarrow> 's \<Rightarrow> 64 word soap_result \<times> 's" where
  "repository_count api enc get_count r params =
     send (prepare_count api enc r params) (fetch_one (repo_source r)) ''count entities''
       (count_of_row get_count)"

definition repository_insert ::
  "soaprs_api \<Rightarrow> encoder \<Rightarrow> ('s, 'e, 'id, 'row) pg_repository \<Rightarrow> 'e \<Rightarrow> 's
     \<Rightarrow> unit soap_result \<times> 's" where
  "repository_insert api enc r e =
     send (compile_insert api enc r e False) (apply_sql (repo_source r)) ''insert entity''
       (\<lambda>_. Ok ())"

definition repository_replace ::
  "soaprs_api \<Rightarrow> encoder \<Rightarrow> ('s, 'e, 'id, 'row) pg_repository \<Rightarrow> 'e \<Rightarrow> 's
     \<Rightarrow> unit soap_result \<times> 's" where
  "repository_replace api enc r e =
     send (compile_replace api enc r e False) (apply_sql (repo_source r)) ''replace entity''
       (\<lambda>reply. if rows_affected reply = 0
               then Err (soap_error_new Not_Found ''entity identifier'') else Ok ())"

definition prepare_remove ::
  "soaprs_api \<Rightarrow> encoder \<Rightarrow> ('s, 'e, 'id, 'row) pg_repository \<Rightarrow> 'id
     \<Rightarrow> (string \<times> pg_arguments) soap_result" where
  "prepare_remove api enc r i =
     and_then (compiled_id api enc r i) (\<lambda>(condition, args).
       Ok (''DELETE FROM '' @ table_quoted (table (mapping (codec r))) @ '' WHERE '' @ condition,
           args))"

definition repository_remove ::
  "soaprs_api \<Rightarrow> encoder \<Rightarrow> ('s, 'e, 'id, 'row) pg_repository \<Rightarrow> 'id \<Rightarrow> 's
     \<Rightarrow> bool soap_result \<times> 's" where
  "repository_remove api enc r i =
     send (prepare_remove api enc r i) (apply_sql (repo_source r)) ''remove entity''
       (\<lambda>reply. Ok (rows_affected reply > 0))"

definition repository_insert_returning ::
  "soaprs_api \<Rightarrow> encoder \<Rightarrow> ('s, 'e, 'id, 'row) pg_repository \<Rightarrow> 'e \<Rightarrow> 's
     \<Rightarrow> 'e soap_result \<times> 's" where
  "repository_insert_returning api enc r e =
     send (compile_insert api enc r e True) (apply_one (repo_source r))
       ''insert and return entity'' (decode (codec r))"

definition repository_replace_returning ::
  "soaprs_api \<Rightarrow> encoder \<Rightarrow> ('s, 'e, 'id, 'row) pg_repository \<Rightarrow> 'e \<Rightarrow> 's
     \<Rightarrow> 'e soap_result \<times> 's" where
  "repository_replace_returning api enc r e =
     send (compile_replace api enc r e True) (apply_one (repo_source r))
       ''replace and return entity'' (decode (codec r))"

end
