(* ===== verification/Compiler_Spec.thy ===== *)
theory Compiler_Spec
  imports Compiler
begin

text \<open>
  The abstract view of the compiler.  A condition is first planned: fields resolved, values
  bound, errors decided, giving a tree with no text in it.  A tree is then rendered at a given
  binding count.  The buffer-writing compiler of \<open>Compiler\<close> is shown to be exactly planning
  followed by rendering at the end of the buffer, for every input, errors included; what is
  proved of trees then holds of the compiler.
\<close>

section \<open>Trees\<close>

datatype where_tree =
  W_Group logical_operator "where_tree list"
| W_Null_Test pg_column bool \<comment> \<open>the flag: IS NULL\<close>
| W_False
| W_Set pg_column bool "pg_bind_value list" \<comment> \<open>the flag: IN\<close>
| W_Compare pg_column operator pg_bind_value

definition plan_set ::
  "soaprs_api \<Rightarrow> pg_column \<Rightarrow> bool \<Rightarrow> scalar_value option \<Rightarrow> where_tree soap_result" where
  "plan_set api c is_in value =
     (case value of
        Some (Scalar_List vs) \<Rightarrow>
          (if vs = [] then Ok (if is_in then W_False else W_Null_Test c False)
           else map_ok (W_Set c is_in) (try_map (normalize_binding api (scalar_kind c)) vs))
      | _ \<Rightarrow> Err (err_validation ''set operator requires a list value''))"

definition plan_comparison ::
  "soaprs_api \<Rightarrow> pg_column \<Rightarrow> operator \<Rightarrow> scalar_value option \<Rightarrow> where_tree soap_result" where
  "plan_comparison api c op value =
     (case value of
        None \<Rightarrow> Err (err_validation ''comparison operator requires a value'')
      | Some v \<Rightarrow> map_ok (W_Compare c op) (normalize_binding api (scalar_kind c) v))"

definition plan_predicate ::
  "soaprs_api \<Rightarrow> pg_column \<Rightarrow> operator \<Rightarrow> scalar_value option \<Rightarrow> where_tree soap_result" where
  "plan_predicate api c op value =
     (if op = Op_Like \<and> scalar_kind c \<noteq> Kind_Text then
        Err (err_validation ''LIKE requires a PostgreSQL text column'')
      else if op = Op_Is_Null then Ok (W_Null_Test c True)
      else if op = Op_Is_Not_Null then Ok (W_Null_Test c False)
      else if op = Op_In then plan_set api c True value
      else if op = Op_Not_In then plan_set api c False value
      else plan_comparison api c op value)"

fun plan :: "soaprs_api \<Rightarrow> pg_field_map \<Rightarrow> condition \<Rightarrow> where_tree soap_result" where
  "plan api m (Group op cs) = map_ok (W_Group op) (try_map (plan api m) cs)"
| "plan api m (Predicate f op v) = and_then (resolve api m f) (\<lambda>c. plan_predicate api c op v)"

fun binds :: "where_tree \<Rightarrow> pg_bind_value list" where
  "binds (W_Group op ts) = concat (map binds ts)"
| "binds (W_Null_Test c b) = []"
| "binds W_False = []"
| "binds (W_Set c b bs) = bs"
| "binds (W_Compare c op b) = [b]"

definition place :: "nat \<Rightarrow> pg_scalar_kind \<Rightarrow> string" where
  "place n k = ''$'' @ show_nat n @ cast_suffix (placeholder_cast k)"

fun render :: "nat \<Rightarrow> where_tree \<Rightarrow> string"
and render_list :: "nat \<Rightarrow> string \<Rightarrow> where_tree list \<Rightarrow> string" where
  "render n (W_Group op ts) = ''('' @ render_list n (separator op) ts @ '')''"
| "render n (W_Null_Test c b) =
     column_expression c @ (if b then '' IS NULL'' else '' IS NOT NULL'')"
| "render n W_False = ''FALSE''"
| "render n (W_Set c b bs) =
     column_expression c @ (if b then '' IN ('' else '' NOT IN ('') @
     join '', '' (map (\<lambda>i. place i (scalar_kind c)) [Suc n ..< Suc (n + length bs)]) @ '')''"
| "render n (W_Compare c op b) =
     column_expression c @ the (comparison_symbol op) @ place (Suc n) (scalar_kind c) @
     (if op = Op_Like then escape_clause else '''')"
| "render_list n sep [] = ''''"
| "render_list n sep (t # ts) =
     render n t @ (if ts = [] then '''' else sep @ render_list (n + length (binds t)) sep ts)"

definition emit :: "where_tree \<Rightarrow> compiler_output \<Rightarrow> compiler_output" where
  "emit t out =
     \<lparr>out_sql = out_sql out @ render (length (out_bindings out)) t,
      out_bindings = out_bindings out @ binds t\<rparr>"

section \<open>The compiler refines planning and rendering\<close>

lemma push_str_simps [simp]:
  "out_sql (push_str s out) = out_sql out @ s"
  "out_bindings (push_str s out) = out_bindings out"
  by (simp_all add: push_str_def)

lemma push_binding_simps [simp]:
  "out_bindings (push_binding b k out) = out_bindings out @ [b]"
  "out_sql (push_binding b (placeholder_cast kd) out) =
     out_sql out @ place (Suc (length (out_bindings out))) kd"
  by (simp_all add: push_binding_def place_def Let_def)

lemma output_eqI:
  "out_sql a = out_sql b \<Longrightarrow> out_bindings a = out_bindings b \<Longrightarrow> a = (b :: compiler_output)"
  by (cases a; cases b) simp

lemma emit_simps [simp]:
  "out_sql (emit t out) = out_sql out @ render (length (out_bindings out)) t"
  "out_bindings (emit t out) = out_bindings out @ binds t"
  by (simp_all add: emit_def)

text \<open>The loop of a set operator, from loop counter \<open>i\<close> on.\<close>

lemma write_set_values_eq:
  "write_set_values api k i vs out =
     map_ok (\<lambda>bs. \<lparr>out_sql = out_sql out @ (if i > 0 \<and> bs \<noteq> [] then '', '' else '''') @
                join '', '' (map (\<lambda>j. place j k)
                  [Suc (length (out_bindings out)) ..< Suc (length (out_bindings out) + length bs)]),
              out_bindings = out_bindings out @ bs\<rparr>)
       (try_map (normalize_binding api k) vs)"
proof (induction vs arbitrary: i out)
  case Nil
  then show ?case by simp
next
  case (Cons v vs)
  show ?case
  proof (cases "normalize_binding api k v")
    case (Err e)
    then show ?thesis by (simp add: Let_def)
  next
    case (Ok b)
    show ?thesis
    proof (cases "try_map (normalize_binding api k) vs")
      case Err': (Err e)
      with Ok show ?thesis by (simp add: Let_def Cons.IH)
    next
      case Ok': (Ok bs)
      have "[Suc (length (out_bindings out)) ..< Suc (length (out_bindings out) + Suc (length bs))] =
          Suc (length (out_bindings out)) #
          [Suc (Suc (length (out_bindings out))) ..<
             Suc (Suc (length (out_bindings out) + length bs))]"
        by (subst upt_conv_Cons) simp_all
      with Ok Ok' show ?thesis
        by (cases bs) (auto simp: Let_def Cons.IH join_Cons intro!: output_eqI)
    qed
  qed
qed

lemma write_set_eq:
  "write_set api c is_in value out = map_ok (\<lambda>t. emit t out) (plan_set api c is_in value)"
proof (cases "\<exists>vs. value = Some (Scalar_List vs) \<and> vs \<noteq> []")
  case True
  then obtain vs where v: "value = Some (Scalar_List vs)" "vs \<noteq> []" by blast
  show ?thesis
  proof (cases "try_map (normalize_binding api (scalar_kind c)) vs")
    case (Ok bs)
    with v show ?thesis
      by (auto simp: write_set_def plan_set_def write_set_values_eq intro!: output_eqI)
  next
    case (Err e)
    with v show ?thesis
      by (simp add: write_set_def plan_set_def write_set_values_eq)
  qed
next
  case False
  then show ?thesis
    by (auto simp: write_set_def plan_set_def intro!: output_eqI
        split: option.splits scalar_value.splits)
qed

definition is_comparison :: "operator \<Rightarrow> bool" where
  "is_comparison op \<longleftrightarrow> op \<notin> {Op_Is_Null, Op_Is_Not_Null, Op_In, Op_Not_In}"

lemma comparison_symbol_Some: "is_comparison op \<Longrightarrow> \<exists>s. comparison_symbol op = Some s"
  by (cases op) (auto simp: is_comparison_def comparison_symbol_def)

lemma write_comparison_eq:
  assumes "is_comparison op"
  shows "write_comparison api c op value out = map_ok (\<lambda>t. emit t out) (plan_comparison api c op value)"
proof -
  from comparison_symbol_Some [OF assms] obtain s where "comparison_symbol op = Some s" by blast
  then show ?thesis
    by (cases "value"; cases "normalize_binding api (scalar_kind c) (the value)")
      (auto simp: write_comparison_def plan_comparison_def Let_def intro!: output_eqI)
qed

lemma write_predicate_eq:
  "write_predicate api c op value out = map_ok (\<lambda>t. emit t out) (plan_predicate api c op value)"
  by (cases op)
    (auto simp: write_predicate_def plan_predicate_def write_set_eq write_comparison_eq
      is_comparison_def intro!: output_eqI)

lemma write_condition_eq:
  "write_condition api m c out = map_ok (\<lambda>t. emit t out) (plan api m c)"
and write_group_eq:
  "write_group api m sep i cs out =
     map_ok (\<lambda>ts. \<lparr>out_sql = out_sql out @ (if i > 0 \<and> ts \<noteq> [] then sep else '''') @
                 render_list (length (out_bindings out)) sep ts,
               out_bindings = out_bindings out @ concat (map binds ts)\<rparr>)
       (try_map (plan api m) cs)"
proof (induction api m c out and api m sep i cs out rule: write_condition_write_group.induct)
  case (1 api m op conditions out)
  then show ?case
    by (cases "try_map (plan api m) conditions") (auto intro!: output_eqI)
next
  case (2 api m field op v out)
  then show ?case
    by (cases "resolve api m field") (simp_all add: write_predicate_eq)
next
  case (3 api m sep index out)
  then show ?case by simp
next
  case (4 api m sep index c cs out)
  show ?case
  proof (cases "plan api m c")
    case (Err e)
    with 4 show ?thesis by simp
  next
    case (Ok t)
    then have "write_condition api m c (if index > 0 then push_str sep out else out) =
        Ok (emit t (if index > 0 then push_str sep out else out))"
      using 4(1) by simp
    with 4(2) [OF this] Ok show ?thesis
      by (cases "try_map (plan api m) cs") (auto intro!: output_eqI)
  qed
qed

end
