(* ===== verification/Sql_Tokens.thy ===== *)
theory Sql_Tokens
  imports Identifier
begin

text \<open>
  A reference tokenizer for the SQL the crate emits, after the lexical rules of PostgreSQL:
  quoted identifiers and string literals (a doubled quote stands for the quote), words, numbers,
  positional parameters, the cast symbol, punctuation and operators.  Comments and every other
  character are refused.  It is written without looking at the compiler: statements about the
  emitted text (which parameters, which identifiers, which literals) are statements about its
  tokens.
\<close>

datatype token =
  T_Ident string   \<comment> \<open>a double-quoted identifier\<close>
| T_Literal string \<comment> \<open>a single-quoted string\<close>
| T_Word string
| T_Number string
| T_Param nat
| T_Cast
| T_Open | T_Close | T_Comma | T_Dot
| T_Op string

definition is_op_char :: "char \<Rightarrow> bool" where
  "is_op_char c \<longleftrightarrow> c \<in> set ''+-*/<>=~!@#%^&|?''"

definition is_word_char :: "char \<Rightarrow> bool" where
  "is_word_char c \<longleftrightarrow> ident_continue c \<or> c = CHR ''$''"

fun lex_quoted :: "char \<Rightarrow> string \<Rightarrow> (string \<times> string) option" where
  "lex_quoted q [] = None"
| "lex_quoted q (c # s) =
     (if c = q then
        (case s of
           d # s' \<Rightarrow> if d = q then map_option (apfst (Cons q)) (lex_quoted q s') else Some ([], s)
         | [] \<Rightarrow> Some ([], []))
      else map_option (apfst (Cons c)) (lex_quoted q s))"

definition lex_operator :: "string \<Rightarrow> (token \<times> string) option" where
  "lex_operator s =
     (let op = takeWhile is_op_char s in
      if take 2 op = ''--'' \<or> take 2 op = ''/*'' then None
      else Some (T_Op op, dropWhile is_op_char s))"

fun next_token :: "string \<Rightarrow> (token \<times> string) option" where
  "next_token [] = None"
| "next_token (c # s) =
     (if c = dquote then map_option (apfst T_Ident) (lex_quoted dquote s)
      else if c = squote then map_option (apfst T_Literal) (lex_quoted squote s)
      else if c = CHR ''$'' then
        map_option (\<lambda>n. (T_Param n, dropWhile is_digit s)) (read_nat (takeWhile is_digit s))
      else if ident_start c then
        Some (T_Word (c # takeWhile is_word_char s), dropWhile is_word_char s)
      else if is_digit c then
        Some (T_Number (c # takeWhile is_digit s), dropWhile is_digit s)
      else if c = CHR ''('' then Some (T_Open, s)
      else if c = CHR '')'' then Some (T_Close, s)
      else if c = CHR '','' then Some (T_Comma, s)
      else if c = CHR ''.'' then Some (T_Dot, s)
      else if c = CHR '':'' then
        (case s of d # s' \<Rightarrow> if d = CHR '':'' then Some (T_Cast, s') else None | [] \<Rightarrow> None)
      else if is_op_char c then lex_operator (c # s)
      else None)"

function tokenize :: "string \<Rightarrow> token list option" where
  "tokenize s =
     (case dropWhile (\<lambda>c. c = CHR '' '') s of
        [] \<Rightarrow> Some []
      | c # s' \<Rightarrow>
          (case next_token (c # s') of
             None \<Rightarrow> None
           | Some (t, rest) \<Rightarrow>
               if length rest \<le> length s' then map_option (Cons t) (tokenize rest) else None))"
  by pat_completeness auto
termination
proof (relation "measure length")
  fix s s' rest :: string and c x t
  assume "dropWhile (\<lambda>c. c = CHR '' '') s = c # s'" and "length rest \<le> length s'"
  then show "(rest, s) \<in> measure length"
    using length_dropWhile_le [of "\<lambda>c. c = CHR '' ''" s] by simp
qed simp

declare tokenize.simps [simp del]

definition prepend :: "token list \<Rightarrow> token list option \<Rightarrow> token list option" where
  "prepend ts r = map_option ((@) ts) r"

lemma prepend_simps [simp]:
  "prepend [] r = r"
  "prepend ts (prepend us r) = prepend (ts @ us) r"
  "prepend ts (Some us) = Some (ts @ us)"
  "prepend ts None = None"
  by (cases r; simp add: prepend_def)+

lemma prepend_one: "map_option (Cons t) r = prepend [t] r"
  by (cases r) (simp_all add: prepend_def)

section \<open>Reading a piece of text\<close>

text \<open>Every emitted piece is followed by one of these characters, or ends the text.\<close>

definition boundary :: "string \<Rightarrow> bool" where
  "boundary s \<longleftrightarrow> (case s of [] \<Rightarrow> True | c # _ \<Rightarrow> c \<in> {CHR '' '', CHR ''('', CHR '')'', CHR '',''})"

definition reads :: "string \<Rightarrow> token list \<Rightarrow> bool" where
  "reads s ts \<longleftrightarrow> (\<forall>rest. boundary rest \<longrightarrow> tokenize (s @ rest) = prepend ts (tokenize rest))"

definition reads_any :: "string \<Rightarrow> token list \<Rightarrow> bool" where
  "reads_any s ts \<longleftrightarrow> (\<forall>rest. tokenize (s @ rest) = prepend ts (tokenize rest))"

lemma lex_Nil [simp]: "tokenize [] = Some []"
  by (simp add: tokenize.simps)

lemma lex_space [simp]: "tokenize (CHR '' '' # s) = tokenize s"
  by (simp add: tokenize.simps [of s] tokenize.simps [of "CHR '' '' # s"])

lemma lex_Cons:
  "c \<noteq> CHR '' '' \<Longrightarrow>
     tokenize (c # s) =
       (case next_token (c # s) of
          None \<Rightarrow> None
        | Some (t, rest) \<Rightarrow>
            if length rest \<le> length s then prepend [t] (tokenize rest) else None)"
  by (simp add: tokenize.simps [of "c # s"] prepend_one del: next_token.simps split: option.split prod.split)

lemma lex_next:
  "c \<noteq> CHR '' '' \<Longrightarrow> next_token (c # s) = Some (t, rest) \<Longrightarrow> length rest \<le> length s \<Longrightarrow>
     tokenize (c # s) = prepend [t] (tokenize rest)"
  by (simp add: lex_Cons)

lemma reads_any_reads: "reads_any s ts \<Longrightarrow> reads s ts"
  by (simp add: reads_any_def reads_def)

lemma reads_any_append: "reads_any a x \<Longrightarrow> reads b y \<Longrightarrow> reads (a @ b) (x @ y)"
  by (simp add: reads_any_def reads_def)

lemma boundary_append [simp]: "b \<noteq> [] \<Longrightarrow> boundary (b @ rest) \<longleftrightarrow> boundary b"
  by (cases b) (auto simp: boundary_def)

lemma reads_append:
  "reads a x \<Longrightarrow> reads b y \<Longrightarrow> boundary b \<Longrightarrow> b \<noteq> [] \<Longrightarrow> reads (a @ b) (x @ y)"
  by (simp add: reads_def)

lemma reads_append_any:
  "reads a x \<Longrightarrow> reads_any b y \<Longrightarrow> boundary b \<Longrightarrow> b \<noteq> [] \<Longrightarrow> reads_any (a @ b) (x @ y)"
  by (simp add: reads_def reads_any_def)

lemma reads_Nil [simp]: "reads [] []"
  by (simp add: reads_def)

lemma reads_lex: "reads s ts \<Longrightarrow> tokenize s = Some ts"
  by (auto simp: reads_def boundary_def dest: spec [of _ "[]"])

section \<open>Single tokens\<close>

lemma takeWhile_append_stop:
  "list_all P xs \<Longrightarrow> (case ys of [] \<Rightarrow> True | c # _ \<Rightarrow> \<not> P c) \<Longrightarrow>
     takeWhile P (xs @ ys) = xs \<and> dropWhile P (xs @ ys) = ys"
  by (induction xs) (auto split: list.splits)

lemma lex_quoted_plain:
  "list_all (\<lambda>c. c \<noteq> q) s \<Longrightarrow> (case rest of [] \<Rightarrow> True | c # _ \<Rightarrow> c \<noteq> q) \<Longrightarrow>
     lex_quoted q (s @ q # rest) = Some (s, rest)"
  by (induction s) (auto split: list.splits)

lemma ident_chars_plain: "ident_ok i \<Longrightarrow> list_all (\<lambda>c. c \<noteq> dquote) (ident_str i)"
  using ident_ok_chars ident_continue_not_special by (auto simp: list_all_iff)

text \<open>A quoted identifier is read back, whatever follows it but another quote.\<close>

lemma lex_quoted_ident:
  assumes "ident_ok i" and "case rest of [] \<Rightarrow> True | c # _ \<Rightarrow> c \<noteq> dquote"
  shows "tokenize (quoted i @ rest) = prepend [T_Ident (ident_str i)] (tokenize rest)"
proof -
  have "next_token (dquote # ident_str i @ dquote # rest) = Some (T_Ident (ident_str i), rest)"
    using lex_quoted_plain [OF ident_chars_plain [OF assms(1)] assms(2)] by simp
  then show ?thesis
    by (simp add: quoted_def lex_next)
qed

lemma boundary_no_dquote: "boundary rest \<Longrightarrow> case rest of [] \<Rightarrow> True | c # _ \<Rightarrow> c \<noteq> dquote"
  by (auto simp: boundary_def split: list.splits)

lemma boundary_no_digit: "boundary rest \<Longrightarrow> case rest of [] \<Rightarrow> True | c # _ \<Rightarrow> \<not> is_digit c"
  by (auto simp: boundary_def is_digit_def split: list.splits)

lemma boundary_no_word: "boundary rest \<Longrightarrow> case rest of [] \<Rightarrow> True | c # _ \<Rightarrow> \<not> is_word_char c"
  by (auto simp: boundary_def is_word_char_def ident_continue_def is_ascii_alphanumeric_def
      is_ascii_alphabetic_def is_digit_def split: list.splits)

lemma reads_quoted: "ident_ok i \<Longrightarrow> reads (quoted i) [T_Ident (ident_str i)]"
  using lex_quoted_ident boundary_no_dquote by (auto simp: reads_def)

lemma lex_param:
  assumes "case rest of [] \<Rightarrow> True | c # _ \<Rightarrow> \<not> is_digit c"
  shows "tokenize (''$'' @ show_nat n @ rest) = prepend [T_Param n] (tokenize rest)"
proof -
  have "list_all is_digit (show_nat n)"
    using show_nat_digits by (simp add: list_all_iff)
  from takeWhile_append_stop [OF this assms]
  have "next_token (CHR ''$'' # show_nat n @ rest) = Some (T_Param n, rest)" by simp
  then show ?thesis by (simp add: lex_next)
qed

lemma reads_word:
  assumes "ident_start c" and "list_all is_word_char s"
  shows "reads (c # s) [T_Word (c # s)]"
proof -
  have c: "c \<noteq> CHR '' ''" "c \<noteq> dquote" "c \<noteq> squote" "c \<noteq> CHR ''$''"
    using assms(1) by (auto simp: ident_start_def is_ascii_alphabetic_def)
  have "tokenize ((c # s) @ rest) = prepend [T_Word (c # s)] (tokenize rest)" if "boundary rest" for rest
    using takeWhile_append_stop [OF assms(2) boundary_no_word [OF that]] c assms(1)
    by (simp add: lex_next)
  then show ?thesis by (simp add: reads_def)
qed

text \<open>The character classes on concrete characters.\<close>

lemmas char_class_defs = ident_start_def ident_continue_def is_ascii_alphanumeric_def
  is_ascii_alphabetic_def is_digit_def is_word_char_def is_op_char_def

lemma lex_cast: "tokenize (''::'' @ s) = prepend [T_Cast] (tokenize s)"
  by (simp add: lex_Cons char_class_defs)

lemma lex_open [simp]: "tokenize (CHR ''('' # s) = prepend [T_Open] (tokenize s)"
  by (simp add: lex_Cons char_class_defs)

lemma lex_close [simp]: "tokenize (CHR '')'' # s) = prepend [T_Close] (tokenize s)"
  by (simp add: lex_Cons char_class_defs)

lemma lex_comma [simp]: "tokenize (CHR '','' # s) = prepend [T_Comma] (tokenize s)"
  by (simp add: lex_Cons char_class_defs)

lemma lex_dot [simp]: "tokenize (CHR ''.'' # s) = prepend [T_Dot] (tokenize s)"
  by (simp add: lex_Cons char_class_defs)

end
