(* ===== verification/Compiler_Tokens.thy ===== *)
theory Compiler_Tokens
  imports Compiler_Spec Sql_Tokens
begin

text \<open>
  What the tokenizer reads in the text the compiler emits: every rendered tree is read back as
  the token sequence computed from the tree.  Consequences: the parameters are numbered in order
  from the binding count on, every quoted identifier is a mapped column or the collation name,
  and the only literal is the empty escape string.
\<close>

fun commas :: "token list list \<Rightarrow> token list" where
  "commas [] = []"
| "commas [ts] = ts"
| "commas (ts # us # uss) = ts @ T_Comma # commas (us # uss)"

definition cast_tokens :: "pg_scalar_kind \<Rightarrow> token list" where
  "cast_tokens k = (case placeholder_cast k of Some w \<Rightarrow> [T_Cast, T_Word w] | None \<Rightarrow> [])"

definition column_tokens :: "pg_column \<Rightarrow> token list" where
  "column_tokens c =
     T_Ident (ident_str (column_ident c)) #
     (if scalar_kind c = Kind_Numeric then [T_Cast, T_Word ''numeric'']
      else if scalar_kind c = Kind_Text then [T_Word ''COLLATE'', T_Ident ''C'']
      else [])"

definition place_tokens :: "nat \<Rightarrow> pg_scalar_kind \<Rightarrow> token list" where
  "place_tokens n k = T_Param n # cast_tokens k"

definition comparison_token :: "operator \<Rightarrow> token" where
  "comparison_token op =
     (case op of
        Op_Eq \<Rightarrow> T_Op ''='' | Op_Ne \<Rightarrow> T_Op ''<>'' | Op_Gt \<Rightarrow> T_Op ''>''
      | Op_Gte \<Rightarrow> T_Op ''>='' | Op_Lt \<Rightarrow> T_Op ''<'' | Op_Lte \<Rightarrow> T_Op ''<=''
      | _ \<Rightarrow> T_Word ''LIKE'')"

definition separator_token :: "logical_operator \<Rightarrow> token" where
  "separator_token op = (case op of And \<Rightarrow> T_Word ''AND'' | Or \<Rightarrow> T_Word ''OR'')"

fun tree_tokens :: "nat \<Rightarrow> where_tree \<Rightarrow> token list"
and list_tokens :: "nat \<Rightarrow> token \<Rightarrow> where_tree list \<Rightarrow> token list" where
  "tree_tokens n (W_Group op ts) = T_Open # list_tokens n (separator_token op) ts @ [T_Close]"
| "tree_tokens n (W_Null_Test c b) =
     column_tokens c @ T_Word ''IS'' # (if b then [] else [T_Word ''NOT'']) @ [T_Word ''NULL'']"
| "tree_tokens n W_False = [T_Word ''FALSE'']"
| "tree_tokens n (W_Set c b bs) =
     column_tokens c @ (if b then [] else [T_Word ''NOT'']) @ T_Word ''IN'' # T_Open #
     commas (map (\<lambda>i. place_tokens i (scalar_kind c)) [Suc n ..< Suc (n + length bs)]) @ [T_Close]"
| "tree_tokens n (W_Compare c op b) =
     column_tokens c @ comparison_token op # place_tokens (Suc n) (scalar_kind c) @
     (if op = Op_Like then [T_Word ''ESCAPE'', T_Literal ''''] else [])"
| "list_tokens n sep [] = []"
| "list_tokens n sep (t # ts) =
     tree_tokens n t @
     (if ts = [] then [] else sep # list_tokens (n + length (binds t)) sep ts)"

section \<open>Fixed text\<close>

text \<open>Keywords between spaces are read whatever follows.\<close>

lemma reads_keywords:
  "reads_any '' AND '' [T_Word ''AND'']"
  "reads_any '' OR '' [T_Word ''OR'']"
  "reads_any '' = '' [T_Op ''='']"
  "reads_any '' <> '' [T_Op ''<>'']"
  "reads_any '' > '' [T_Op ''>'']"
  "reads_any '' >= '' [T_Op ''>='']"
  "reads_any '' < '' [T_Op ''<'']"
  "reads_any '' <= '' [T_Op ''<='']"
  "reads_any '' LIKE '' [T_Word ''LIKE'']"
  "reads_any '' COLLATE '' [T_Word ''COLLATE'']"
  "reads_any '' IN ('' [T_Word ''IN'', T_Open]"
  "reads_any '' NOT IN ('' [T_Word ''NOT'', T_Word ''IN'', T_Open]"
  "reads_any '', '' [T_Comma]"
  "reads_any ''('' [T_Open]"
  "reads_any '')'' [T_Close]"
  by (simp_all add: reads_any_def lex_Cons lex_operator_def char_class_defs)

text \<open>Keywords at the end of a piece, before a boundary.\<close>

lemma reads_end_word:
  "reads s ts \<Longrightarrow> boundary w \<Longrightarrow> w \<noteq> [] \<Longrightarrow> reads w us \<Longrightarrow> reads (s @ w) (ts @ us)"
  by (rule reads_append)

lemma reads_space: "reads s ts \<Longrightarrow> reads (CHR '' '' # s) ts"
  by (simp add: reads_def)

lemma reads_last_words:
  "reads '' IS NULL'' [T_Word ''IS'', T_Word ''NULL'']"
  "reads '' IS NOT NULL'' [T_Word ''IS'', T_Word ''NOT'', T_Word ''NULL'']"
  "reads ''FALSE'' [T_Word ''FALSE'']"
proof -
  have null: "reads ''NULL'' [T_Word ''NULL'']"
    and false: "reads ''FALSE'' [T_Word ''FALSE'']"
    by (rule reads_word; simp add: char_class_defs)+
  have "reads_any '' IS '' [T_Word ''IS'']" "reads_any '' IS NOT '' [T_Word ''IS'', T_Word ''NOT'']"
    by (simp_all add: reads_any_def lex_Cons char_class_defs)
  from this(1) [THEN reads_any_append, OF null] this(2) [THEN reads_any_append, OF null] false
  show "reads '' IS NULL'' [T_Word ''IS'', T_Word ''NULL'']"
    "reads '' IS NOT NULL'' [T_Word ''IS'', T_Word ''NOT'', T_Word ''NULL'']"
    "reads ''FALSE'' [T_Word ''FALSE'']" by simp_all
qed

lemma reads_escape: "reads escape_clause [T_Word ''ESCAPE'', T_Literal '''']"
proof -
  have "tokenize (squote # squote # rest) = prepend [T_Literal ''''] (tokenize rest)"
    if "boundary rest" for rest
    using that by (auto simp: lex_Cons boundary_def split: list.splits)
  then have "reads [squote, squote] [T_Literal '''']" by (simp add: reads_def)
  moreover have "reads_any '' ESCAPE '' [T_Word ''ESCAPE'']"
    by (simp add: reads_any_def lex_Cons char_class_defs)
  ultimately show ?thesis
    unfolding escape_clause_def using reads_any_append by fastforce
qed

section \<open>Columns and placeholders\<close>

lemma reads_column:
  assumes "ident_ok (column_ident c)"
  shows "reads (column_expression c) (column_tokens c)"
proof -
  let ?i = "column_ident c"
  have plain: "reads (quoted ?i) [T_Ident (ident_str ?i)]"
    by (rule reads_quoted [OF assms])
  have "ident_ok (Pg_Identifier ''C'')"
    by (simp add: ident_ok_def char_class_defs)
  from reads_any_append [OF reads_keywords(10) reads_quoted [OF this]]
  have collate: "reads ('' COLLATE '' @ [dquote] @ ''C'' @ [dquote]) [T_Word ''COLLATE'', T_Ident ''C'']"
    by (simp add: quoted_def)
  have collated: "reads (quoted ?i @ '' COLLATE '' @ [dquote] @ ''C'' @ [dquote])
      ([T_Ident (ident_str ?i)] @ [T_Word ''COLLATE'', T_Ident ''C''])"
    by (rule reads_append [OF plain collate]) (simp_all add: boundary_def)
  have "reads ''numeric'' [T_Word ''numeric'']"
    by (rule reads_word) (simp_all add: char_class_defs)
  then have numeric: "reads (quoted ?i @ ''::numeric'') [T_Ident (ident_str ?i), T_Cast, T_Word ''numeric'']"
    using lex_quoted_ident [OF assms] lex_cast by (simp add: reads_def)
  from plain collated numeric show ?thesis
    by (cases "scalar_kind c") (simp_all add: column_expression_def column_tokens_def)
qed

lemma reads_cast_word: "placeholder_cast k = Some w \<Longrightarrow> reads w [T_Word w]"
  by (cases k) (auto simp: placeholder_cast_def char_class_defs intro!: reads_word)

lemma reads_place: "reads (place n k) (place_tokens n k)"
proof (cases "placeholder_cast k")
  case None
  then show ?thesis
    using lex_param boundary_no_digit
    by (auto simp: reads_def place_def cast_suffix_def place_tokens_def cast_tokens_def)
next
  case (Some w)
  have "tokenize (''$'' @ show_nat n @ ''::'' @ w @ rest) =
      prepend [T_Param n, T_Cast, T_Word w] (tokenize rest)" if "boundary rest" for rest
    using reads_cast_word [OF Some] that lex_cast [of "w @ rest"]
    by (subst lex_param) (simp_all add: is_digit_def reads_def)
  with Some show ?thesis
    by (simp add: reads_def place_def cast_suffix_def place_tokens_def cast_tokens_def)
qed

text \<open>Items separated by commas.\<close>

lemma reads_joined:
  "list_all2 reads ss tss \<Longrightarrow> reads (join '', '' ss) (commas tss)"
proof (induction ss arbitrary: tss rule: induct_list012)
  case (2 s)
  then show ?case by (auto simp: list_all2_Cons1)
next
  case (3 s s' ss)
  from 3(3) obtain t t' tss' where tss: "tss = t # t' # tss'" "reads s t"
    "list_all2 reads (s' # ss) (t' # tss')"
    by (auto simp: list_all2_Cons1)
  from reads_any_append [OF reads_keywords(13) 3(2) [OF tss(3)]]
  have "reads ('', '' @ join '', '' (s' # ss)) ([T_Comma] @ commas (t' # tss'))" .
  from reads_append [OF tss(2) this] show ?case
    by (simp add: tss(1) boundary_def)
qed simp

lemma reads_joined_map:
  "(\<And>x. x \<in> set xs \<Longrightarrow> reads (f x) (g x)) \<Longrightarrow>
     reads (join '', '' (map f xs)) (commas (map g xs))"
  by (rule reads_joined) (simp add: list_all2_conv_all_nth)

lemma reads_places: "reads (join '', '' (map (\<lambda>i. place i k) ns)) (commas (map (\<lambda>i. place_tokens i k) ns))"
  by (rule reads_joined_map) (rule reads_place)

section \<open>Trees\<close>

text \<open>The columns of a tree carry valid identifiers, its comparisons are comparisons.\<close>

fun tree_ok :: "where_tree \<Rightarrow> bool" where
  "tree_ok (W_Group op ts) = list_all tree_ok ts"
| "tree_ok (W_Null_Test c b) = ident_ok (column_ident c)"
| "tree_ok W_False = True"
| "tree_ok (W_Set c b bs) = ident_ok (column_ident c)"
| "tree_ok (W_Compare c op b) = (ident_ok (column_ident c) \<and> is_comparison op)"

fun tree_columns :: "where_tree \<Rightarrow> pg_column set" where
  "tree_columns (W_Group op ts) = (\<Union>t \<in> set ts. tree_columns t)"
| "tree_columns (W_Null_Test c b) = {c}"
| "tree_columns W_False = {}"
| "tree_columns (W_Set c b bs) = {c}"
| "tree_columns (W_Compare c op b) = {c}"

lemma reads_null_test:
  assumes "ident_ok (column_ident c)"
  shows "reads (column_expression c @ (if b then '' IS NULL'' else '' IS NOT NULL''))
     (column_tokens c @ T_Word ''IS'' # (if b then [] else [T_Word ''NOT'']) @ [T_Word ''NULL''])"
proof -
  have "reads (if b then '' IS NULL'' else '' IS NOT NULL'')
      (T_Word ''IS'' # (if b then [] else [T_Word ''NOT'']) @ [T_Word ''NULL''])"
    by (simp add: reads_last_words)
  from reads_append [OF reads_column [OF assms] this] show ?thesis
    by (simp add: boundary_def)
qed

lemma reads_set:
  assumes "ident_ok (column_ident c)"
  shows "reads (column_expression c @ (if b then '' IN ('' else '' NOT IN ('') @
       join '', '' (map (\<lambda>i. place i (scalar_kind c)) ns) @ '')'')
     (column_tokens c @ (if b then [] else [T_Word ''NOT'']) @ T_Word ''IN'' # T_Open #
       commas (map (\<lambda>i. place_tokens i (scalar_kind c)) ns) @ [T_Close])"
proof -
  let ?w = "if b then '' IN ('' else '' NOT IN (''"
  let ?ps = "join '', '' (map (\<lambda>i. place i (scalar_kind c)) ns)"
  have w: "reads_any ?w ((if b then [] else [T_Word ''NOT'']) @ [T_Word ''IN'', T_Open])"
    by (simp add: reads_keywords)
  have "reads (?ps @ '')'') (commas (map (\<lambda>i. place_tokens i (scalar_kind c)) ns) @ [T_Close])"
    by (rule reads_append [OF reads_places reads_any_reads [OF reads_keywords(15)]])
      (simp_all add: boundary_def)
  from reads_append [OF reads_column [OF assms] reads_any_append [OF w this]] show ?thesis
    by (simp add: boundary_def)
qed

lemma reads_comparison_symbol:
  "is_comparison op \<Longrightarrow> reads_any (the (comparison_symbol op)) [comparison_token op]"
  by (cases op)
    (simp_all add: is_comparison_def comparison_symbol_def comparison_token_def reads_keywords)

lemma boundary_comparison_symbol:
  "is_comparison op \<Longrightarrow> boundary (the (comparison_symbol op)) \<and> the (comparison_symbol op) \<noteq> []"
  by (cases op) (simp_all add: is_comparison_def comparison_symbol_def boundary_def)

lemma reads_compare:
  assumes "ident_ok (column_ident c)" and "is_comparison op"
  shows "reads (column_expression c @ the (comparison_symbol op) @ place n (scalar_kind c) @
       (if op = Op_Like then escape_clause else ''''))
     (column_tokens c @ comparison_token op # place_tokens n (scalar_kind c) @
       (if op = Op_Like then [T_Word ''ESCAPE'', T_Literal ''''] else []))"
proof -
  have "reads (place n (scalar_kind c) @ (if op = Op_Like then escape_clause else ''''))
      (place_tokens n (scalar_kind c) @ (if op = Op_Like then [T_Word ''ESCAPE'', T_Literal ''''] else []))"
    using reads_append [OF reads_place reads_escape] reads_place
    by (simp add: boundary_def escape_clause_def)
  from reads_append [OF reads_column [OF assms(1)]
      reads_any_append [OF reads_comparison_symbol [OF assms(2)] this]]
  show ?thesis using boundary_comparison_symbol [OF assms(2)] by simp
qed

lemma reads_separator: "reads_any (separator op) [separator_token op]"
  by (cases op) (simp_all add: separator_def separator_token_def reads_keywords)

lemma boundary_separator [simp]: "boundary (separator op)" "separator op \<noteq> []"
  by (cases op; simp add: separator_def boundary_def)+

lemma reads_list:
  assumes "\<And>t n. t \<in> set ts \<Longrightarrow> reads (render n t) (tree_tokens n t)"
  shows "reads (render_list n (separator op) ts) (list_tokens n (separator_token op) ts)"
  using assms
proof (induction ts arbitrary: n)
  case Nil
  then show ?case by simp
next
  case (Cons t ts)
  have t: "reads (render n t) (tree_tokens n t)" by (simp add: Cons.prems)
  have "reads (render_list k (separator op) ts) (list_tokens k (separator_token op) ts)" for k
    using Cons.prems by (intro Cons.IH) simp
  from reads_append [OF t reads_any_append [OF reads_separator this]] t
  show ?case by simp
qed

lemma reads_tree: "tree_ok t \<Longrightarrow> reads (render n t) (tree_tokens n t)"
proof (induction t arbitrary: n)
  case (W_Group op ts)
  then have "reads (render_list n (separator op) ts) (list_tokens n (separator_token op) ts)"
    by (intro reads_list) (simp add: list_all_iff)
  from reads_append [OF this reads_any_reads [OF reads_keywords(15)]]
  have "reads (render_list n (separator op) ts @ '')'')
      (list_tokens n (separator_token op) ts @ [T_Close])"
    by (simp add: boundary_def)
  from reads_any_append [OF reads_keywords(14) this] show ?case by simp
next
  case (W_Null_Test c b)
  then show ?case using reads_null_test [of c b] by simp
next
  case W_False
  then show ?case by (simp add: reads_last_words)
next
  case (W_Set c b bs)
  then show ?case using reads_set [of c b "[Suc n ..< Suc (n + length bs)]"] by simp
next
  case (W_Compare c op b)
  then show ?case using reads_compare [of c op "Suc n"] by simp
qed

section \<open>What the tokens contain\<close>

definition param_numbers :: "token list \<Rightarrow> nat list" where
  "param_numbers ts = concat (map (\<lambda>t. case t of T_Param n \<Rightarrow> [n] | _ \<Rightarrow> []) ts)"

lemma params_simps [simp]:
  "param_numbers [] = []" "param_numbers (ts @ us) = param_numbers ts @ param_numbers us"
  "param_numbers (T_Param n # ts) = n # param_numbers ts"
  "param_numbers (T_Ident s # ts) = param_numbers ts" "param_numbers (T_Literal s # ts) = param_numbers ts"
  "param_numbers (T_Word s # ts) = param_numbers ts" "param_numbers (T_Cast # ts) = param_numbers ts"
  "param_numbers (T_Open # ts) = param_numbers ts" "param_numbers (T_Close # ts) = param_numbers ts"
  "param_numbers (T_Comma # ts) = param_numbers ts" "param_numbers (T_Dot # ts) = param_numbers ts"
  "param_numbers (T_Op s # ts) = param_numbers ts"
  by (simp_all add: param_numbers_def)

lemma params_column [simp]: "param_numbers (column_tokens c) = []"
  by (simp add: column_tokens_def)

lemma params_cast [simp]: "param_numbers (cast_tokens k) = []"
  by (simp add: cast_tokens_def split: option.split)

lemma params_comparison [simp]: "param_numbers (comparison_token op # ts) = param_numbers ts"
  by (cases op) (simp_all add: comparison_token_def)

lemma params_separator [simp]: "param_numbers (separator_token l # ts) = param_numbers ts"
  by (cases l) (simp_all add: separator_token_def)

lemma params_commas: "param_numbers (commas tss) = concat (map param_numbers tss)"
  by (induction tss rule: commas.induct) simp_all

lemma params_places [simp]: "param_numbers (commas (map (\<lambda>i. place_tokens i k) ns)) = ns"
  by (induction ns) (simp_all add: params_commas place_tokens_def)

lemma params_list:
  assumes "\<And>t n. t \<in> set ts \<Longrightarrow> param_numbers (tree_tokens n t) = [Suc n ..< Suc (n + length (binds t))]"
  shows "param_numbers (list_tokens n (separator_token op) ts) =
     [Suc n ..< Suc (n + length (concat (map binds ts)))]"
  using assms
proof (induction ts arbitrary: n)
  case (Cons t ts)
  let ?m = "length (concat (map binds ts))"
  have "[Suc n ..< Suc (n + length (binds t) + ?m)] =
      [Suc n ..< Suc (n + length (binds t))] @
      [Suc (n + length (binds t)) ..< Suc (n + length (binds t) + ?m)]"
    using upt_add_eq_append [of "Suc n" "Suc (n + length (binds t))" ?m] by simp
  with Cons show ?case by (simp add: add.assoc del: upt_Suc)
qed simp

lemma params_tree: "param_numbers (tree_tokens n t) = [Suc n ..< Suc (n + length (binds t))]"
proof (induction t arbitrary: n)
  case (W_Group op ts)
  then show ?case using params_list [of ts n op] by simp
next
  case (W_Set c b bs)
  show ?case by (simp del: upt_Suc)
next
  case (W_Compare c op b)
  show ?case by (simp add: place_tokens_def)
qed simp_all

text \<open>Literals, numbers and quoted identifiers.\<close>

fun harmless :: "string set \<Rightarrow> token \<Rightarrow> bool" where
  "harmless names (T_Ident s) = (s \<in> names)"
| "harmless names (T_Literal s) = (s = '''')"
| "harmless names (T_Number s) = False"
| "harmless names t = True"

lemma harmless_commas:
  "(\<And>ts. ts \<in> set tss \<Longrightarrow> list_all (harmless N) ts) \<Longrightarrow> list_all (harmless N) (commas tss)"
  by (induction tss rule: commas.induct) auto

lemma harmless_mono: "M \<subseteq> N \<Longrightarrow> list_all (harmless M) ts \<Longrightarrow> list_all (harmless N) ts"
proof (induction ts)
  case (Cons t ts)
  then show ?case by (cases t) auto
qed simp

definition column_names :: "pg_column set \<Rightarrow> string set" where
  "column_names cs = insert ''C'' ((\<lambda>c. ident_str (column_ident c)) ` cs)"

lemma harmless_column: "c \<in> cs \<Longrightarrow> list_all (harmless (column_names cs)) (column_tokens c)"
  by (simp add: column_tokens_def column_names_def)

lemma harmless_place: "list_all (harmless N) (place_tokens n k)"
  by (simp add: place_tokens_def cast_tokens_def split: option.split)

lemma harmless_comparison: "harmless N (comparison_token op)"
  by (cases op) (simp_all add: comparison_token_def)

lemma harmless_separator: "harmless N (separator_token l)"
  by (cases l) (simp_all add: separator_token_def)

lemmas harmless_fixed = harmless_place harmless_comparison harmless_separator

lemma harmless_list:
  "(\<And>t n. t \<in> set ts \<Longrightarrow> list_all (harmless N) (tree_tokens n t)) \<Longrightarrow>
     list_all (harmless N) (list_tokens n (separator_token op) ts)"
  by (induction ts arbitrary: n) (auto simp: harmless_fixed)

lemma harmless_tree:
  "tree_columns t \<subseteq> cs \<Longrightarrow> list_all (harmless (column_names cs)) (tree_tokens n t)"
proof (induction t arbitrary: n)
  case (W_Group op ts)
  then show ?case by (auto intro!: harmless_list)
next
  case (W_Set c b bs)
  then show ?case
    by (auto simp: harmless_column intro!: harmless_commas harmless_fixed)
qed (auto simp: harmless_column harmless_fixed)

section \<open>Planned trees\<close>

lemma plan_set_tree:
  "plan_set api c b v = Ok t \<Longrightarrow> ident_ok (column_ident c) \<Longrightarrow> tree_ok t \<and> tree_columns t \<subseteq> {c}"
  by (auto simp: plan_set_def map_ok_eq_Ok split: if_splits option.splits scalar_value.splits)

lemma plan_comparison_tree:
  "plan_comparison api c op v = Ok t \<Longrightarrow> ident_ok (column_ident c) \<Longrightarrow> is_comparison op \<Longrightarrow>
     tree_ok t \<and> tree_columns t \<subseteq> {c}"
  by (auto simp: plan_comparison_def map_ok_eq_Ok split: option.splits)

lemma plan_predicate_tree:
  assumes "plan_predicate api c op v = Ok t" and "ident_ok (column_ident c)"
  shows "tree_ok t \<and> tree_columns t \<subseteq> {c}"
proof (cases "is_comparison op")
  case True
  with assms have "plan_comparison api c op v = Ok t"
    by (simp add: plan_predicate_def is_comparison_def split: if_splits)
  from plan_comparison_tree [OF this assms(2) True] show ?thesis .
next
  case False
  then consider "op = Op_Is_Null" | "op = Op_Is_Not_Null" | "op = Op_In" | "op = Op_Not_In"
    by (auto simp: is_comparison_def)
  then show ?thesis
    using assms by cases (auto simp: plan_predicate_def dest: plan_set_tree)
qed

lemma plan_tree:
  "field_map_ok m \<Longrightarrow> plan api m c = Ok t \<Longrightarrow> tree_ok t \<and> tree_columns t \<subseteq> ran (columns m)"
proof (induction c arbitrary: t)
  case (Group op cs)
  from Group.prems(2) obtain ts where t: "t = W_Group op ts" and ts: "try_map (plan api m) cs = Ok ts"
    by (auto simp: map_ok_eq_Ok)
  have "tree_ok u \<and> tree_columns u \<subseteq> ran (columns m)" if "u \<in> set ts" for u
  proof -
    from try_map_member [OF ts that] obtain c where "c \<in> set cs" "plan api m c = Ok u" by blast
    with Group.IH Group.prems(1) show ?thesis by blast
  qed
  then show ?case by (auto simp: t list_all_iff)
next
  case (Predicate f op v)
  from Predicate.prems(2) obtain c where c: "columns m f = Some c"
    and p: "plan_predicate api c op v = Ok t"
    by (auto simp: and_then_eq_Ok resolve_eq_Ok)
  from plan_predicate_tree [OF p field_map_okD [OF Predicate.prems(1) c]] c show ?case
    by (auto simp: ran_def)
qed

end
