(* ===== verification/Compiler_Find.thy ===== *)
theory Compiler_Find
  imports Compiler_Tokens
begin

text \<open>
  The abstract view of \<open>compile_find\<close>: a plan with the four clauses of a statement, rendered as
  the non-empty clauses separated by one space, and the tokens of the whole fragment.
\<close>

record find_plan =
  p_where :: "where_tree option"
  p_order :: "(pg_column \<times> sort_direction) list"
  p_limit :: "64 word option"
  p_offset :: "64 word option"

definition plan_where ::
  "soaprs_api \<Rightarrow> pg_field_map \<Rightarrow> condition option \<Rightarrow> where_tree option soap_result" where
  "plan_where api m c = (case c of None \<Rightarrow> Ok None | Some x \<Rightarrow> map_ok Some (plan api m x))"

definition plan_order ::
  "soaprs_api \<Rightarrow> pg_field_map \<Rightarrow> sort_key list \<Rightarrow> (pg_column \<times> sort_direction) list soap_result"
where
  "plan_order api m =
     try_map (\<lambda>s. map_ok (\<lambda>c. (c, direction s)) (resolve api m (sort_field s)))"

definition plan_number :: "string \<Rightarrow> 64 word option \<Rightarrow> 64 word option soap_result" where
  "plan_number failure n =
     (case n of
        None \<Rightarrow> Ok None
      | Some u \<Rightarrow> if unat u < 2 ^ 63 then Ok (Some u) else Err (err_validation failure))"

definition plan_find :: "soaprs_api \<Rightarrow> pg_field_map \<Rightarrow> find_params \<Rightarrow> find_plan soap_result" where
  "plan_find api m params =
     and_then (plan_where api m (condition_of params)) (\<lambda>w.
     and_then (plan_order api m (sort_keys params)) (\<lambda>ord.
     and_then (plan_number ''PostgreSQL limit exceeds BIGINT range'' (limit params)) (\<lambda>lim.
     and_then (plan_number ''PostgreSQL offset exceeds BIGINT range''
        (if offset params > 0 then Some (offset params) else None)) (\<lambda>off.
       Ok \<lparr>p_where = w, p_order = ord, p_limit = lim, p_offset = off\<rparr>))))"

definition order_item :: "pg_column \<times> sort_direction \<Rightarrow> string" where
  "order_item = (\<lambda>(c, d). column_expression c @
     (case d of Ascending \<Rightarrow> '' ASC NULLS FIRST'' | Descending \<Rightarrow> '' DESC NULLS LAST''))"

definition append_clause ::
  "string \<Rightarrow> pg_bind_value list \<Rightarrow> compiler_output \<Rightarrow> compiler_output" where
  "append_clause s bs out =
     \<lparr>out_sql = (if out_sql out = '''' then s else out_sql out @ '' '' @ s),
      out_bindings = out_bindings out @ bs\<rparr>"

definition add_where :: "where_tree option \<Rightarrow> compiler_output \<Rightarrow> compiler_output" where
  "add_where w out =
     (case w of None \<Rightarrow> out
      | Some t \<Rightarrow> append_clause (''WHERE '' @ render (length (out_bindings out)) t) (binds t) out)"

definition add_order :: "(pg_column \<times> sort_direction) list \<Rightarrow> compiler_output \<Rightarrow> compiler_output"
where
  "add_order os out =
     (if os = [] then out
      else append_clause (''ORDER BY '' @ join '', '' (map order_item os)) [] out)"

definition add_number :: "string \<Rightarrow> 64 word option \<Rightarrow> compiler_output \<Rightarrow> compiler_output" where
  "add_number keyword n out =
     (case n of None \<Rightarrow> out
      | Some u \<Rightarrow> append_clause
          (keyword @ ''$'' @ show_nat (Suc (length (out_bindings out)))) [Bind_I64 u] out)"

definition render_find :: "find_plan \<Rightarrow> pg_compiled_query" where
  "render_find p =
     finish (add_number ''OFFSET '' (p_offset p)
       (add_number ''LIMIT '' (p_limit p)
         (add_order (p_order p) (add_where (p_where p) output_default))))"

section \<open>The clauses\<close>

lemma output_default_simps [simp]:
  "out_sql output_default = ''''" "out_bindings output_default = []"
  by (simp_all add: output_default_def)

lemma append_clause_simps [simp]:
  "out_sql (append_clause s bs out) = (if out_sql out = '''' then s else out_sql out @ '' '' @ s)"
  "out_bindings (append_clause s bs out) = out_bindings out @ bs"
  by (simp_all add: append_clause_def)

lemma write_where_eq:
  "write_where api m c output_default = map_ok (\<lambda>w. add_where w output_default) (plan_where api m c)"
proof (cases c)
  case None
  then show ?thesis by (simp add: write_where_def plan_where_def add_where_def)
next
  case (Some x)
  then show ?thesis
    by (cases "plan api m x")
      (auto simp: write_where_def plan_where_def add_where_def write_condition_eq intro!: output_eqI)
qed

lemma write_sort_keys_eq:
  "write_sort_keys api m i ks out =
     map_ok (\<lambda>os. out\<lparr>out_sql := out_sql out @ (if i > 0 \<and> os \<noteq> [] then '', '' else '''') @
                 join '', '' (map order_item os)\<rparr>) (plan_order api m ks)"
proof (induction ks arbitrary: i out)
  case Nil
  then show ?case by (simp add: plan_order_def)
next
  case (Cons k ks)
  show ?case
  proof (cases "resolve api m (sort_field k)")
    case (Err e)
    then show ?thesis by (simp add: plan_order_def Let_def)
  next
    case (Ok c)
    show ?thesis
    proof (cases "plan_order api m ks")
      case Err': (Err e)
      with Ok show ?thesis
        by (simp add: Cons.IH Let_def) (simp add: plan_order_def)
    next
      case Ok': (Ok os)
      then have "plan_order api m (k # ks) = Ok ((c, direction k) # os)"
        using Ok by (simp add: plan_order_def)
      with Ok Ok' show ?thesis
        by (cases "direction k")
          (auto simp: Cons.IH Let_def join_Cons order_item_def intro!: output_eqI)
    qed
  qed
qed

lemma plan_order_Nil_iff: "plan_order api m ks = Ok os \<Longrightarrow> os = [] \<longleftrightarrow> ks = []"
  by (auto simp: plan_order_def try_map_Ok_iff)

lemma write_order_eq:
  "write_order api m ks out = map_ok (\<lambda>os. add_order os out) (plan_order api m ks)"
proof (cases "plan_order api m ks")
  case (Err e)
  then have "ks \<noteq> []" by (auto simp: plan_order_def)
  with Err show ?thesis by (simp add: write_order_def write_sort_keys_eq)
next
  case (Ok os)
  then show ?thesis
    using plan_order_Nil_iff [OF Ok]
    by (auto simp: write_order_def write_sort_keys_eq add_order_def intro!: output_eqI)
qed

lemma write_count_clause_eq:
  "write_count_clause keyword failure u out =
     map_ok (\<lambda>n. add_number keyword n out) (plan_number failure (Some u))"
  by (auto simp: write_count_clause_def plan_number_def add_number_def i64_try_from_u64_def
      separate_clause_def push_binding_def cast_suffix_def Let_def intro!: output_eqI)

lemma write_limit_eq:
  "write_limit lim out = map_ok (\<lambda>n. add_number ''LIMIT '' n out)
     (plan_number ''PostgreSQL limit exceeds BIGINT range'' lim)"
  by (cases lim)
    (simp_all add: write_limit_def write_count_clause_eq, simp add: plan_number_def add_number_def)

lemma write_offset_eq:
  "write_offset off out = map_ok (\<lambda>n. add_number ''OFFSET '' n out)
     (plan_number ''PostgreSQL offset exceeds BIGINT range'' (if off > 0 then Some off else None))"
  by (simp add: write_offset_def write_count_clause_eq) (simp add: plan_number_def add_number_def)

lemma and_then_map_ok: "and_then (map_ok f r) g = and_then r (\<lambda>x. g (f x))"
  by (cases r) auto

lemma map_ok_and_then: "map_ok f (and_then r g) = and_then r (\<lambda>x. map_ok f (g x))"
  by (cases r) auto

lemma compile_find_eq:
  "compile_find api m params =
     and_then (params_validate api params) (\<lambda>_. map_ok render_find (plan_find api m params))"
  by (simp add: compile_find_def plan_find_def write_where_eq write_order_eq write_limit_eq
      write_offset_eq and_then_map_ok map_ok_and_then render_find_def)

lemma compile_count_eq:
  "compile_count api m params =
     and_then (params_validate api params)
       (\<lambda>_. map_ok (\<lambda>w. finish (add_where w output_default)) (plan_where api m (condition_of params)))"
  by (cases "plan_where api m (condition_of params)")
    (simp_all add: compile_count_def write_where_eq and_then_map_ok)

lemma compile_condition_eq:
  "compile_condition api m c =
     and_then (condition_validate api c)
       (\<lambda>_. map_ok (\<lambda>t. \<lparr>sql = render 0 t, bindings = binds t\<rparr>) (plan api m c))"
  by (cases "plan api m c")
    (simp_all add: compile_condition_def write_condition_eq finish_def)

section \<open>Tokens of a whole fragment\<close>

text \<open>
  A buffer is well placed for a set of names when its text is read, its parameters are numbered
  like its bindings and its tokens are harmless.  Every clause keeps this.
\<close>

definition well_placed :: "string set \<Rightarrow> compiler_output \<Rightarrow> bool" where
  "well_placed N out \<longleftrightarrow>
     (\<exists>ts. reads (out_sql out) ts \<and> param_numbers ts = [1 ..< Suc (length (out_bindings out))] \<and>
           list_all (harmless N) ts)"

lemma well_placed_default [simp]: "well_placed N output_default"
  by (auto simp: well_placed_def intro!: exI [of _ "[]"])

lemma reads_append_clause:
  assumes "reads (out_sql out) us" and "reads s ts"
  shows "reads (out_sql (append_clause s bs out)) (us @ ts)"
proof (cases "out_sql out = ''''")
  case True
  with assms(1) have "us = []"
    using reads_lex by fastforce
  with True assms(2) show ?thesis by simp
next
  case False
  have "reads ('' '' @ s) ts" using reads_space [OF assms(2)] by simp
  from reads_append [OF assms(1) this] False show ?thesis by (simp add: boundary_def)
qed

lemma well_placed_append:
  assumes "well_placed N out" and "reads s ts"
    and "param_numbers ts = [Suc (length (out_bindings out)) ..< Suc (length (out_bindings out) + length bs)]"
    and "list_all (harmless N) ts"
  shows "well_placed N (append_clause s bs out)"
proof -
  from assms(1) obtain us where us: "reads (out_sql out) us"
    "param_numbers us = [1 ..< Suc (length (out_bindings out))]" "list_all (harmless N) us"
    by (auto simp: well_placed_def)
  have "param_numbers (us @ ts) = [1 ..< Suc (length (out_bindings out) + length bs)]"
    using us(2) assms(3) upt_add_eq_append [of 1 "Suc (length (out_bindings out))" "length bs"]
    by simp
  moreover have "list_all (harmless N) (us @ ts)" using us(3) assms(4) by simp
  moreover have "reads (out_sql (append_clause s bs out)) (us @ ts)"
    by (rule reads_append_clause [OF us(1) assms(2)])
  ultimately show ?thesis by (auto simp: well_placed_def)
qed

lemma reads_clause_keywords:
  "reads_any ''WHERE '' [T_Word ''WHERE'']"
  "reads_any ''ORDER BY '' [T_Word ''ORDER'', T_Word ''BY'']"
  "reads_any ''LIMIT '' [T_Word ''LIMIT'']"
  "reads_any ''OFFSET '' [T_Word ''OFFSET'']"
  by (simp_all add: reads_any_def lex_Cons char_class_defs)

lemma well_placed_where:
  assumes "well_placed N out" and "tree_ok t" and "list_all (harmless N) (tree_tokens k t)"
    and "k = length (out_bindings out)"
  shows "well_placed N (append_clause (''WHERE '' @ render k t) (binds t) out)"
proof (rule well_placed_append [OF assms(1)])
  show "reads (''WHERE '' @ render k t) ([T_Word ''WHERE''] @ tree_tokens k t)"
    by (rule reads_any_append [OF reads_clause_keywords(1) reads_tree [OF assms(2)]])
qed (use assms in \<open>simp_all add: params_tree del: upt_Suc\<close>)

lemma reads_param: "reads (''$'' @ show_nat n) [T_Param n]"
  using lex_param boundary_no_digit by (auto simp: reads_def)

lemma well_placed_number:
  assumes "well_placed N out" and "reads_any keyword [T_Word w]"
  shows "well_placed N (append_clause (keyword @ ''$'' @ show_nat (Suc (length (out_bindings out))))
           [Bind_I64 u] out)"
proof (rule well_placed_append [OF assms(1)])
  let ?n = "Suc (length (out_bindings out))"
  from reads_any_append [OF assms(2) reads_param [of ?n]]
  show "reads (keyword @ ''$'' @ show_nat ?n) ([T_Word w] @ [T_Param ?n])" .
qed simp_all

definition order_tokens :: "pg_column \<times> sort_direction \<Rightarrow> token list" where
  "order_tokens = (\<lambda>(c, d). column_tokens c @
     (case d of Ascending \<Rightarrow> [T_Word ''ASC'', T_Word ''NULLS'', T_Word ''FIRST'']
      | Descending \<Rightarrow> [T_Word ''DESC'', T_Word ''NULLS'', T_Word ''LAST'']))"

lemma reads_order_item:
  assumes "ident_ok (column_ident c)"
  shows "reads (order_item (c, d)) (order_tokens (c, d))"
proof -
  have "reads ''FIRST'' [T_Word ''FIRST'']" "reads ''LAST'' [T_Word ''LAST'']"
    by (rule reads_word; simp add: char_class_defs)+
  moreover have "reads_any '' ASC NULLS '' [T_Word ''ASC'', T_Word ''NULLS'']"
    "reads_any '' DESC NULLS '' [T_Word ''DESC'', T_Word ''NULLS'']"
    by (simp_all add: reads_any_def lex_Cons char_class_defs)
  ultimately have ends: "reads '' ASC NULLS FIRST'' [T_Word ''ASC'', T_Word ''NULLS'', T_Word ''FIRST'']"
    "reads '' DESC NULLS LAST'' [T_Word ''DESC'', T_Word ''NULLS'', T_Word ''LAST'']"
    using reads_any_append by fastforce+
  show ?thesis
    using reads_append [OF reads_column [OF assms] ends(1)]
      reads_append [OF reads_column [OF assms] ends(2)]
    by (cases d) (simp_all add: order_item_def order_tokens_def boundary_def)
qed

lemma reads_order_items:
  "list_all (\<lambda>(c, d). ident_ok (column_ident c)) os \<Longrightarrow>
     reads (join '', '' (map order_item os)) (commas (map order_tokens os))"
  by (rule reads_joined_map) (auto simp: list_all_iff intro: reads_order_item)

lemma params_order: "param_numbers (order_tokens p) = []"
  by (cases p; cases "snd p") (simp_all add: order_tokens_def)

lemma params_orders: "param_numbers (commas (map order_tokens os)) = []"
  by (induction os) (simp_all add: params_commas params_order)

lemma harmless_order: "fst p \<in> cs \<Longrightarrow> list_all (harmless (column_names cs)) (order_tokens p)"
  by (cases p; cases "snd p") (simp_all add: order_tokens_def harmless_column)

lemma well_placed_order:
  assumes "well_placed (column_names cs) out" and "os \<noteq> []"
    and "list_all (\<lambda>(c, d). ident_ok (column_ident c)) os" and "fst ` set os \<subseteq> cs"
  shows "well_placed (column_names cs)
           (append_clause (''ORDER BY '' @ join '', '' (map order_item os)) [] out)"
proof (rule well_placed_append [OF assms(1)])
  from reads_any_append [OF reads_clause_keywords(2) reads_order_items [OF assms(3)]]
  show "reads (''ORDER BY '' @ join '', '' (map order_item os))
      ([T_Word ''ORDER'', T_Word ''BY''] @ commas (map order_tokens os))" .
  show "param_numbers ([T_Word ''ORDER'', T_Word ''BY''] @ commas (map order_tokens os)) =
      [Suc (length (out_bindings out)) ..< Suc (length (out_bindings out) + length [])]"
    by (simp add: params_orders)
  have "list_all (harmless (column_names cs)) (commas (map order_tokens os))"
    using assms(4) by (fastforce intro!: harmless_commas harmless_order)
  then show "list_all (harmless (column_names cs))
      ([T_Word ''ORDER'', T_Word ''BY''] @ commas (map order_tokens os))" by simp
qed

lemma plan_order_columns:
  assumes "field_map_ok m" and "plan_order api m ks = Ok os"
  shows "list_all (\<lambda>(c, d). ident_ok (column_ident c)) os \<and> fst ` set os \<subseteq> ran (columns m)"
proof -
  have "\<exists>f. columns m f = Some (fst p)" if "p \<in> set os" for p
  proof -
    from assms(2) have "try_map (\<lambda>s. map_ok (\<lambda>c. (c, direction s)) (resolve api m (sort_field s))) ks = Ok os"
      by (simp add: plan_order_def)
    from try_map_member [OF this that] show ?thesis
      by (auto simp: map_ok_eq_Ok resolve_eq_Ok)
  qed
  then show ?thesis
    using field_map_okD [OF assms(1)] by (fastforce simp: list_all_iff ran_def)
qed

lemma plan_find_fields:
  assumes "plan_find api m params = Ok p"
  shows "plan_where api m (condition_of params) = Ok (p_where p)"
    "plan_order api m (sort_keys params) = Ok (p_order p)"
    "p_limit p = limit params" "\<forall>u. p_limit p = Some u \<longrightarrow> unat u < 2 ^ 63"
    "p_offset p = (if offset params > 0 then Some (offset params) else None)"
    "\<forall>u. p_offset p = Some u \<longrightarrow> unat u < 2 ^ 63"
  using assms
  by (auto simp: plan_find_def and_then_eq_Ok plan_number_def split: option.splits if_splits)

lemma well_placed_plan_where:
  assumes "field_map_ok m" and "plan_where api m c = Ok w"
  shows "well_placed (column_names (ran (columns m))) (add_where w output_default)"
proof (cases w)
  case None
  then show ?thesis by (simp add: add_where_def)
next
  case (Some t)
  with assms(2) obtain c' where "plan api m c' = Ok t"
    by (auto simp: plan_where_def map_ok_eq_Ok split: option.splits)
  with plan_tree [OF assms(1)] have t: "tree_ok t" "tree_columns t \<subseteq> ran (columns m)" by auto
  with Some show ?thesis
    using well_placed_where [OF well_placed_default t(1) harmless_tree [OF t(2)], of 0]
    by (simp add: add_where_def)
qed

lemma well_placed_find:
  assumes ok: "field_map_ok m" and plan: "plan_find api m params = Ok p"
  shows "well_placed (column_names (ran (columns m)))
     (add_number ''OFFSET '' (p_offset p)
       (add_number ''LIMIT '' (p_limit p)
         (add_order (p_order p) (add_where (p_where p) output_default))))"
proof -
  let ?N = "column_names (ran (columns m))"
  have "well_placed ?N (add_where (p_where p) output_default)"
    by (rule well_placed_plan_where [OF ok plan_find_fields(1) [OF plan]])
  then have "well_placed ?N (add_order (p_order p) (add_where (p_where p) output_default))"
    using plan_order_columns [OF ok plan_find_fields(2) [OF plan]] well_placed_order
    by (simp add: add_order_def)
  then have "well_placed ?N (add_number ''LIMIT '' (p_limit p)
      (add_order (p_order p) (add_where (p_where p) output_default)))"
    using well_placed_number [OF _ reads_clause_keywords(3)]
    by (simp add: add_number_def split: option.split)
  then show ?thesis
    using well_placed_number [OF _ reads_clause_keywords(4)]
    by (simp add: add_number_def split: option.split)
qed

end
