(* ===== verification/Compiler_Facts.thy ===== *)
theory Compiler_Facts
  imports Compiler_Find
begin

text \<open>
  The lemmas behind the compiler's properties: the independence of the text from the values, the
  errors the compiler can return, the encoding of arguments, and a sample field map (the one of
  the compiler's own unit tests) for the witnesses.
\<close>

section \<open>Text does not depend on values\<close>

text \<open>The shape of a condition: its fields, operators, groups and set sizes, without values.\<close>

fun erase_value :: "scalar_value \<Rightarrow> scalar_value" where
  "erase_value (Scalar_List vs) = Scalar_List (map (\<lambda>_. Scalar_Null) vs)"
| "erase_value _ = Scalar_Null"

fun erase :: "condition \<Rightarrow> condition" where
  "erase (Group op cs) = Group op (map erase cs)"
| "erase (Predicate f op v) = Predicate f op (map_option erase_value v)"

fun skeleton :: "where_tree \<Rightarrow> where_tree" where
  "skeleton (W_Group op ts) = W_Group op (map skeleton ts)"
| "skeleton (W_Null_Test c b) = W_Null_Test c b"
| "skeleton W_False = W_False"
| "skeleton (W_Set c b bs) = W_Set c b (map (\<lambda>_. Bind_I64 0) bs)"
| "skeleton (W_Compare c op b) = W_Compare c op (Bind_I64 0)"

lemma length_binds_skeleton: "length (binds (skeleton t)) = length (binds t)"
  by (induction t) (auto simp: length_concat comp_def intro!: arg_cong [of _ _ sum_list])

lemma render_list_skeleton:
  "(\<And>t n. t \<in> set ts \<Longrightarrow> render n (skeleton t) = render n t) \<Longrightarrow>
     render_list n sep (map skeleton ts) = render_list n sep ts"
  by (induction ts arbitrary: n) (auto simp: length_binds_skeleton)

lemma render_skeleton: "render n (skeleton t) = render n t"
  by (induction t arbitrary: n) (simp_all add: render_list_skeleton)

lemma erase_value_list:
  "erase_value v = erase_value v' \<Longrightarrow>
     (\<exists>vs. v = Scalar_List vs) = (\<exists>vs. v' = Scalar_List vs)"
  by (cases v; cases v') auto

lemma plan_set_skeleton:
  assumes "map_option erase_value v = map_option erase_value v'"
    and "plan_set api c b v = Ok t" and "plan_set api c b v' = Ok t'"
  shows "skeleton t = skeleton t'"
proof -
  from assms(2,3) obtain vs vs' where v: "v = Some (Scalar_List vs)" "v' = Some (Scalar_List vs')"
    by (auto simp: plan_set_def split: option.splits scalar_value.splits)
  with assms(1) have len: "length vs = length vs'"
    by (auto dest: map_eq_imp_length_eq)
  show ?thesis
  proof (cases "vs = []")
    case True
    with len v assms(2,3) show ?thesis by (simp add: plan_set_def)
  next
    case False
    with len have "vs' \<noteq> []" by auto
    with False v assms(2,3) obtain bs bs' where
      "t = W_Set c b bs" "try_map (normalize_binding api (scalar_kind c)) vs = Ok bs"
      "t' = W_Set c b bs'" "try_map (normalize_binding api (scalar_kind c)) vs' = Ok bs'"
      by (auto simp: plan_set_def map_ok_eq_Ok)
    with len show ?thesis
      by (auto simp: map_replicate_const dest!: try_map_length)
  qed
qed

lemma plan_predicate_skeleton:
  assumes "map_option erase_value v = map_option erase_value v'"
    and "plan_predicate api c op v = Ok t" and "plan_predicate api c op v' = Ok t'"
  shows "skeleton t = skeleton t'"
proof (cases "op = Op_In \<or> op = Op_Not_In")
  case True
  with assms show ?thesis
    using plan_set_skeleton [OF assms(1)] by (auto simp: plan_predicate_def)
next
  case False
  with assms(2,3) show ?thesis
    by (auto simp: plan_predicate_def plan_comparison_def map_ok_eq_Ok
        split: if_splits option.splits)
qed

lemma plan_skeleton:
  "erase c = erase c' \<Longrightarrow> plan api m c = Ok t \<Longrightarrow> plan api m c' = Ok t' \<Longrightarrow> skeleton t = skeleton t'"
proof (induction c arbitrary: c' t t')
  case (Group op cs)
  from Group.prems(1) obtain cs' where c': "c' = Group op cs'" "map erase cs = map erase cs'"
    by (cases c') auto
  from Group.prems(2,3) c' obtain ts ts' where
    t: "t = W_Group op ts" "try_map (plan api m) cs = Ok ts"
    and t': "t' = W_Group op ts'" "try_map (plan api m) cs' = Ok ts'"
    by (auto simp: map_ok_eq_Ok)
  have "map skeleton ts = map skeleton ts'"
    using Group.IH c'(2) t(2) t'(2)
  proof (induction cs arbitrary: cs' ts ts')
    case Nil
    then show ?case by auto
  next
    case (Cons c cs)
    then obtain d ds where d: "cs' = d # ds" "erase c = erase d" "map erase cs = map erase ds"
      by auto
    from Cons.prems(3,4) d obtain u us u' us' where
      "ts = u # us" "plan api m c = Ok u" "try_map (plan api m) cs = Ok us"
      "ts' = u' # us'" "plan api m d = Ok u'" "try_map (plan api m) ds = Ok us'"
      by (auto simp: and_then_eq_Ok)
    moreover have "map skeleton us = map skeleton us'"
      by (rule Cons.IH [of ds]) (use calculation d Cons.prems(1) in \<open>auto intro: Cons.prems(1)\<close>)
    ultimately show ?case using d Cons.prems(1) [of c d u u'] by simp
  qed
  with t t' show ?case by simp
next
  case (Predicate f op v)
  from Predicate.prems(1) obtain v' where c': "c' = Predicate f op v'"
    "map_option erase_value v = map_option erase_value v'"
    by (cases c') auto
  from Predicate.prems(2,3) c' obtain c where
    "plan_predicate api c op v = Ok t" "plan_predicate api c op v' = Ok t'"
    by (auto simp: and_then_eq_Ok resolve_eq_Ok)
  with plan_predicate_skeleton [OF c'(2)] show ?case by blast
qed

section \<open>Fields and errors\<close>

fun condition_fields :: "condition \<Rightarrow> field_name set" where
  "condition_fields (Group op cs) = (\<Union>c \<in> set cs. condition_fields c)"
| "condition_fields (Predicate f op v) = {f}"

lemma plan_fields: "plan api m c = Ok t \<Longrightarrow> condition_fields c \<subseteq> dom (columns m)"
proof (induction c arbitrary: t)
  case (Group op cs)
  from Group.prems obtain ts where ts: "try_map (plan api m) cs = Ok ts"
    by (auto simp: map_ok_eq_Ok)
  have "condition_fields c \<subseteq> dom (columns m)" if c: "c \<in> set cs" for c
  proof -
    from ts have "list_all2 (\<lambda>c u. plan api m c = Ok u) cs ts" by (simp add: try_map_Ok_iff)
    with c obtain u where "plan api m c = Ok u"
      by (auto simp: list_all2_conv_all_nth in_set_conv_nth)
    with Group.IH [OF c] show ?thesis by blast
  qed
  then show ?case by auto
next
  case (Predicate f op v)
  then show ?case by (auto simp: and_then_eq_Ok resolve_eq_Ok)
qed

text \<open>A hypothesis on the other crate: what its checks refuse is a validation error.\<close>

definition validators_validate :: "soaprs_api \<Rightarrow> bool" where
  "validators_validate api \<longleftrightarrow>
     (\<forall>v e. scalar_validate api v = Err e \<longrightarrow> kind e = Validation) \<and>
     (\<forall>c e. condition_validate api c = Err e \<longrightarrow> kind e = Validation) \<and>
     (\<forall>p e. params_validate api p = Err e \<longrightarrow> kind e = Validation)"

lemma bind_scalar_Err: "bind_scalar k v = Err e \<Longrightarrow> kind e = Validation"
  by (cases k; cases v) (auto simp: bind_scalar_def)

lemma normalize_binding_Err:
  "validators_validate api \<Longrightarrow> normalize_binding api k v = Err e \<Longrightarrow> kind e = Validation"
  by (auto simp: normalize_binding_def and_then_eq_Err validators_validate_def bind_scalar_Err)

lemma plan_predicate_Err:
  assumes "validators_validate api" and "plan_predicate api c op v = Err e"
  shows "kind e = Validation"
  using assms(2)
  by (auto simp: plan_predicate_def plan_set_def plan_comparison_def map_ok_eq_Err
      split: if_splits option.splits scalar_value.splits
      dest!: try_map_Err normalize_binding_Err [OF assms(1)])

lemma plan_Err: "validators_validate api \<Longrightarrow> plan api m c = Err e \<Longrightarrow> kind e = Validation"
proof (induction c)
  case (Group op cs)
  then show ?case by (auto simp: map_ok_eq_Err dest!: try_map_Err)
next
  case (Predicate f op v)
  then show ?case by (auto simp: and_then_eq_Err dest: resolve_Err plan_predicate_Err)
qed

lemma plan_find_Err:
  assumes "validators_validate api" and "plan_find api m params = Err e"
  shows "kind e = Validation"
  using assms(2)
  by (auto simp: plan_find_def plan_where_def plan_order_def plan_number_def and_then_eq_Err
      map_ok_eq_Err split: option.splits if_splits
      dest: plan_Err [OF assms(1)] dest!: try_map_Err resolve_Err)

section \<open>Arguments\<close>

lemma add_bindings_Ok:
  "add_bindings enc bs args = Ok out \<longleftrightarrow>
     out = args @ map argument_of bs \<and> (\<forall>b \<in> set bs. enc (argument_of b) = None)"
  by (induction bs arbitrary: args)
    (auto simp: arguments_add_def and_then_eq_Ok split: option.splits)

lemma add_bindings_Err:
  "add_bindings enc bs args = Err e \<Longrightarrow>
     kind e = Infrastructure \<and>
     (\<exists>b \<in> set bs. \<exists>err. enc (argument_of b) = Some err \<and> source e = Some (Pg_Binding_Encode_Error err))"
  by (induction bs arbitrary: args)
    (auto simp: arguments_add_def and_then_eq_Err map_err_eq_Err split: option.splits)

lemma into_arguments_eq_Ok:
  "into_arguments enc q = Ok args \<longleftrightarrow>
     args = map argument_of (bindings q) \<and> (\<forall>b \<in> set (bindings q). enc (argument_of b) = None)"
  by (simp add: into_arguments_def add_bindings_Ok)

text \<open>The column family of the Rust type an argument has; \<open>i64\<close> is the one of pagination.\<close>

definition argument_kind :: "argument \<Rightarrow> pg_scalar_kind option" where
  "argument_kind a =
     (case a of
        Add_Bool _ \<Rightarrow> Some Kind_Bool | Add_None_Bool \<Rightarrow> Some Kind_Bool
      | Add_String _ \<Rightarrow> Some Kind_Text | Add_None_String \<Rightarrow> Some Kind_Text
      | Add_Bytes _ \<Rightarrow> Some Kind_Bytes | Add_None_Bytes \<Rightarrow> Some Kind_Bytes
      | Add_Uuid _ \<Rightarrow> Some Kind_Uuid | Add_Json _ \<Rightarrow> Some Kind_Json
      | Add_Decimal _ \<Rightarrow> Some Kind_Numeric | Add_Date _ \<Rightarrow> Some Kind_Date
      | Add_Time _ \<Rightarrow> Some Kind_Time | Add_Timestamp _ \<Rightarrow> Some Kind_Timestamp
      | Add_TimestampTz _ \<Rightarrow> Some Kind_TimestampTz | Add_I64 _ \<Rightarrow> None)"

text \<open>An argument fits a placeholder of a column: it has the column's own type, or it is text
  and the placeholder casts it.\<close>

definition argument_fits :: "pg_scalar_kind \<Rightarrow> argument \<Rightarrow> bool" where
  "argument_fits k a \<longleftrightarrow>
     argument_kind a = Some k \<or> (argument_kind a = Some Kind_Text \<and> placeholder_cast k \<noteq> None)"

lemma bind_scalar_fits: "bind_scalar k v = Ok b \<Longrightarrow> argument_fits k (argument_of b)"
  by (cases k; cases v)
    (auto simp: bind_scalar_def argument_fits_def argument_kind_def argument_of_def
      placeholder_cast_def)

lemma bind_pg_value_fits: "bind_pg_value k v = Ok b \<Longrightarrow> argument_fits k (argument_of b)"
  by (cases k; cases v)
    (auto simp: bind_pg_value_def argument_fits_def argument_kind_def argument_of_def
      placeholder_cast_def)

section \<open>A sample field map\<close>

definition sample_fields :: pg_field_map where
  "sample_fields =
     \<lparr>columns =
        [Field_Name ''active'' \<mapsto> column_new (Pg_Identifier ''is_active'') Kind_Bool PERSISTED,
         Field_Name ''age'' \<mapsto> column_new (Pg_Identifier ''age'') Kind_Numeric PERSISTED,
         Field_Name ''name'' \<mapsto> column_new (Pg_Identifier ''display_name'') Kind_Text PERSISTED,
         Field_Name ''id'' \<mapsto> column_new (Pg_Identifier ''id'') Kind_Uuid PERSISTED]\<rparr>"

lemma field_map_ok_sample: "field_map_ok sample_fields"
  by (auto simp: field_map_ok_def sample_fields_def column_new_def ident_ok_def char_class_defs
      split: if_splits)

lemma validators_validate_sample: "validators_validate sample_api"
  by (simp add: validators_validate_def sample_api_def)

lemmas sample_defs = sample_fields_def sample_api_def column_new_def

text \<open>\<open>active = ... AND (age >= ... OR name LIKE ...)\<close>, and a condition of the same shape.\<close>

definition sample_condition :: "bool \<Rightarrow> 64 word \<Rightarrow> string \<Rightarrow> condition" where
  "sample_condition b n s =
     Group And [Predicate (Field_Name ''active'') Op_Eq (Some (Scalar_Bool b)),
       Group Or [Predicate (Field_Name ''age'') Op_Gte (Some (Scalar_U64 n)),
                 Predicate (Field_Name ''name'') Op_Like (Some (Scalar_String s))]]"

end
