(* ===== verification/Repository_Facts.thy ===== *)
theory Repository_Facts
  imports Repository Compiler_Facts
begin

text \<open>
  The abstract view of the repository's statements.  The cells of an insert or a replacement are
  planned first (column and value of each field, or DEFAULT), then written with placeholders in
  order; and the tokens of every statement are computed from the mapping and the cells.
\<close>

section \<open>Cells\<close>

type_synonym cell = "pg_column \<times> pg_bind_value option"

definition plan_cell ::
  "soaprs_api \<Rightarrow> ('s, 'e, 'id, 'row) pg_repository \<Rightarrow> 'e \<Rightarrow> field_name \<Rightarrow> cell soap_result" where
  "plan_cell api r e field =
     and_then (resolve api (field_map (mapping (codec r))) field) (\<lambda>c.
     and_then (entity_value r e field) (\<lambda>v.
       if v = Pg_Default then Ok (c, None)
       else map_ok (\<lambda>b. (c, Some b)) (normalize_entity_binding (scalar_kind c) v)))"

fun cell_binds :: "cell list \<Rightarrow> pg_bind_value list" where
  "cell_binds [] = []"
| "cell_binds ((c, None) # cells) = cell_binds cells"
| "cell_binds ((c, Some b) # cells) = b # cell_binds cells"

fun cell_texts :: "(pg_column \<Rightarrow> string \<Rightarrow> string) \<Rightarrow> nat \<Rightarrow> cell list \<Rightarrow> string list" where
  "cell_texts form n [] = []"
| "cell_texts form n ((c, None) # cells) = form c ''DEFAULT'' # cell_texts form n cells"
| "cell_texts form n ((c, Some b) # cells) =
     form c (place (Suc n) (scalar_kind c)) # cell_texts form (Suc n) cells"

fun cell_tokens :: "nat \<Rightarrow> cell list \<Rightarrow> (pg_column \<times> token list) list" where
  "cell_tokens n [] = []"
| "cell_tokens n ((c, None) # cells) = (c, [T_Word ''DEFAULT'']) # cell_tokens n cells"
| "cell_tokens n ((c, Some b) # cells) =
     (c, place_tokens (Suc n) (scalar_kind c)) # cell_tokens (Suc n) cells"

lemma placeholder_eq_place [simp]: "placeholder n k = place n k"
  by (simp add: placeholder_def place_def cast_suffix_def split: option.split)

lemma value_cell_eq:
  "value_cell api r e bs f =
     map_ok (\<lambda>(c, b). (c, (case b of None \<Rightarrow> ''DEFAULT''
                            | Some _ \<Rightarrow> place (Suc (length bs)) (scalar_kind c)),
                       bs @ cell_binds [(c, b)])) (plan_cell api r e f)"
proof (cases "resolve api (field_map (mapping (codec r))) f")
  case c: (Ok c)
  show ?thesis
  proof (cases "entity_value r e f")
    case (Ok v)
    with c show ?thesis
      by (cases "v = Pg_Default"; cases "normalize_entity_binding (scalar_kind c) v")
        (simp_all add: value_cell_def plan_cell_def)
  qed (simp add: c value_cell_def plan_cell_def)
qed (simp add: value_cell_def plan_cell_def)

lemma write_cells_eq:
  "write_cells api r e form bs fs =
     map_ok (\<lambda>cells. (cell_texts form (length bs) cells, bs @ cell_binds cells))
       (try_map (plan_cell api r e) fs)"
proof (induction fs arbitrary: bs)
  case Nil
  then show ?case by simp
next
  case (Cons f fs)
  show ?case
  proof (cases "plan_cell api r e f")
    case (Ok p)
    obtain c b where p: "p = (c, b)" by fastforce
    show ?thesis
      by (cases b; cases "try_map (plan_cell api r e) fs")
        (simp_all add: value_cell_eq Ok p Cons.IH)
  qed (simp add: value_cell_eq)
qed

section \<open>The columns a statement names\<close>

text \<open>A selection of fields always resolves: it was made by resolving.\<close>

definition matching_columns ::
  "soaprs_api \<Rightarrow> pg_entity_mapping \<Rightarrow> (pg_field_permissions \<Rightarrow> bool) \<Rightarrow> pg_column list" where
  "matching_columns api m P =
     map (\<lambda>f. the (columns (field_map m) f)) (fields_matching api m P)"

lemma resolve_fields_matching:
  "try_map (resolve api (field_map m)) (fields_matching api m P) = Ok (matching_columns api m P)"
  unfolding matching_columns_def
  by (rule try_map_all_Ok) (auto elim!: fields_matching_resolves simp: resolve_eq_Ok)

lemma column_texts_matching:
  "try_map (column_text api m) (fields_matching api m P) =
     Ok (map (\<lambda>c. quoted (column_ident c)) (matching_columns api m P))"
proof -
  have "try_map (column_text api m) (fields_matching api m P) =
      Ok (map (\<lambda>f. quoted (column_ident (the (columns (field_map m) f)))) (fields_matching api m P))"
    by (rule try_map_all_Ok)
      (auto elim!: fields_matching_resolves simp: column_text_def resolve_def)
  then show ?thesis by (simp add: matching_columns_def comp_def)
qed

lemma selected_columns_eq:
  "selected_columns api r =
     Ok (join '', '' (map (\<lambda>c. quoted (column_ident c))
           (matching_columns api (mapping (codec r)) selectable)))"
  by (simp add: selected_columns_def selectable_fields_def column_texts_matching)

lemma matching_columns_ok:
  assumes "mapping_ok m" and "c \<in> set (matching_columns api m P)"
  shows "ident_ok (column_ident c)" "c \<in> ran (columns (field_map m))" "P (permissions c)"
  using assms field_map_okD [OF mapping_okD(2) [OF assms(1)]]
  by (auto simp: matching_columns_def ran_def elim!: fields_matching_resolves)

lemma plan_cell_column:
  "plan_cell api r e f = Ok p \<Longrightarrow> columns (field_map (mapping (codec r))) f = Some (fst p)"
  by (auto simp: plan_cell_def and_then_eq_Ok map_ok_eq_Ok resolve_eq_Ok split: if_splits)

lemma plan_cells_columns:
  assumes "try_map (plan_cell api r e) fs = Ok cells"
  shows "map fst cells = map (\<lambda>f. the (columns (field_map (mapping (codec r))) f)) fs"
  using assms
  by (induction fs arbitrary: cells) (auto simp: and_then_eq_Ok dest!: plan_cell_column)

section \<open>Reading the statements back\<close>

definition table_tokens :: "pg_table \<Rightarrow> token list" where
  "table_tokens t =
     (case schema t of Some s \<Rightarrow> [T_Ident (ident_str s), T_Dot] | None \<Rightarrow> []) @
     [T_Ident (ident_str (table_name t))]"

definition name_tokens :: "pg_column \<Rightarrow> token list" where
  "name_tokens c = [T_Ident (ident_str (column_ident c))]"

lemma reads_table:
  assumes "table_ok t"
  shows "reads (table_quoted t) (table_tokens t)"
proof (cases "schema t")
  case None
  with assms show ?thesis
    by (simp add: table_quoted_def table_tokens_def table_ok_def reads_quoted)
next
  case (Some s)
  with assms have ok: "ident_ok s" "ident_ok (table_name t)" by (simp_all add: table_ok_def)
  have "tokenize (quoted s @ CHR ''.'' # quoted (table_name t) @ rest) =
      prepend [T_Ident (ident_str s), T_Dot, T_Ident (ident_str (table_name t))] (tokenize rest)"
    if "boundary rest" for rest
    using reads_quoted [OF ok(2)] that
    by (subst lex_quoted_ident [OF ok(1)]) (simp_all add: reads_def)
  with Some show ?thesis by (simp add: table_quoted_def table_tokens_def reads_def)
qed

lemma reads_names:
  "(\<And>c. c \<in> set cs \<Longrightarrow> ident_ok (column_ident c)) \<Longrightarrow>
     reads (join '', '' (map (\<lambda>c. quoted (column_ident c)) cs)) (commas (map name_tokens cs))"
  by (rule reads_joined_map) (simp add: name_tokens_def reads_quoted)

lemma reads_default: "reads ''DEFAULT'' [T_Word ''DEFAULT'']"
  by (rule reads_word) (simp_all add: char_class_defs)

lemma reads_cells:
  assumes "\<And>c s ts. c \<in> fst ` set cells \<Longrightarrow> reads s ts \<Longrightarrow> reads (form c s) (tform c ts)"
  shows "reads (join '', '' (cell_texts form n cells))
     (commas (map (\<lambda>(c, ts). tform c ts) (cell_tokens n cells)))"
proof (rule reads_joined)
  show "list_all2 reads (cell_texts form n cells) (map (\<lambda>(c, ts). tform c ts) (cell_tokens n cells))"
    using assms
    by (induction n cells rule: cell_tokens.induct) (simp_all add: reads_default reads_place)
qed

text \<open>The fixed parts of the statements.\<close>

lemma reads_statement_words:
  "reads_any ''SELECT '' [T_Word ''SELECT'']"
  "reads_any '' FROM '' [T_Word ''FROM'']"
  "reads_any '' WHERE '' [T_Word ''WHERE'']"
  "reads_any ''DELETE FROM '' [T_Word ''DELETE'', T_Word ''FROM'']"
  "reads_any ''UPDATE '' [T_Word ''UPDATE'']"
  "reads_any '' SET '' [T_Word ''SET'']"
  "reads_any ''INSERT INTO '' [T_Word ''INSERT'', T_Word ''INTO'']"
  "reads_any '' ('' [T_Open]"
  "reads_any '') VALUES ('' [T_Close, T_Word ''VALUES'', T_Open]"
  "reads_any '' RETURNING '' [T_Word ''RETURNING'']"
  "reads_any ''SELECT COUNT(*) AS count FROM ''
     [T_Word ''SELECT'', T_Word ''COUNT'', T_Open, T_Op ''*'', T_Close, T_Word ''AS'',
      T_Word ''count'', T_Word ''FROM'']"
  by (simp_all add: reads_any_def lex_Cons lex_operator_def char_class_defs)

lemma reads_default_values:
  "reads '' DEFAULT VALUES'' [T_Word ''DEFAULT'', T_Word ''VALUES'']"
proof -
  have "reads_any '' DEFAULT '' [T_Word ''DEFAULT'']"
    by (simp add: reads_any_def lex_Cons char_class_defs)
  moreover have "reads ''VALUES'' [T_Word ''VALUES'']"
    by (rule reads_word) (simp_all add: char_class_defs)
  ultimately show ?thesis using reads_any_append by fastforce
qed

text \<open>A piece, a keyword after a space, another piece.\<close>

lemma reads_between:
  assumes "reads a x" and "reads_any w y" and "reads b z" and "boundary w" and "w \<noteq> []"
  shows "reads (a @ w @ b) (x @ y @ z)"
  using reads_append [OF assms(1) reads_any_append [OF assms(2,3)]] assms(4,5) by simp

section \<open>The write statements\<close>

definition returning_text :: "soaprs_api \<Rightarrow> pg_entity_mapping \<Rightarrow> bool \<Rightarrow> string" where
  "returning_text api m returning =
     (if returning then '' RETURNING '' @
        join '', '' (map (\<lambda>c. quoted (column_ident c)) (matching_columns api m selectable))
      else '''')"

definition returning_tokens :: "soaprs_api \<Rightarrow> pg_entity_mapping \<Rightarrow> bool \<Rightarrow> token list" where
  "returning_tokens api m returning =
     (if returning then
        T_Word ''RETURNING'' # commas (map name_tokens (matching_columns api m selectable))
      else [])"

definition insert_text :: "soaprs_api \<Rightarrow> pg_entity_mapping \<Rightarrow> cell list \<Rightarrow> bool \<Rightarrow> string" where
  "insert_text api m cells returning =
     ''INSERT INTO '' @ table_quoted (table m) @
     (if cells = [] then '' DEFAULT VALUES''
      else '' ('' @ join '', '' (map (\<lambda>p. quoted (column_ident (fst p))) cells) @
           '') VALUES ('' @ join '', '' (cell_texts (\<lambda>c s. s) 0 cells) @ '')'') @
     returning_text api m returning"

definition insert_tokens :: "soaprs_api \<Rightarrow> pg_entity_mapping \<Rightarrow> cell list \<Rightarrow> bool \<Rightarrow> token list" where
  "insert_tokens api m cells returning =
     [T_Word ''INSERT'', T_Word ''INTO''] @ table_tokens (table m) @
     (if cells = [] then [T_Word ''DEFAULT'', T_Word ''VALUES'']
      else T_Open # commas (map (\<lambda>p. name_tokens (fst p)) cells) @
           [T_Close, T_Word ''VALUES'', T_Open] @
           commas (map snd (cell_tokens 0 cells)) @ [T_Close]) @
     returning_tokens api m returning"

definition assignment :: "pg_column \<Rightarrow> string \<Rightarrow> string" where
  "assignment c s = quoted (column_ident c) @ '' = '' @ s"

definition assignment_tokens :: "pg_column \<Rightarrow> token list \<Rightarrow> token list" where
  "assignment_tokens c ts = name_tokens c @ T_Op ''='' # ts"

definition replace_text ::
  "soaprs_api \<Rightarrow> pg_entity_mapping \<Rightarrow> cell list \<Rightarrow> pg_column \<Rightarrow> bool \<Rightarrow> string" where
  "replace_text api m cells idc returning =
     ''UPDATE '' @ table_quoted (table m) @ '' SET '' @
     join '', '' (cell_texts assignment 0 cells) @ '' WHERE '' @
     assignment idc (place (Suc (length (cell_binds cells))) (scalar_kind idc)) @
     returning_text api m returning"

definition replace_tokens ::
  "soaprs_api \<Rightarrow> pg_entity_mapping \<Rightarrow> cell list \<Rightarrow> pg_column \<Rightarrow> bool \<Rightarrow> token list" where
  "replace_tokens api m cells idc returning =
     [T_Word ''UPDATE''] @ table_tokens (table m) @ [T_Word ''SET''] @
     commas (map (\<lambda>(c, ts). assignment_tokens c ts) (cell_tokens 0 cells)) @ [T_Word ''WHERE''] @
     assignment_tokens idc (place_tokens (Suc (length (cell_binds cells))) (scalar_kind idc)) @
     returning_tokens api m returning"

text \<open>The identity of an entity: its column and a binding that is neither null nor DEFAULT.\<close>

definition plan_identity ::
  "soaprs_api \<Rightarrow> ('s, 'e, 'id, 'row) pg_repository \<Rightarrow> 'id \<Rightarrow> (pg_column \<times> pg_bind_value) soap_result"
where
  "plan_identity api r i =
     (let m = mapping (codec r) in
      and_then (resolve api (field_map m) (id_field m)) (\<lambda>c.
      and_then (id_value (codec r) i) (\<lambda>v.
        if v \<in> {Pg_Null, Pg_Default} then Err (err_validation null_identifier_text)
        else map_ok (Pair c) (normalize_entity_binding (scalar_kind c) v))))"

lemma add_returning_eq:
  "add_returning api r returning stmt = Ok (stmt @ returning_text api (mapping (codec r)) returning)"
  by (simp add: add_returning_def returning_text_def selected_columns_eq)

lemma column_texts_insertable:
  "try_map (column_text api m) (insertable_fields api m) =
     Ok (map (\<lambda>c. quoted (column_ident c)) (matching_columns api m insertable))"
  by (simp add: insertable_fields_def column_texts_matching)

lemma compile_insert_eq:
  "compile_insert api enc r e returning =
     and_then (try_map (plan_cell api r e) (insertable_fields api (mapping (codec r)))) (\<lambda>cells.
       map_ok (Pair (insert_text api (mapping (codec r)) cells returning))
         (compiled_arguments enc (cell_binds cells)))"
proof (cases "try_map (plan_cell api r e) (insertable_fields api (mapping (codec r)))")
  case (Err error)
  then have "insertable_fields api (mapping (codec r)) \<noteq> []" by auto
  with Err show ?thesis
    by (simp add: compile_insert_def Let_def write_cells_eq column_texts_insertable)
next
  case (Ok cells)
  have empty: "insertable_fields api (mapping (codec r)) = [] \<longleftrightarrow> cells = []"
    using try_map_length [OF Ok] by auto
  have names: "try_map (column_text api (mapping (codec r))) (insertable_fields api (mapping (codec r))) =
      Ok (map (\<lambda>p. quoted (column_ident (fst p))) cells)"
    using arg_cong [OF plan_cells_columns [OF Ok], of "map (\<lambda>c. quoted (column_ident c))"]
    unfolding column_texts_insertable by (simp add: matching_columns_def insertable_fields_def comp_def)
  show ?thesis
    using empty Ok names
    by (cases "compiled_arguments enc (cell_binds cells)"; cases "cells = []")
      (simp_all add: compile_insert_def Let_def add_returning_eq insert_text_def write_cells_eq)
qed

lemma compiled_id_eq:
  "compiled_id api enc r i =
     and_then (plan_identity api r i) (\<lambda>(c, b).
       map_ok (Pair (assignment c (place 1 (scalar_kind c)))) (compiled_arguments enc [b]))"
proof (cases "resolve api (field_map (mapping (codec r))) (id_field (mapping (codec r)))")
  case c: (Ok c)
  show ?thesis
  proof (cases "id_value (codec r) i")
    case v: (Ok v)
    show ?thesis
    proof (cases "v \<in> {Pg_Null, Pg_Default} \<or> \<not> is_ok (normalize_entity_binding (scalar_kind c) v)")
      case True
      with c v show ?thesis
        by (cases "normalize_entity_binding (scalar_kind c) v")
          (auto simp: compiled_id_def plan_identity_def)
    next
      case False
      then obtain b where "normalize_entity_binding (scalar_kind c) v = Ok b"
        by (auto simp: is_ok_iff)
      with False c v show ?thesis
        by (cases "compiled_arguments enc [b]")
          (simp_all add: compiled_id_def plan_identity_def assignment_def)
    qed
  qed (simp add: c compiled_id_def plan_identity_def)
qed (simp add: compiled_id_def plan_identity_def)

lemma plan_identity_eq_Ok:
  "plan_identity api r i = Ok (c, b) \<longleftrightarrow>
     columns (field_map (mapping (codec r))) (id_field (mapping (codec r))) = Some c \<and>
     (\<exists>v. id_value (codec r) i = Ok v \<and> v \<noteq> Pg_Null \<and> v \<noteq> Pg_Default \<and>
          normalize_entity_binding (scalar_kind c) v = Ok b)"
  by (auto simp: plan_identity_def Let_def and_then_eq_Ok map_ok_eq_Ok resolve_eq_Ok
      split: if_splits)

lemma compile_replace_eq:
  "compile_replace api enc r e returning =
     (if replaced_fields api r = [] then
        Err (soap_error_new Unsupported
          ''PostgreSQL replacement requires an updatable non-identity field'')
      else
        and_then (try_map (plan_cell api r e) (replaced_fields api r)) (\<lambda>cells.
        and_then (plan_identity api r (entity_id (codec r) e)) (\<lambda>(idc, b).
          map_ok (Pair (replace_text api (mapping (codec r)) cells idc returning))
            (compiled_arguments enc (cell_binds cells @ [b])))))"
proof (cases "try_map (plan_cell api r e) (replaced_fields api r)")
  case (Err error)
  then show ?thesis
    by (simp add: compile_replace_def Let_def write_cells_eq)
next
  case cells: (Ok cells)
  have form: "(\<lambda>c s. quoted (column_ident c) @ '' = '' @ s) = assignment"
    by (intro ext) (simp add: assignment_def)
  show ?thesis
  proof (cases "resolve api (field_map (mapping (codec r))) (id_field (mapping (codec r)))")
    case c: (Ok c)
    show ?thesis
    proof (cases "id_value (codec r) (entity_id (codec r) e)")
      case v: (Ok v)
      show ?thesis
      proof (cases "normalize_entity_binding (scalar_kind c) v")
        case (Ok b)
        with cells c v form show ?thesis
          by (cases "compiled_arguments enc (cell_binds cells @ [b])")
            (simp_all add: compile_replace_def Let_def write_cells_eq plan_identity_def
              add_returning_eq replace_text_def assignment_def)
      qed (use cells c v in \<open>simp add: compile_replace_def Let_def write_cells_eq plan_identity_def\<close>)
    qed (use cells c in \<open>simp add: compile_replace_def Let_def write_cells_eq plan_identity_def\<close>)
  qed (use cells in \<open>simp add: compile_replace_def Let_def write_cells_eq plan_identity_def\<close>)
qed

lemma reads_assignment:
  "ident_ok (column_ident c) \<Longrightarrow> reads s ts \<Longrightarrow> reads (assignment c s) (assignment_tokens c ts)"
  using reads_between [OF reads_quoted reads_keywords(3)]
  by (simp add: assignment_def assignment_tokens_def name_tokens_def boundary_def)

lemma reads_returning:
  assumes "mapping_ok m" and "reads s ts"
  shows "reads (s @ returning_text api m returning) (ts @ returning_tokens api m returning)"
proof -
  have "reads (join '', '' (map (\<lambda>c. quoted (column_ident c)) (matching_columns api m selectable)))
      (commas (map name_tokens (matching_columns api m selectable)))"
    by (rule reads_names) (rule matching_columns_ok [OF assms(1)])
  from reads_between [OF assms(2) reads_statement_words(10) this] show ?thesis
    using assms(2) by (simp add: returning_text_def returning_tokens_def boundary_def)
qed

lemma reads_insert:
  assumes ok: "mapping_ok m"
    and cells: "\<And>p. p \<in> set cells \<Longrightarrow> ident_ok (column_ident (fst p))"
  shows "reads (insert_text api m cells returning) (insert_tokens api m cells returning)"
proof -
  note tab = reads_table [OF mapping_okD(1) [OF ok]]
  have rest: "reads (if cells = [] then '' DEFAULT VALUES''
      else '' ('' @ join '', '' (map (\<lambda>p. quoted (column_ident (fst p))) cells) @
           '') VALUES ('' @ join '', '' (cell_texts (\<lambda>c s. s) 0 cells) @ '')'')
     (if cells = [] then [T_Word ''DEFAULT'', T_Word ''VALUES'']
      else T_Open # commas (map (\<lambda>p. name_tokens (fst p)) cells) @
           [T_Close, T_Word ''VALUES'', T_Open] @ commas (map snd (cell_tokens 0 cells)) @ [T_Close])"
  proof (cases "cells = []")
    case True
    then show ?thesis by (simp add: reads_default_values)
  next
    case False
    have names: "reads (join '', '' (map (\<lambda>p. quoted (column_ident (fst p))) cells))
        (commas (map (\<lambda>p. name_tokens (fst p)) cells))"
      by (rule reads_joined_map) (simp add: name_tokens_def reads_quoted cells)
    have vals: "reads (join '', '' (cell_texts (\<lambda>c s. s) 0 cells)) (commas (map snd (cell_tokens 0 cells)))"
      using reads_cells [of cells "\<lambda>c s. s" "\<lambda>c ts. ts" 0] by (simp add: case_prod_beta')
    from reads_append [OF vals reads_any_reads [OF reads_keywords(15)]]
    have "reads (join '', '' (cell_texts (\<lambda>c s. s) 0 cells) @ '')'')
        (commas (map snd (cell_tokens 0 cells)) @ [T_Close])" by (simp add: boundary_def)
    from reads_between [OF names reads_statement_words(9) this]
    have "reads (join '', '' (map (\<lambda>p. quoted (column_ident (fst p))) cells) @ '') VALUES ('' @
          join '', '' (cell_texts (\<lambda>c s. s) 0 cells) @ '')'')
        (commas (map (\<lambda>p. name_tokens (fst p)) cells) @ [T_Close, T_Word ''VALUES'', T_Open] @
          commas (map snd (cell_tokens 0 cells)) @ [T_Close])" by (simp add: boundary_def)
    from reads_any_append [OF reads_statement_words(8) this] False show ?thesis by simp
  qed
  have "reads (table_quoted (table m) @ (if cells = [] then '' DEFAULT VALUES''
      else '' ('' @ join '', '' (map (\<lambda>p. quoted (column_ident (fst p))) cells) @
           '') VALUES ('' @ join '', '' (cell_texts (\<lambda>c s. s) 0 cells) @ '')''))
     (table_tokens (table m) @ (if cells = [] then [T_Word ''DEFAULT'', T_Word ''VALUES'']
      else T_Open # commas (map (\<lambda>p. name_tokens (fst p)) cells) @
           [T_Close, T_Word ''VALUES'', T_Open] @ commas (map snd (cell_tokens 0 cells)) @ [T_Close]))"
    by (rule reads_append [OF tab rest]) (simp_all add: boundary_def)
  from reads_returning [OF ok reads_any_append [OF reads_statement_words(7) this]] show ?thesis
    by (simp add: insert_text_def insert_tokens_def)
qed

lemma reads_replace:
  assumes ok: "mapping_ok m" and idc: "ident_ok (column_ident idc)"
    and cells: "\<And>p. p \<in> set cells \<Longrightarrow> ident_ok (column_ident (fst p))"
  shows "reads (replace_text api m cells idc returning) (replace_tokens api m cells idc returning)"
proof -
  have set_part: "reads (join '', '' (cell_texts assignment 0 cells))
      (commas (map (\<lambda>(c, ts). assignment_tokens c ts) (cell_tokens 0 cells)))"
    by (rule reads_cells) (auto intro: reads_assignment cells)
  note where_part = reads_between [OF set_part reads_statement_words(3)
      reads_assignment [OF idc reads_place [of "Suc (length (cell_binds cells))" "scalar_kind idc"]]]
  from reads_between [OF reads_table [OF mapping_okD(1) [OF ok]] reads_statement_words(6) where_part]
  have "reads (table_quoted (table m) @ '' SET '' @ join '', '' (cell_texts assignment 0 cells) @
        '' WHERE '' @ assignment idc (place (Suc (length (cell_binds cells))) (scalar_kind idc)))
      (table_tokens (table m) @ [T_Word ''SET''] @
        commas (map (\<lambda>(c, ts). assignment_tokens c ts) (cell_tokens 0 cells)) @ [T_Word ''WHERE''] @
        assignment_tokens idc (place_tokens (Suc (length (cell_binds cells))) (scalar_kind idc)))"
    by (simp add: boundary_def)
  from reads_returning [OF ok reads_any_append [OF reads_statement_words(5) this]] show ?thesis
    by (simp add: replace_text_def replace_tokens_def)
qed

text \<open>The parameters of the cells, and of whole statements.\<close>

lemma params_cells:
  assumes "\<And>c ts. param_numbers (tform c ts) = param_numbers ts"
  shows "concat (map (\<lambda>(c, ts). param_numbers (tform c ts)) (cell_tokens n cells)) =
     [Suc n ..< Suc (n + length (cell_binds cells))]"
  using assms
  by (induction n cells rule: cell_tokens.induct)
    (simp_all add: place_tokens_def upt_conv_Cons del: upt_Suc)

lemma params_names [simp]: "param_numbers (name_tokens c) = []" "param_numbers (table_tokens t) = []"
  by (simp_all add: name_tokens_def table_tokens_def split: option.split)

lemma params_returning [simp]: "param_numbers (returning_tokens api m b) = []"
  by (simp add: returning_tokens_def params_commas)

lemma params_insert:
  "param_numbers (insert_tokens api m cells returning) = [1 ..< Suc (length (cell_binds cells))]"
  using params_cells [of "\<lambda>c ts. ts" 0 cells]
  by (simp add: insert_tokens_def params_commas comp_def case_prod_beta' del: upt_Suc)

lemma params_replace:
  "param_numbers (replace_tokens api m cells idc returning) =
     [1 ..< Suc (Suc (length (cell_binds cells)))]"
  using params_cells [of assignment_tokens 0 cells]
  by (simp add: replace_tokens_def params_commas comp_def case_prod_beta' assignment_tokens_def
      place_tokens_def)

section \<open>The read statements\<close>

definition select_tokens :: "soaprs_api \<Rightarrow> pg_entity_mapping \<Rightarrow> token list" where
  "select_tokens api m =
     T_Word ''SELECT'' # commas (map name_tokens (matching_columns api m selectable)) @
     T_Word ''FROM'' # table_tokens (table m)"

definition count_tokens :: "pg_entity_mapping \<Rightarrow> token list" where
  "count_tokens m =
     [T_Word ''SELECT'', T_Word ''COUNT'', T_Open, T_Op ''*'', T_Close, T_Word ''AS'',
      T_Word ''count'', T_Word ''FROM''] @ table_tokens (table m)"

definition delete_tokens :: "pg_entity_mapping \<Rightarrow> token list" where
  "delete_tokens m = [T_Word ''DELETE'', T_Word ''FROM''] @ table_tokens (table m)"

definition identity_tokens :: "pg_column \<Rightarrow> token list" where
  "identity_tokens c = T_Word ''WHERE'' # assignment_tokens c (place_tokens 1 (scalar_kind c))"

lemma select_prefix_eq:
  "select_prefix api r =
     Ok (''SELECT '' @ join '', '' (map (\<lambda>c. quoted (column_ident c))
            (matching_columns api (mapping (codec r)) selectable)) @
         '' FROM '' @ table_quoted (table (mapping (codec r))))"
  by (simp add: select_prefix_def selected_columns_eq)

lemma reads_select:
  assumes "mapping_ok (mapping (codec r))" and "select_prefix api r = Ok start"
  shows "reads start (select_tokens api (mapping (codec r)))"
proof -
  let ?m = "mapping (codec r)"
  have "reads (join '', '' (map (\<lambda>c. quoted (column_ident c)) (matching_columns api ?m selectable)))
      (commas (map name_tokens (matching_columns api ?m selectable)))"
    by (rule reads_names) (rule matching_columns_ok [OF assms(1)])
  from reads_between [OF this reads_statement_words(2) reads_table [OF mapping_okD(1) [OF assms(1)]]]
  have "reads (join '', '' (map (\<lambda>c. quoted (column_ident c)) (matching_columns api ?m selectable)) @
        '' FROM '' @ table_quoted (table ?m))
      (commas (map name_tokens (matching_columns api ?m selectable)) @ [T_Word ''FROM''] @
        table_tokens (table ?m))" by (simp add: boundary_def)
  from reads_any_append [OF reads_statement_words(1) this] assms(2) show ?thesis
    by (auto simp: select_prefix_eq select_tokens_def)
qed

lemma reads_count_start:
  "mapping_ok m \<Longrightarrow>
     reads (''SELECT COUNT(*) AS count FROM '' @ table_quoted (table m)) (count_tokens m)"
  unfolding count_tokens_def
  by (rule reads_any_append [OF reads_statement_words(11) reads_table [OF mapping_okD(1)]])

lemma reads_fragment:
  assumes "reads s ts" and "reads q us"
  shows "reads (append_fragment s q) (ts @ us)"
proof (cases "q = ''''")
  case True
  with assms(2) have "us = []" using reads_lex by fastforce
  with True assms(1) show ?thesis by (simp add: append_fragment_def)
next
  case False
  have "reads ('' '' @ q) us" using reads_space [OF assms(2)] by simp
  from reads_append [OF assms(1) this] False show ?thesis
    by (simp add: append_fragment_def boundary_def)
qed

lemma reads_identity:
  assumes "reads s ts" and "ident_ok (column_ident c)"
  shows "reads (s @ '' WHERE '' @ assignment c (place 1 (scalar_kind c))) (ts @ identity_tokens c)"
  using reads_between [OF assms(1) reads_statement_words(3)
      reads_assignment [OF assms(2) reads_place [of 1 "scalar_kind c"]]]
  by (simp add: boundary_def identity_tokens_def)

text \<open>A compiled fragment, read.\<close>

lemma compiled_find_reads:
  assumes "field_map_ok m" and "compile_find api m params = Ok q"
  shows "\<exists>ts. reads (sql q) ts \<and> param_numbers ts = [1 ..< Suc (length (bindings q))] \<and>
           list_all (harmless (column_names (ran (columns m)))) ts"
proof -
  from assms(2) obtain p where p: "plan_find api m params = Ok p" and q: "q = render_find p"
    by (auto simp: compile_find_eq and_then_eq_Ok map_ok_eq_Ok)
  from well_placed_find [OF assms(1) p] show ?thesis
    unfolding q render_find_def well_placed_def finish_def by simp
qed

lemma compiled_count_reads:
  assumes "field_map_ok m" and "compile_count api m params = Ok q"
  shows "\<exists>ts. reads (sql q) ts \<and> param_numbers ts = [1 ..< Suc (length (bindings q))] \<and>
           list_all (harmless (column_names (ran (columns m)))) ts"
proof -
  from assms(2) obtain w where "plan_where api m (condition_of params) = Ok w"
      and q: "q = finish (add_where w output_default)"
    by (auto simp: compile_count_eq and_then_eq_Ok map_ok_eq_Ok)
  from well_placed_plan_where [OF assms(1) this(1)] show ?thesis
    unfolding q well_placed_def finish_def by simp
qed

lemma compiled_arguments_eq_Ok:
  "compiled_arguments enc bs = Ok args \<longleftrightarrow>
     args = map argument_of bs \<and> (\<forall>b \<in> set bs. enc (argument_of b) = None)"
  by (simp add: compiled_arguments_def into_arguments_eq_Ok from_bindings_def)

end
