(* ===== verification/Transaction.thy ===== *)
theory Transaction
  imports Source Sqlx_Error_Mapping
begin

text \<open>
  \<open>src/postgres/transaction.rs\<close>, operation by operation: a transaction source is active, holding
  the driver's transaction, or completed.  The mutex serializes the operations; this theory
  models each of them as it runs under the lock, \<open>Transaction_Steps\<close> the interleavings.
\<close>

datatype 't transaction_state = Active 't | Completed

text \<open>The driver's side: beginning, using and ending a transaction.\<close>

record ('t, 'w, 'row) tx_driver =
  tx_begin :: "'w \<Rightarrow> ('t, sqlx_error) result \<times> 'w"
  tx_executor :: "'t \<Rightarrow> ('w, 'row) executor"
  tx_commit :: "'t \<Rightarrow> 'w \<Rightarrow> (unit, sqlx_error) result \<times> 'w"
  tx_rollback :: "'t \<Rightarrow> 'w \<Rightarrow> (unit, sqlx_error) result \<times> 'w"

record ('t, 'w) tx_source =
  tx_state :: "'t transaction_state"
  tx_world :: "'w world"

definition completed_text :: string where
  "completed_text = ''PostgreSQL transaction source is already completed''"

definition tx_source_begin ::
  "('t, 'w, 'row) tx_driver \<Rightarrow> 'w world \<Rightarrow> ('t, 'w) tx_source soap_result \<times> 'w world" where
  "tx_source_begin drv w =
     (case issue Begin_Tx (tx_begin drv) w of
        (Err e, w') \<Rightarrow> (Err (map_sqlx_error e ''begin transaction''), w')
      | (Ok t, w') \<Rightarrow> (Ok \<lparr>tx_state = Active t, tx_world = w'\<rparr>, w'))"

text \<open>\<open>mem::replace\<close> leaves \<open>Completed\<close> behind in both cases.\<close>

definition take_active :: "('t, 'w) tx_source \<Rightarrow> 't soap_result \<times> ('t, 'w) tx_source" where
  "take_active st =
     (case tx_state st of
        Active t \<Rightarrow> (Ok t, st\<lparr>tx_state := Completed\<rparr>)
      | Completed \<Rightarrow> (Err (err_infrastructure completed_text), st\<lparr>tx_state := Completed\<rparr>))"

definition tx_source_commit ::
  "('t, 'w, 'row) tx_driver \<Rightarrow> ('t, 'w) tx_source \<Rightarrow> unit soap_result \<times> ('t, 'w) tx_source" where
  "tx_source_commit drv st =
     (case take_active st of
        (Err e, st') \<Rightarrow> (Err e, st')
      | (Ok t, st') \<Rightarrow>
          (case issue Commit_Tx (tx_commit drv t) (tx_world st') of
             (r, w) \<Rightarrow> (map_err (\<lambda>e. map_sqlx_error e ''commit transaction'') r,
                        st'\<lparr>tx_world := w\<rparr>)))"

definition tx_source_rollback ::
  "('t, 'w, 'row) tx_driver \<Rightarrow> ('t, 'w) tx_source \<Rightarrow> unit soap_result \<times> ('t, 'w) tx_source" where
  "tx_source_rollback drv st =
     (case take_active st of
        (Err e, st') \<Rightarrow> (Err e, st')
      | (Ok t, st') \<Rightarrow>
          (case issue Rollback_Tx (tx_rollback drv t) (tx_world st') of
             (r, w) \<Rightarrow> (map_err (\<lambda>e. map_sqlx_error e ''rollback transaction'') r,
                        st'\<lparr>tx_world := w\<rparr>)))"

definition active :: "'t transaction_state \<Rightarrow> ('t, sqlx_error) result" where
  "active s = (case s of Active t \<Rightarrow> Ok t | Completed \<Rightarrow> Err (Sqlx_Protocol completed_text))"

text \<open>The body of an operation under the lock: the active transaction, then one driver call.\<close>

definition in_transaction ::
  "event \<Rightarrow> ('t \<Rightarrow> 'w \<Rightarrow> ('a, sqlx_error) result \<times> 'w) \<Rightarrow> ('t, 'w) tx_source
     \<Rightarrow> ('a, sqlx_error) result \<times> ('t, 'w) tx_source" where
  "in_transaction ev run st =
     (case active (tx_state st) of
        Err e \<Rightarrow> (Err e, st)
      | Ok t \<Rightarrow> (case issue ev (run t) (tx_world st) of (r, w) \<Rightarrow> (r, st\<lparr>tx_world := w\<rparr>)))"

definition transaction_source ::
  "nat \<Rightarrow> ('t, 'w, 'row) tx_driver \<Rightarrow> (('t, 'w) tx_source, 'row) pg_source" where
  "transaction_source conn drv =
     \<lparr>fetch_all = (\<lambda>stmt arguments.
        in_transaction (Statement conn Fetch_All stmt arguments)
          (\<lambda>t. run_fetch_all (tx_executor drv t) stmt arguments)),
      fetch_optional = (\<lambda>stmt arguments.
        in_transaction (Statement conn Fetch_Optional stmt arguments)
          (\<lambda>t. run_fetch_optional (tx_executor drv t) stmt arguments)),
      fetch_one = (\<lambda>stmt arguments.
        in_transaction (Statement conn Fetch_One stmt arguments)
          (\<lambda>t. run_fetch_one (tx_executor drv t) stmt arguments)),
      apply_sql = (\<lambda>stmt arguments.
        in_transaction (Statement conn Execute stmt arguments)
          (\<lambda>t. run_execute (tx_executor drv t) stmt arguments)),
      apply_one = (\<lambda>stmt arguments.
        in_transaction (Statement conn Fetch_One stmt arguments)
          (\<lambda>t. run_fetch_one (tx_executor drv t) stmt arguments))\<rparr>"

definition tx_trace :: "('t, 'w) tx_source \<Rightarrow> event list" where
  "tx_trace st = issued (tx_world st)"

section \<open>The contract\<close>

lemma sent_once_in_transaction:
  "sent_once tx_trace call stmt arguments st
     (in_transaction (Statement conn call stmt arguments) run st)"
  by (cases "tx_state st")
    (auto simp: sent_once_def in_transaction_def active_def tx_trace_def issue_eq)

interpretation tx: pg_source_contract "transaction_source conn drv" tx_trace for conn drv
  by unfold_locales (simp_all add: transaction_source_def sent_once_in_transaction)

lemma in_transaction_Completed:
  "tx_state st = Completed \<Longrightarrow>
     in_transaction ev run st = (Err (Sqlx_Protocol completed_text), st)"
  by (simp add: in_transaction_def active_def)

lemma in_transaction_state [simp]: "tx_state (snd (in_transaction ev run st)) = tx_state st"
  by (cases "tx_state st") (auto simp: in_transaction_def active_def case_prod_beta)

section \<open>Sequences of operations\<close>

datatype tx_action =
  Tx_Fetch_All string pg_arguments | Tx_Fetch_Optional string pg_arguments
| Tx_Fetch_One string pg_arguments | Tx_Apply string pg_arguments | Tx_Apply_One string pg_arguments
| Tx_Commit | Tx_Rollback

fun tx_do :: "nat \<Rightarrow> ('t, 'w, 'row) tx_driver \<Rightarrow> tx_action \<Rightarrow> ('t, 'w) tx_source \<Rightarrow> ('t, 'w) tx_source"
where
  "tx_do conn drv (Tx_Fetch_All q a) st = snd (fetch_all (transaction_source conn drv) q a st)"
| "tx_do conn drv (Tx_Fetch_Optional q a) st =
     snd (fetch_optional (transaction_source conn drv) q a st)"
| "tx_do conn drv (Tx_Fetch_One q a) st = snd (fetch_one (transaction_source conn drv) q a st)"
| "tx_do conn drv (Tx_Apply q a) st = snd (apply_sql (transaction_source conn drv) q a st)"
| "tx_do conn drv (Tx_Apply_One q a) st = snd (apply_one (transaction_source conn drv) q a st)"
| "tx_do conn drv Tx_Commit st = snd (tx_source_commit drv st)"
| "tx_do conn drv Tx_Rollback st = snd (tx_source_rollback drv st)"

definition tx_run :: "nat \<Rightarrow> ('t, 'w, 'row) tx_driver \<Rightarrow> tx_action list \<Rightarrow> ('t, 'w) tx_source
    \<Rightarrow> ('t, 'w) tx_source" where
  "tx_run conn drv = fold (tx_do conn drv)"

text \<open>The reference: statements up to the first end, then that end, then nothing.\<close>

fun tx_event :: "nat \<Rightarrow> tx_action \<Rightarrow> event" where
  "tx_event conn (Tx_Fetch_All q a) = Statement conn Fetch_All q a"
| "tx_event conn (Tx_Fetch_Optional q a) = Statement conn Fetch_Optional q a"
| "tx_event conn (Tx_Fetch_One q a) = Statement conn Fetch_One q a"
| "tx_event conn (Tx_Apply q a) = Statement conn Execute q a"
| "tx_event conn (Tx_Apply_One q a) = Statement conn Fetch_One q a"
| "tx_event conn Tx_Commit = Commit_Tx"
| "tx_event conn Tx_Rollback = Rollback_Tx"

definition is_end :: "tx_action \<Rightarrow> bool" where
  "is_end a \<longleftrightarrow> a = Tx_Commit \<or> a = Tx_Rollback"

fun tx_expected :: "nat \<Rightarrow> tx_action list \<Rightarrow> event list" where
  "tx_expected conn [] = []"
| "tx_expected conn (a # as) =
     tx_event conn a # (if is_end a then [] else tx_expected conn as)"

lemma tx_do_Completed: "tx_state st = Completed \<Longrightarrow> tx_do conn drv a st = st"
  by (cases a)
    (simp_all add: transaction_source_def in_transaction_Completed tx_source_commit_def
      tx_source_rollback_def take_active_def)

lemma tx_do_Active:
  assumes "tx_state st = Active t"
  shows "tx_trace (tx_do conn drv a st) = tx_trace st @ [tx_event conn a] \<and>
         tx_state (tx_do conn drv a st) = (if is_end a then Completed else Active t)"
  using assms
  by (cases a)
    (simp_all add: transaction_source_def in_transaction_def active_def tx_source_commit_def
      tx_source_rollback_def take_active_def issue_eq tx_trace_def is_end_def)

lemma tx_run_Completed: "tx_state st = Completed \<Longrightarrow> tx_run conn drv as st = st"
  by (induction as) (simp_all add: tx_run_def tx_do_Completed)

lemma tx_run_Active:
  "tx_state st = Active t \<Longrightarrow>
     tx_trace (tx_run conn drv as st) = tx_trace st @ tx_expected conn as \<and>
     (tx_state (tx_run conn drv as st) = Completed \<longleftrightarrow> (\<exists>a \<in> set as. is_end a))"
proof (induction as arbitrary: st t)
  case Nil
  then show ?case by (simp add: tx_run_def)
next
  case (Cons a as)
  note step = tx_do_Active [OF Cons.prems, of conn drv a]
  have run: "tx_run conn drv (a # as) st = tx_run conn drv as (tx_do conn drv a st)"
    by (simp add: tx_run_def)
  show ?case
  proof (cases "is_end a")
    case True
    with step tx_run_Completed [of "tx_do conn drv a st" conn drv as] show ?thesis
      by (simp add: run)
  next
    case False
    with step Cons.IH [of "tx_do conn drv a st" t] show ?thesis by (simp add: run)
  qed
qed

section \<open>Properties\<close>

text \<open>
  C21: a transaction ends once and nothing follows its end.  Whatever operations are requested on
  a freshly begun source, what reaches the driver is the begin, then the statements requested
  before the first commit or rollback, in order and unchanged, then that commit or rollback, and
  nothing after it; the source is completed exactly when an end was requested.
\<close>

theorem transaction_trace_is_exact:
  assumes "tx_source_begin drv w = (Ok st, w')"
  shows "tx_trace (tx_run conn drv as st) = issued w @ Begin_Tx # tx_expected conn as \<and>
         (tx_state (tx_run conn drv as st) = Completed \<longleftrightarrow> (\<exists>a \<in> set as. is_end a))"
proof -
  from assms obtain t where "tx_state st = Active t" "tx_trace st = issued w @ [Begin_Tx]"
    by (auto simp: tx_source_begin_def tx_trace_def issue_eq split: prod.splits result.splits)
  with tx_run_Active [of st t conn drv as] show ?thesis by simp
qed

text \<open>A driver whose world counts calls and that answers everything; used by witnesses.\<close>

definition sample_executor :: "(nat, nat) executor" where
  "sample_executor =
     \<lparr>run_fetch_all = (\<lambda>q a n. (Ok [n], Suc n)), run_fetch_optional = (\<lambda>q a n. (Ok (Some n), Suc n)),
      run_fetch_one = (\<lambda>q a n. (Ok n, Suc n)),
      run_execute = (\<lambda>q a n. (Ok \<lparr>rows_affected = 1\<rparr>, Suc n))\<rparr>"

definition sample_tx_driver :: "(nat, nat, nat) tx_driver" where
  "sample_tx_driver =
     \<lparr>tx_begin = (\<lambda>n. (Ok n, Suc n)), tx_executor = (\<lambda>t. sample_executor),
      tx_commit = (\<lambda>t n. (Err Sqlx_Pool_Closed, Suc n)), tx_rollback = (\<lambda>t n. (Ok (), Suc n))\<rparr>"

theorem transaction_trace_is_exact_witness:
  "tx_trace (tx_run 7 sample_tx_driver [Tx_Apply ''a'' [], Tx_Commit, Tx_Apply ''b'' [], Tx_Rollback]
      \<lparr>tx_state = Active 0, tx_world = \<lparr>db = 1, issued = [Begin_Tx]\<rparr>\<rparr>) =
   [Begin_Tx, Statement 7 Execute ''a'' [], Commit_Tx]"
proof -
  have "tx_source_begin sample_tx_driver \<lparr>db = 0, issued = []\<rparr> =
      (Ok \<lparr>tx_state = Active 0, tx_world = \<lparr>db = 1, issued = [Begin_Tx]\<rparr>\<rparr>,
       \<lparr>db = 1, issued = [Begin_Tx]\<rparr>)"
    by (simp add: tx_source_begin_def issue_def sample_tx_driver_def)
  from transaction_trace_is_exact [OF this] show ?thesis by (simp add: is_end_def)
qed

text \<open>
  A completed source refuses.  Every operation on it fails with the protocol error and leaves
  the world as it was, and a second commit or rollback fails with an infrastructure error and
  leaves it as it was; a first commit or rollback completes the source even when the driver
  reports a failure.
\<close>

theorem completed_transaction_refuses:
  "(tx_state st = Completed \<longrightarrow>
      fetch_all (transaction_source conn drv) q a st = (Err (Sqlx_Protocol completed_text), st) \<and>
      fetch_optional (transaction_source conn drv) q a st = (Err (Sqlx_Protocol completed_text), st) \<and>
      fetch_one (transaction_source conn drv) q a st = (Err (Sqlx_Protocol completed_text), st) \<and>
      apply_sql (transaction_source conn drv) q a st = (Err (Sqlx_Protocol completed_text), st) \<and>
      apply_one (transaction_source conn drv) q a st = (Err (Sqlx_Protocol completed_text), st) \<and>
      tx_source_commit drv st = (Err (err_infrastructure completed_text), st) \<and>
      tx_source_rollback drv st = (Err (err_infrastructure completed_text), st)) \<and>
   tx_state (snd (tx_source_commit drv st)) = Completed \<and>
   tx_state (snd (tx_source_rollback drv st)) = Completed"
  by (cases "tx_state st")
    (simp_all add: transaction_source_def in_transaction_Completed tx_source_commit_def
      tx_source_rollback_def take_active_def case_prod_beta)

theorem completed_transaction_refuses_witness:
  "apply_sql (transaction_source 1 sample_tx_driver) ''x'' []
     \<lparr>tx_state = Completed, tx_world = \<lparr>db = 1, issued = []\<rparr>\<rparr> =
   (Err (Sqlx_Protocol completed_text), \<lparr>tx_state = Completed, tx_world = \<lparr>db = 1, issued = []\<rparr>\<rparr>)"
  using completed_transaction_refuses
    [of "\<lparr>tx_state = Completed, tx_world = \<lparr>db = 1, issued = []\<rparr>\<rparr>" 1 sample_tx_driver] by simp

end
