(* ===== verification/Repository_Properties.thy ===== *)
theory Repository_Properties
  imports Repository_Facts Transaction
begin

text \<open>The properties of the repository's statements and operations, each with its witness.\<close>

section \<open>A sample repository\<close>

text \<open>The mapping and codec of the repository's own unit tests, over a pool that counts calls.\<close>

definition sample_column :: "string \<Rightarrow> pg_scalar_kind \<Rightarrow> pg_field_permissions \<Rightarrow> pg_column" where
  "sample_column s k p = column_new (Pg_Identifier s) k p"

definition sample_mapping :: pg_entity_mapping where
  "sample_mapping =
     \<lparr>table = \<lparr>schema = Some (Pg_Identifier ''app''), table_name = Pg_Identifier ''users''\<rparr>,
      id_field = Field_Name ''id'',
      field_map = \<lparr>columns =
        [Field_Name ''id'' \<mapsto> sample_column ''id'' Kind_Numeric IMMUTABLE,
         Field_Name ''name'' \<mapsto> sample_column ''display_name'' Kind_Text PERSISTED,
         Field_Name ''created_at'' \<mapsto> sample_column ''created_at'' Kind_TimestampTz GENERATED]\<rparr>,
      ordered_fields = [Field_Name ''id'', Field_Name ''name'', Field_Name ''created_at'']\<rparr>"

definition sample_codec :: "(64 word \<times> string, 64 word, nat) pg_entity_codec" where
  "sample_codec =
     \<lparr>mapping = sample_mapping,
      decode = (\<lambda>row. Ok (of_nat row, ''row'')),
      encode_value = (\<lambda>(i, n) f.
        if f = Field_Name ''name'' then Ok (if n = '''' then Pg_Default else Pg_Text n)
        else Err (err_validation ''unknown user field'')),
      id_value = (\<lambda>i. Ok (if i = 0 then Pg_Null else Pg_U64 i)),
      entity_id = fst\<rparr>"

definition sample_repository :: "(nat world, 64 word \<times> string, 64 word, nat) pg_repository" where
  "sample_repository =
     \<lparr>repo_source = pool_source 0 sample_executor, codec = sample_codec,
      compiler = field_map sample_mapping\<rparr>"

definition encodes_all :: encoder where
  "encodes_all a = None"

lemma sample_repository_simps [simp]:
  "repo_source sample_repository = pool_source 0 sample_executor"
  "codec sample_repository = sample_codec" "compiler sample_repository = field_map sample_mapping"
  "mapping sample_codec = sample_mapping" "id_field sample_mapping = Field_Name ''id''"
  "entity_id sample_codec = fst" "encodes_all a = None"
  by (simp_all add: sample_repository_def sample_codec_def sample_mapping_def encodes_all_def)

lemmas permission_defs = PERSISTED_def IMMUTABLE_def GENERATED_def permissions_new_def

lemma sample_columns [simp]:
  "columns (field_map sample_mapping) (Field_Name ''id'') =
     Some (sample_column ''id'' Kind_Numeric IMMUTABLE)"
  "columns (field_map sample_mapping) (Field_Name ''name'') =
     Some (sample_column ''display_name'' Kind_Text PERSISTED)"
  "columns (field_map sample_mapping) (Field_Name ''created_at'') =
     Some (sample_column ''created_at'' Kind_TimestampTz GENERATED)"
  "scalar_kind (sample_column s k p) = k" "permissions (sample_column s k p) = p"
  "column_ident (sample_column s k p) = Pg_Identifier s"
  by (simp_all add: sample_mapping_def sample_column_def column_new_def)

lemma mapping_ok_sample [simp]: "mapping_ok sample_mapping"
  by (auto simp: mapping_ok_def table_ok_def field_map_ok_def sample_mapping_def sample_column_def
      column_new_def ident_ok_def char_class_defs participates_def permission_defs ran_def
      split: if_splits)

lemma sample_fields_matching:
  "fields_matching api sample_mapping P =
     (if P IMMUTABLE then [Field_Name ''id''] else []) @
     (if P PERSISTED then [Field_Name ''name''] else []) @
     (if P GENERATED then [Field_Name ''created_at''] else [])"
proof -
  have "ordered_fields sample_mapping = [Field_Name ''id'', Field_Name ''name'', Field_Name ''created_at'']"
    by (simp add: sample_mapping_def)
  then show ?thesis by (simp add: fields_matching_def resolve_def)
qed

lemma sample_selections [simp]:
  "insertable_fields api sample_mapping = [Field_Name ''id'', Field_Name ''name'']"
  "updatable_fields api sample_mapping = [Field_Name ''name'']"
  "selectable_fields api sample_mapping =
     [Field_Name ''id'', Field_Name ''name'', Field_Name ''created_at'']"
  by (simp_all add: field_selection_defs sample_fields_matching permission_defs)

lemma sample_statement_parts [simp]:
  "matching_columns api sample_mapping selectable =
     [sample_column ''id'' Kind_Numeric IMMUTABLE,
      sample_column ''display_name'' Kind_Text PERSISTED,
      sample_column ''created_at'' Kind_TimestampTz GENERATED]"
  "table_tokens (table sample_mapping) = [T_Ident ''app'', T_Dot, T_Ident ''users'']"
  by (simp_all add: matching_columns_def sample_fields_matching permission_defs)
    (simp_all add: table_tokens_def sample_mapping_def)

lemmas sample_token_defs = insert_tokens_def replace_tokens_def returning_tokens_def
  select_tokens_def identity_tokens_def assignment_tokens_def name_tokens_def place_tokens_def
  cast_tokens_def placeholder_cast_def argument_of_def

lemma sample_plans:
  "plan_cell api sample_repository (i, n) (Field_Name ''name'') =
     Ok (sample_column ''display_name'' Kind_Text PERSISTED,
         if n = '''' then None else Some (Bind_Text n))"
  "plan_identity api sample_repository i =
     (if i = 0 then Err (err_validation null_identifier_text)
      else Ok (sample_column ''id'' Kind_Numeric IMMUTABLE, Bind_Numeric (show_nat (unat i))))"
  "i \<noteq> 0 \<Longrightarrow> plan_cell api sample_repository (i, n) (Field_Name ''id'') =
     Ok (sample_column ''id'' Kind_Numeric IMMUTABLE, Some (Bind_Numeric (show_nat (unat i))))"
  by (simp_all add: plan_cell_def plan_identity_def resolve_def entity_value_def sample_codec_def
      normalize_entity_binding_def value_validate_def bind_pg_value_def)

section \<open>Writes\<close>

text \<open>
  C15: an insert writes exactly the insertable fields.  When it compiles, there is one cell for
  each insertable field, in mapping order, holding the field's column and the codec's value or
  DEFAULT; the text is read back as the insert of exactly these columns and these cells (or as
  DEFAULT VALUES when there are none), with the selectable columns after RETURNING; its
  parameters are 1 to the number of arguments, and the arguments are the bound cells in order.
\<close>

theorem insert_statement_is_exact:
  assumes "mapping_ok (mapping (codec r))"
    and "compile_insert api enc r e returning = Ok (stmt, args)"
  shows "\<exists>cells.
     try_map (plan_cell api r e) (insertable_fields api (mapping (codec r))) = Ok cells \<and>
     map fst cells = matching_columns api (mapping (codec r)) insertable \<and>
     args = map argument_of (cell_binds cells) \<and>
     tokenize stmt = Some (insert_tokens api (mapping (codec r)) cells returning) \<and>
     param_numbers (insert_tokens api (mapping (codec r)) cells returning) =
       [1 ..< Suc (length args)]"
proof -
  let ?m = "mapping (codec r)"
  from assms(2) obtain cells where
    cells: "try_map (plan_cell api r e) (insertable_fields api ?m) = Ok cells"
    and args: "compiled_arguments enc (cell_binds cells) = Ok args"
    and stmt: "stmt = insert_text api ?m cells returning"
    by (auto simp: compile_insert_eq and_then_eq_Ok map_ok_eq_Ok)
  have names: "map fst cells = matching_columns api ?m insertable"
    using plan_cells_columns [OF cells] by (simp add: matching_columns_def insertable_fields_def)
  have "ident_ok (column_ident (fst p))" if "p \<in> set cells" for p
    using that names matching_columns_ok(1) [OF assms(1), of "fst p" api insertable]
    by (metis list.set_map imageI)
  from reads_lex [OF reads_insert [OF assms(1) this]] stmt args cells names show ?thesis
    by (auto simp: compiled_arguments_eq_Ok params_insert)
qed

theorem insert_statement_is_exact_witness:
  "\<exists>stmt args. compile_insert sample_api encodes_all sample_repository (9, '''') True = Ok (stmt, args) \<and>
     args = [Add_String ''9''] \<and>
     tokenize stmt = Some [T_Word ''INSERT'', T_Word ''INTO'', T_Ident ''app'', T_Dot, T_Ident ''users'',
       T_Open, T_Ident ''id'', T_Comma, T_Ident ''display_name'', T_Close, T_Word ''VALUES'',
       T_Open, T_Param 1, T_Cast, T_Word ''numeric'', T_Comma, T_Word ''DEFAULT'', T_Close,
       T_Word ''RETURNING'', T_Ident ''id'', T_Comma, T_Ident ''display_name'', T_Comma,
       T_Ident ''created_at'']"
proof -
  have nine: "show_nat 9 = ''9''" by (simp add: show_nat.simps)
  have ok: "mapping_ok (mapping (codec sample_repository))" by simp
  obtain stmt args where c: "compile_insert sample_api encodes_all sample_repository (9, '''') True = Ok (stmt, args)"
    by (auto simp: compile_insert_eq sample_plans nine compiled_arguments_def into_arguments_def from_bindings_def
        arguments_add_def)
  from insert_statement_is_exact [OF ok c] show ?thesis
    by (auto simp: c sample_plans nine sample_token_defs)
qed

text \<open>
  C16: a replacement writes every updatable field but the identity, and selects by the identity.
  When it compiles, there is one cell for each updatable field other than the identity field, in
  mapping order; the text is read back as the update of exactly these columns, restricted to the
  identity column equal to the last parameter, with the selectable columns after RETURNING; the
  parameters are 1 to the number of arguments; the arguments are the bound cells in order and
  then the identity of the entity, which is neither null nor DEFAULT.
\<close>

theorem replace_statement_is_exact:
  assumes "mapping_ok (mapping (codec r))"
    and "compile_replace api enc r e returning = Ok (stmt, args)"
  shows "\<exists>cells idc b.
     try_map (plan_cell api r e)
       (filter (\<lambda>f. f \<noteq> id_field (mapping (codec r))) (updatable_fields api (mapping (codec r)))) =
       Ok cells \<and>
     cells \<noteq> [] \<and>
     plan_identity api r (entity_id (codec r) e) = Ok (idc, b) \<and>
     args = map argument_of (cell_binds cells @ [b]) \<and>
     tokenize stmt = Some (replace_tokens api (mapping (codec r)) cells idc returning) \<and>
     param_numbers (replace_tokens api (mapping (codec r)) cells idc returning) =
       [1 ..< Suc (length args)]"
proof -
  let ?m = "mapping (codec r)"
  from assms(2) obtain cells idc b where
    nonempty: "replaced_fields api r \<noteq> []"
    and cells: "try_map (plan_cell api r e) (replaced_fields api r) = Ok cells"
    and ident: "plan_identity api r (entity_id (codec r) e) = Ok (idc, b)"
    and args: "compiled_arguments enc (cell_binds cells @ [b]) = Ok args"
    and stmt: "stmt = replace_text api ?m cells idc returning"
    by (auto simp: compile_replace_eq and_then_eq_Ok map_ok_eq_Ok split: if_splits)
  have some: "cells \<noteq> []" using try_map_length [OF cells] nonempty by auto
  have "ident_ok (column_ident (fst p))" if p: "p \<in> set cells" for p
    using try_map_member [OF cells p]
    by (auto dest!: plan_cell_column intro: field_map_okD [OF mapping_okD(2) [OF assms(1)]])
  moreover have "ident_ok (column_ident idc)"
    using ident field_map_okD [OF mapping_okD(2) [OF assms(1)]] by (auto simp: plan_identity_eq_Ok)
  ultimately have "reads stmt (replace_tokens api ?m cells idc returning)"
    using reads_replace [OF assms(1)] stmt by simp
  from reads_lex [OF this] args cells some ident show ?thesis
    by (auto simp: compiled_arguments_eq_Ok params_replace replaced_fields_def Let_def
        simp del: upt_Suc)
qed

theorem replace_statement_is_exact_witness:
  "\<exists>stmt args. compile_replace sample_api encodes_all sample_repository (9, ''Ada'') False = Ok (stmt, args) \<and>
     args = [Add_String ''Ada'', Add_String ''9''] \<and>
     tokenize stmt = Some [T_Word ''UPDATE'', T_Ident ''app'', T_Dot, T_Ident ''users'',
       T_Word ''SET'', T_Ident ''display_name'', T_Op ''='', T_Param 1,
       T_Word ''WHERE'', T_Ident ''id'', T_Op ''='', T_Param 2, T_Cast, T_Word ''numeric'']"
proof -
  have nine: "show_nat 9 = ''9''" by (simp add: show_nat.simps)
  have ok: "mapping_ok (mapping (codec sample_repository))" by simp
  obtain stmt args where
    c: "compile_replace sample_api encodes_all sample_repository (9, ''Ada'') False = Ok (stmt, args)"
    by (auto simp: compile_replace_eq replaced_fields_def sample_plans nine compiled_arguments_def
        into_arguments_def from_bindings_def arguments_add_def)
  from replace_statement_is_exact [OF ok c] show ?thesis
    by (auto simp: c sample_plans nine sample_token_defs)
qed

text \<open>
  C25: an identity is never null and never DEFAULT.  A statement that selects by identity compiles
  only when the codec gives the identity as a proper value; when the codec gives null or DEFAULT,
  reads and removals by identity fail with a validation error and so does every replacement
  that has got as far as its identity.
\<close>

theorem identity_is_never_null:
  assumes "id_value (codec r) i = Ok v" and "v = Pg_Null \<or> v = Pg_Default"
    and "columns (field_map (mapping (codec r))) (id_field (mapping (codec r))) = Some c"
  shows "compiled_id api enc r i = Err (err_validation null_identifier_text) \<and>
         prepare_get api enc r i = Err (err_validation null_identifier_text) \<and>
         prepare_remove api enc r i = Err (err_validation null_identifier_text) \<and>
         (entity_id (codec r) e = i \<longrightarrow> (\<forall>p. compile_replace api enc r e returning \<noteq> Ok p)) \<and>
         (entity_id (codec r) e = i \<longrightarrow> replaced_fields api r \<noteq> [] \<longrightarrow>
            is_ok (try_map (plan_cell api r e) (replaced_fields api r)) \<longrightarrow>
            compile_replace api enc r e returning = Err (err_validation null_identifier_text))"
proof -
  have "plan_identity api r i = Err (err_validation null_identifier_text)"
    using assms by (auto simp: plan_identity_def resolve_def)
  then show ?thesis
    by (auto simp: compiled_id_eq prepare_get_def prepare_remove_def compile_replace_eq
        and_then_eq_Ok is_ok_iff split: if_splits)
qed

theorem identity_is_never_null_witness:
  "prepare_remove sample_api encodes_all sample_repository 0 = Err (err_validation null_identifier_text)"
  using identity_is_never_null [of sample_repository 0 Pg_Null _ sample_api encodes_all]
  by (simp add: sample_codec_def)

lemma bind_pg_value_Err: "bind_pg_value k v = Err e \<Longrightarrow> kind e \<noteq> Unsupported"
  by (cases v) (auto simp: bind_pg_value_def split: pg_scalar_kind.splits)

text \<open>
  C32: a replacement is refused as unsupported exactly when there is nothing to replace, that is
  when no mapped field but the identity is updatable.
\<close>

theorem replace_unsupported_iff:
  assumes "mapping_ok (mapping (codec r))"
    and "\<And>f e'. encode_value (codec r) e f = Err e' \<Longrightarrow> kind e' \<noteq> Unsupported"
    and "\<And>i e'. id_value (codec r) i = Err e' \<Longrightarrow> kind e' \<noteq> Unsupported"
  shows "(\<exists>err. compile_replace api enc r e returning = Err err \<and> kind err = Unsupported) \<longleftrightarrow>
         (\<forall>f c. columns (field_map (mapping (codec r))) f = Some c \<longrightarrow>
            updatable (permissions c) \<longrightarrow> f = id_field (mapping (codec r)))"
proof -
  let ?m = "mapping (codec r)"
  have bind: "kind e' \<noteq> Unsupported" if "normalize_entity_binding k v = Err e'" for k v e'
    using that
    by (auto simp: normalize_entity_binding_def and_then_eq_Err dest: value_validate_Err bind_pg_value_Err)
  have entity: "kind e' \<noteq> Unsupported" if "entity_value r e f = Err e'" for f e'
    using that assms(2,3) by (auto simp: entity_value_def split: if_splits)
  have cell: "kind e' \<noteq> Unsupported" if "plan_cell api r e f = Err e'" for f e'
    using that bind entity
    by (auto simp: plan_cell_def and_then_eq_Err map_ok_eq_Err split: if_splits dest: resolve_Err)
  have ident: "kind e' \<noteq> Unsupported" if "plan_identity api r i = Err e'" for i e'
    using that bind assms(3)
    by (auto simp: plan_identity_def Let_def and_then_eq_Err map_ok_eq_Err split: if_splits
        dest: resolve_Err)
  have args: "kind e' \<noteq> Unsupported" if "compiled_arguments enc bs = Err e'" for bs e'
    using that add_bindings_Err by (auto simp: compiled_arguments_def into_arguments_def)
  have "(\<exists>err. compile_replace api enc r e returning = Err err \<and> kind err = Unsupported) \<longleftrightarrow>
      replaced_fields api r = []"
    using cell ident args
    by (auto simp: compile_replace_eq and_then_eq_Err map_ok_eq_Err dest!: try_map_Err)
  also have "\<dots> \<longleftrightarrow> (\<forall>f c. columns (field_map ?m) f = Some c \<longrightarrow> updatable (permissions c) \<longrightarrow> f = id_field ?m)"
    using mapping_okD(3) [OF assms(1)]
    by (auto simp: replaced_fields_def Let_def filter_empty_conv updatable_fields_def
        set_fields_matching)
  finally show ?thesis .
qed

theorem replace_unsupported_iff_witness:
  "\<not> (\<exists>err. compile_replace sample_api encodes_all sample_repository (0, ''x'') False = Err err \<and>
        kind err = Unsupported)"
proof -
  have "(\<exists>err. compile_replace sample_api encodes_all sample_repository (0, ''x'') False = Err err \<and>
        kind err = Unsupported) \<longleftrightarrow>
      (\<forall>f c. columns (field_map (mapping (codec sample_repository))) f = Some c \<longrightarrow>
        updatable (permissions c) \<longrightarrow> f = id_field (mapping (codec sample_repository)))"
    by (rule replace_unsupported_iff) (auto simp: sample_codec_def split: if_splits)
  moreover have "\<not> (\<forall>f c. columns (field_map sample_mapping) f = Some c \<longrightarrow>
        updatable (permissions c) \<longrightarrow> f = Field_Name ''id'')"
    using sample_columns(2) by (fastforce simp: permission_defs)
  ultimately show ?thesis by simp
qed

section \<open>Reads\<close>

lemma repository_new_fields:
  "repository_new api src cdc = Ok r \<Longrightarrow>
     repo_source r = src \<and> codec r = cdc \<and> compiler r = field_map (mapping cdc) \<and>
     mapping_validate api (mapping cdc) = Ok ()"
  by (auto simp: repository_new_def and_then_eq_Ok)

lemma fragment_tokens:
  assumes "reads start toks"
    and "\<exists>ts. reads (sql q) ts \<and> param_numbers ts = [1 ..< Suc (length (bindings q))] \<and> list_all P ts"
    and "into_sqlx_parts enc q = Ok (sql q, args)"
  shows "\<exists>ts. tokenize (append_fragment start (sql q)) = Some (toks @ ts) \<and>
     param_numbers ts = [1 ..< Suc (length args)] \<and> list_all P ts"
proof -
  have "length args = length (bindings q)"
    using assms(3) by (auto simp: into_sqlx_parts_def and_then_eq_Ok into_arguments_eq_Ok)
  with assms(2) reads_lex [OF reads_fragment [OF assms(1)]] show ?thesis by metis
qed

lemma identity_is_selected:
  assumes "repository_new api src cdc = Ok r" and "mapping_ok (mapping cdc)"
  shows "\<exists>c. columns (field_map (mapping cdc)) (id_field (mapping cdc)) = Some c \<and>
     c \<in> set (matching_columns api (mapping cdc) selectable)"
proof -
  from repository_new_fields [OF assms(1)] have "mapping_validate api (mapping cdc) = Ok ()" by blast
  then obtain c where c: "columns (field_map (mapping cdc)) (id_field (mapping cdc)) = Some c"
    "selectable (permissions c)" by (auto simp: mapping_validate_eq_Ok)
  with mapping_okD(3) [OF assms(2)]
  have "id_field (mapping cdc) \<in> set (fields_matching api (mapping cdc) selectable)"
    by (auto simp: set_fields_matching)
  with c show ?thesis by (force simp: matching_columns_def)
qed

text \<open>
  C17: the read statements are safe and select what the codec decodes.  In a repository that was
  constructed, a find that compiles is read back as SELECT of the selectable columns in mapping
  order (the identity among them) FROM the mapped table, then a tail with parameters 1 to the
  number of arguments, mapped column names and no foreign literal; a count is read back as
  COUNT(*) over the same table with a tail of the same kind.
\<close>

theorem read_statements_are_safe:
  assumes "repository_new api src cdc = Ok r" and "mapping_ok (mapping cdc)"
  shows "(\<forall>params stmt args. prepare_find api enc r params = Ok (stmt, args) \<longrightarrow>
           (\<exists>ts. tokenize stmt = Some (select_tokens api (mapping cdc) @ ts) \<and>
                 param_numbers ts = [1 ..< Suc (length args)] \<and>
                 list_all (harmless (column_names (ran (columns (field_map (mapping cdc)))))) ts)) \<and>
         (\<forall>params stmt args. prepare_count api enc r params = Ok (stmt, args) \<longrightarrow>
           (\<exists>ts. tokenize stmt = Some (count_tokens (mapping cdc) @ ts) \<and>
                 param_numbers ts = [1 ..< Suc (length args)] \<and>
                 list_all (harmless (column_names (ran (columns (field_map (mapping cdc)))))) ts)) \<and>
         (\<exists>c. columns (field_map (mapping cdc)) (id_field (mapping cdc)) = Some c \<and>
              c \<in> set (matching_columns api (mapping cdc) selectable))"
proof (intro conjI allI impI)
  note r = repository_new_fields [OF assms(1)]
  note fields_ok = mapping_okD(2) [OF assms(2)]
  fix params stmt args
  let ?N = "column_names (ran (columns (field_map (mapping cdc))))"
  {
    assume "prepare_find api enc r params = Ok (stmt, args)"
    then obtain q start where q: "compile_find api (field_map (mapping cdc)) params = Ok q"
      and parts: "into_sqlx_parts enc q = Ok (sql q, args)"
      and start: "select_prefix api r = Ok start" and stmt: "stmt = append_fragment start (sql q)"
      using r by (auto simp: prepare_find_def and_then_eq_Ok into_sqlx_parts_def)
    have "reads start (select_tokens api (mapping cdc))"
      using reads_select [OF _ start] r assms(2) by simp
    from fragment_tokens [OF this compiled_find_reads [OF fields_ok q] parts] show
      "\<exists>ts. tokenize stmt = Some (select_tokens api (mapping cdc) @ ts) \<and>
        param_numbers ts = [1 ..< Suc (length args)] \<and> list_all (harmless ?N) ts"
      unfolding stmt .
  next
    assume "prepare_count api enc r params = Ok (stmt, args)"
    then obtain q where q: "compile_count api (field_map (mapping cdc)) params = Ok q"
      and parts: "into_sqlx_parts enc q = Ok (sql q, args)"
      and stmt: "stmt = append_fragment (''SELECT COUNT(*) AS count FROM '' @
                   table_quoted (table (mapping cdc))) (sql q)"
      using r by (auto simp: prepare_count_def and_then_eq_Ok into_sqlx_parts_def)
    from fragment_tokens [OF reads_count_start [OF assms(2)] compiled_count_reads [OF fields_ok q] parts]
    show "\<exists>ts. tokenize stmt = Some (count_tokens (mapping cdc) @ ts) \<and>
        param_numbers ts = [1 ..< Suc (length args)] \<and> list_all (harmless ?N) ts"
      unfolding stmt .
  }
qed (rule identity_is_selected [OF assms])

lemma sample_repository_new:
  "repository_new sample_api (pool_source 0 sample_executor) sample_codec = Ok sample_repository"
proof -
  have "mapping_validate sample_api sample_mapping = Ok ()"
    by (auto simp: mapping_validate_eq_Ok permission_defs) (simp_all add: sample_mapping_def)
  then show ?thesis by (simp add: repository_new_def sample_repository_def)
qed

theorem read_statements_are_safe_witness:
  "\<exists>ts. tokenize (fst (case prepare_find sample_api encodes_all sample_repository
       \<lparr>condition_of = None, sort_keys = [], limit = Some 5, offset = 0\<rparr> of Ok p \<Rightarrow> p)) =
     Some (select_tokens sample_api sample_mapping @ ts) \<and> param_numbers ts = [1]"
proof -
  let ?p = "\<lparr>condition_of = None, sort_keys = [], limit = Some 5, offset = 0\<rparr>"
  obtain stmt args where
    f: "prepare_find sample_api encodes_all sample_repository ?p = Ok (stmt, args)" and
    n: "length args = 1"
    by (simp add: prepare_find_def compile_find_eq plan_find_def plan_where_def plan_order_def
        plan_number_def sample_api_def into_sqlx_parts_def select_prefix_eq into_arguments_def
        render_find_def finish_def add_where_def add_order_def add_number_def arguments_add_def)
  have ok: "mapping_ok (mapping sample_codec)" by simp
  from read_statements_are_safe [OF sample_repository_new ok, of encodes_all] f n
  have "\<exists>ts. tokenize stmt = Some (select_tokens sample_api sample_mapping @ ts) \<and>
      param_numbers ts = [1 ..< Suc (length args)]" by fastforce
  with f n show ?thesis by (simp add: upt_rec)
qed

text \<open>
  Access by identity is exact.  A get compiles to the SELECT of the selectable columns and a
  removal to the DELETE on the mapped table, each restricted to the identity column equal to
  parameter 1, and the only argument is the identity's binding.
\<close>

theorem access_by_identity_is_exact:
  assumes "mapping_ok (mapping (codec r))" and "plan_identity api r i = Ok (c, b)"
    and "enc (argument_of b) = None"
  shows "(\<exists>stmt. prepare_get api enc r i = Ok (stmt, [argument_of b]) \<and>
            tokenize stmt = Some (select_tokens api (mapping (codec r)) @ identity_tokens c)) \<and>
         (\<exists>stmt. prepare_remove api enc r i = Ok (stmt, [argument_of b]) \<and>
            tokenize stmt = Some (delete_tokens (mapping (codec r)) @ identity_tokens c))"
proof -
  have args: "compiled_arguments enc [b] = Ok [argument_of b]"
    using assms(3) by (simp add: compiled_arguments_eq_Ok)
  have c: "ident_ok (column_ident c)"
    using assms(2) field_map_okD [OF mapping_okD(2) [OF assms(1)]] by (auto simp: plan_identity_eq_Ok)
  obtain start where start: "select_prefix api r = Ok start" by (simp add: select_prefix_eq)
  have "reads (''DELETE FROM '' @ table_quoted (table (mapping (codec r))))
      (delete_tokens (mapping (codec r)))"
    unfolding delete_tokens_def
    by (rule reads_any_append [OF reads_statement_words(4) reads_table [OF mapping_okD(1) [OF assms(1)]]])
  from reads_lex [OF reads_identity [OF this c]] reads_lex [OF reads_identity [OF reads_select [OF assms(1) start] c]]
  show ?thesis
    by (simp add: prepare_get_def prepare_remove_def compiled_id_eq assms(2) args start)
qed

theorem access_by_identity_is_exact_witness:
  "\<exists>stmt. prepare_remove sample_api encodes_all sample_repository 7 = Ok (stmt, [Add_String ''7'']) \<and>
     tokenize stmt = Some [T_Word ''DELETE'', T_Word ''FROM'', T_Ident ''app'', T_Dot,
       T_Ident ''users'', T_Word ''WHERE'', T_Ident ''id'', T_Op ''='', T_Param 1, T_Cast,
       T_Word ''numeric'']"
proof -
  have seven: "show_nat 7 = ''7''" by (simp add: show_nat.simps)
  have ok: "mapping_ok (mapping (codec sample_repository))" by simp
  have "plan_identity sample_api sample_repository 7 =
      Ok (sample_column ''id'' Kind_Numeric IMMUTABLE, Bind_Numeric ''7'')"
    by (simp add: sample_plans seven)
  from access_by_identity_is_exact [OF ok this, of encodes_all] show ?thesis
    by (simp add: sample_token_defs delete_tokens_def)
qed

section \<open>Operations\<close>

text \<open>
  C18: every operation sends its one statement, or nothing.  On any source that keeps the contract,
  an operation whose statement cannot be prepared returns that error and leaves the state of the
  source as it was; otherwise the prepared statement and arguments reach the driver exactly once
  and unchanged, reads by a fetch, writes by an execution and returning writes by a fetch of one
  row, or nothing reaches it and the operation fails.
\<close>

theorem operations_send_one_statement:
  assumes "pg_source_contract (repo_source r) trace"
  shows "delivered trace Fetch_All (prepare_find api enc r params) s
           (repository_find api enc r params s) \<and>
         delivered trace Fetch_Optional (prepare_get api enc r i) s
           (repository_get api enc r i s) \<and>
         delivered trace Fetch_One (prepare_count api enc r params) s
           (repository_count api enc get_count r params s) \<and>
         delivered trace Execute (compile_insert api enc r e False) s
           (repository_insert api enc r e s) \<and>
         delivered trace Execute (compile_replace api enc r e False) s
           (repository_replace api enc r e s) \<and>
         delivered trace Execute (prepare_remove api enc r i) s
           (repository_remove api enc r i s) \<and>
         delivered trace Fetch_One (compile_insert api enc r e True) s
           (repository_insert_returning api enc r e s) \<and>
         delivered trace Fetch_One (compile_replace api enc r e True) s
           (repository_replace_returning api enc r e s)"
  unfolding repository_find_def repository_get_def repository_count_def repository_insert_def
    repository_replace_def repository_remove_def repository_insert_returning_def
    repository_replace_returning_def
  by (intro conjI pg_source_contract.source_delivers [OF assms])

theorem operations_send_one_statement_witness:
  "delivered issued Execute (prepare_remove sample_api encodes_all sample_repository 7)
     \<lparr>db = 0, issued = []\<rparr>
     (repository_remove sample_api encodes_all sample_repository 7 \<lparr>db = 0, issued = []\<rparr>)"
proof -
  have "pg_source_contract (repo_source sample_repository) issued"
    by (simp add: pool.pg_source_contract_axioms)
  from operations_send_one_statement [OF this] show ?thesis by blast
qed

text \<open>
  The outcome of a write is the driver's reply.  With the statement prepared, a removal
  reports whether rows were affected, a replacement succeeds when rows were affected and fails
  with Not_Found when none were, an insert succeeds whatever the number; a failure of the driver
  is reported as classified, under the operation's own name.
\<close>

theorem write_outcomes_follow_reply:
  "(prepare_remove api enc r i = Ok (q, a) \<longrightarrow>
      fst (repository_remove api enc r i s) =
        (case fst (apply_sql (repo_source r) q a s) of
           Ok reply \<Rightarrow> Ok (rows_affected reply > 0)
         | Err e' \<Rightarrow> Err (map_sqlx_error e' ''remove entity''))) \<and>
   (compile_replace api enc r e False = Ok (q, a) \<longrightarrow>
      fst (repository_replace api enc r e s) =
        (case fst (apply_sql (repo_source r) q a s) of
           Ok reply \<Rightarrow> if unat (rows_affected reply) = 0
                      then Err (soap_error_new Not_Found ''entity identifier'') else Ok ()
         | Err e' \<Rightarrow> Err (map_sqlx_error e' ''replace entity''))) \<and>
   (compile_insert api enc r e False = Ok (q, a) \<longrightarrow>
      fst (repository_insert api enc r e s) =
        (case fst (apply_sql (repo_source r) q a s) of
           Ok reply \<Rightarrow> Ok ()
         | Err e' \<Rightarrow> Err (map_sqlx_error e' ''insert entity'')))"
  by (auto simp: repository_remove_def repository_replace_def repository_insert_def unat_eq_0
      split: result.split)

theorem write_outcomes_follow_reply_witness:
  "fst (repository_remove sample_api encodes_all sample_repository 7 \<lparr>db = 0, issued = []\<rparr>) = Ok True"
proof -
  obtain q a where "prepare_remove sample_api encodes_all sample_repository 7 = Ok (q, a)"
    by (simp add: prepare_remove_def compiled_id_eq sample_plans compiled_arguments_def
        into_arguments_def from_bindings_def arguments_add_def)
  with write_outcomes_follow_reply [of sample_api encodes_all sample_repository 7 q a] show ?thesis
    by (simp add: pool_source_def issue_eq sample_executor_def)
qed

text \<open>
  C33: a count is exact or refused.  The 64-bit count column of the row, read as a signed integer,
  is returned unchanged as an unsigned one when it is not negative; a negative one is an
  infrastructure error; an unreadable column is the classified driver error.
\<close>

theorem count_conversion_is_exact:
  "(\<forall>n. get_count row = Ok n \<longrightarrow> sint n \<ge> 0 \<longrightarrow>
      (\<exists>u. count_of_row get_count row = Ok u \<and> uint u = sint n)) \<and>
   (\<forall>n. get_count row = Ok n \<longrightarrow> sint n < 0 \<longrightarrow>
      count_of_row get_count row = Err (err_infrastructure ''PostgreSQL returned a negative count'')) \<and>
   (\<forall>e. get_count row = Err e \<longrightarrow>
      count_of_row get_count row = Err (map_sqlx_error e ''decode entity count''))"
  by (auto simp: count_of_row_def u64_try_from_i64_def uint_eq_sint)

theorem count_conversion_is_exact_witness:
  "count_of_row (\<lambda>row. Ok (- 1)) () = Err (err_infrastructure ''PostgreSQL returned a negative count'')"
  using count_conversion_is_exact [of "\<lambda>row. Ok (- 1)" "()"] by simp

text \<open>
  Rows are decoded in order and all or nothing.  A find whose rows arrived returns the
  decoded rows, one for each, in the order of the rows, when the codec decodes all of them; if
  the codec fails on some row the find fails with the error of the first such row.
\<close>

theorem find_decodes_in_order:
  assumes "prepare_find api enc r params = Ok (q, a)"
    and "fst (fetch_all (repo_source r) q a s) = Ok rows"
  shows "(\<forall>es. fst (repository_find api enc r params s) = Ok es \<longleftrightarrow>
            list_all2 (\<lambda>row e. decode (codec r) row = Ok e) rows es) \<and>
         (\<forall>err. fst (repository_find api enc r params s) = Err err \<longleftrightarrow>
            (\<exists>before row after. rows = before @ row # after \<and> decode (codec r) row = Err err \<and>
               (\<forall>x \<in> set before. is_ok (decode (codec r) x))))"
  using assms by (simp add: repository_find_def try_map_Ok_iff try_map_Err_iff)

theorem find_decodes_in_order_witness:
  "\<exists>params. fst (repository_find sample_api encodes_all sample_repository params
     \<lparr>db = 5, issued = []\<rparr>) = Ok [(5, ''row'')]"
proof -
  let ?p = "\<lparr>condition_of = None, sort_keys = [], limit = None, offset = 0\<rparr>"
  obtain q a where f: "prepare_find sample_api encodes_all sample_repository ?p = Ok (q, a)"
    by (simp add: prepare_find_def compile_find_eq plan_find_def plan_where_def plan_order_def
        plan_number_def sample_api_def into_sqlx_parts_def select_prefix_eq into_arguments_def
        render_find_def finish_def add_where_def add_order_def add_number_def)
  have "fst (fetch_all (repo_source sample_repository) q a \<lparr>db = 5, issued = []\<rparr>) = Ok [5]"
    by (simp add: pool_source_def issue_eq sample_executor_def)
  from find_decodes_in_order [OF f this] show ?thesis
    by (auto simp: sample_codec_def intro!: exI [of _ ?p])
qed

end
