(* ===== verification/Router.thy ===== *)
theory Router
  imports Source
begin

text \<open>
  \<open>src/postgres/router.rs\<close>: reads round-robin over the replicas, writes go to the primary.  The
  counter is the \<open>AtomicUsize\<close> of the source, a 64-bit word (\<open>usize\<close> on a 64-bit target) whose
  \<open>fetch_add\<close> wraps; one atomic
  step chooses the replica, so any interleaving of concurrent reads is a sequence of choices.
\<close>

record ('s, 'row) pg_router =
  primary :: "('s, 'row) pg_source"
  replicas :: "('s, 'row) pg_source list"

record 's router_state =
  next_replica :: "64 word"
  inner :: 's

definition router_new :: "'s \<Rightarrow> 's router_state" where
  "router_new s = \<lparr>next_replica = 0, inner = s\<rparr>"

definition read_source ::
  "('s, 'row) pg_router \<Rightarrow> 64 word \<Rightarrow> ('s, 'row) pg_source \<times> 64 word" where
  "read_source router counter =
     (if replicas router = [] then (primary router, counter)
      else
        (let index = unat counter mod length (replicas router)
         in (replicas router ! index, counter + 1)))"

definition through_read ::
  "('s, 'row) pg_router \<Rightarrow> (('s, 'row) pg_source \<Rightarrow> 's \<Rightarrow> 'a \<times> 's) \<Rightarrow> 's router_state
     \<Rightarrow> 'a \<times> 's router_state" where
  "through_read router op st =
     (case read_source router (next_replica st) of
        (src, counter) \<Rightarrow>
          (case op src (inner st) of (r, s) \<Rightarrow> (r, \<lparr>next_replica = counter, inner = s\<rparr>)))"

definition through_primary ::
  "('s, 'row) pg_router \<Rightarrow> (('s, 'row) pg_source \<Rightarrow> 's \<Rightarrow> 'a \<times> 's) \<Rightarrow> 's router_state
     \<Rightarrow> 'a \<times> 's router_state" where
  "through_primary router op st =
     (case op (primary router) (inner st) of (r, s) \<Rightarrow> (r, st\<lparr>inner := s\<rparr>))"

definition router_source :: "('s, 'row) pg_router \<Rightarrow> ('s router_state, 'row) pg_source" where
  "router_source router =
     \<lparr>fetch_all = (\<lambda>stmt arguments. through_read router (\<lambda>src. fetch_all src stmt arguments)),
      fetch_optional = (\<lambda>stmt arguments.
        through_read router (\<lambda>src. fetch_optional src stmt arguments)),
      fetch_one = (\<lambda>stmt arguments. through_read router (\<lambda>src. fetch_one src stmt arguments)),
      apply_sql = (\<lambda>stmt arguments. through_primary router (\<lambda>src. apply_sql src stmt arguments)),
      apply_one = (\<lambda>stmt arguments. through_primary router (\<lambda>src. apply_one src stmt arguments))\<rparr>"

section \<open>The contract is kept\<close>

lemma read_source_member: "fst (read_source router c) \<in> insert (primary router) (set (replicas router))"
  by (auto simp: read_source_def Let_def)

locale routed_sources =
  fixes router :: "('s, 'row) pg_router"
    and trace :: "'s \<Rightarrow> event list"
  assumes primary_contract: "pg_source_contract (primary router) trace"
    and replica_contract: "src \<in> set (replicas router) \<Longrightarrow> pg_source_contract src trace"
begin

lemma chosen_contract: "pg_source_contract (fst (read_source router c)) trace"
  using read_source_member [of router c] primary_contract replica_contract by auto

lemma through_read_once:
  assumes "\<And>src s. pg_source_contract src trace \<Longrightarrow> sent_once trace call stmt arguments s (op src s)"
  shows "sent_once (trace \<circ> inner) call stmt arguments st (through_read router op st)"
  using assms [OF chosen_contract [of "next_replica st"], of "inner st"]
  by (simp add: sent_once_def through_read_def case_prod_beta)

lemma through_primary_once:
  assumes "\<And>src s. pg_source_contract src trace \<Longrightarrow> sent_once trace call stmt arguments s (op src s)"
  shows "sent_once (trace \<circ> inner) call stmt arguments st (through_primary router op st)"
  using assms [OF primary_contract, of "inner st"]
  by (simp add: sent_once_def through_primary_def case_prod_beta)

end

sublocale routed_sources \<subseteq> routed: pg_source_contract "router_source router" "trace \<circ> inner"
  by unfold_locales
    (auto simp: router_source_def
      intro!: through_read_once through_primary_once pg_source_contract.source_once)

text \<open>A router over pools: the primary on endpoint 0, the replicas on 1, 2, and so on.\<close>

definition pool_router ::
  "('w, 'row) executor \<Rightarrow> ('w, 'row) executor list \<Rightarrow> ('w world, 'row) pg_router" where
  "pool_router main others =
     \<lparr>primary = pool_source 0 main,
      replicas = map (\<lambda>(i, p). pool_source i p) (enumerate 1 others)\<rparr>"

interpretation pools: routed_sources "pool_router main others" issued for main others
  by (rule routed_sources.intro) (auto simp: pool_router_def pool.pg_source_contract_axioms)

section \<open>Sequences of operations\<close>

datatype operation =
  Do_Fetch_All string pg_arguments | Do_Fetch_Optional string pg_arguments
| Do_Fetch_One string pg_arguments | Do_Apply string pg_arguments | Do_Apply_One string pg_arguments

datatype 'row reply =
  Rows "('row list, sqlx_error) result" | Maybe_Row "('row option, sqlx_error) result"
| One_Row "('row, sqlx_error) result" | Applied "(pg_query_result, sqlx_error) result"

fun perform :: "('s, 'row) pg_source \<Rightarrow> operation \<Rightarrow> 's \<Rightarrow> 'row reply \<times> 's" where
  "perform src (Do_Fetch_All q a) s = apfst Rows (fetch_all src q a s)"
| "perform src (Do_Fetch_Optional q a) s = apfst Maybe_Row (fetch_optional src q a s)"
| "perform src (Do_Fetch_One q a) s = apfst One_Row (fetch_one src q a s)"
| "perform src (Do_Apply q a) s = apfst Applied (apply_sql src q a s)"
| "perform src (Do_Apply_One q a) s = apfst One_Row (apply_one src q a s)"

fun perform_all :: "('s, 'row) pg_source \<Rightarrow> operation list \<Rightarrow> 's \<Rightarrow> 'row reply list \<times> 's" where
  "perform_all src [] s = ([], s)"
| "perform_all src (p # ps) s =
     (case perform src p s of (r, s1) \<Rightarrow>
      case perform_all src ps s1 of (rs, s2) \<Rightarrow> (r # rs, s2))"

fun is_write :: "operation \<Rightarrow> bool" where
  "is_write (Do_Apply q a) = True"
| "is_write (Do_Apply_One q a) = True"
| "is_write _ = False"

text \<open>The reference: which source serves each operation, for the number of reads done so far.\<close>

datatype target = Primary | Replica nat

fun targets :: "nat \<Rightarrow> nat \<Rightarrow> operation list \<Rightarrow> target list" where
  "targets n reads [] = []"
| "targets n reads (p # ps) =
     (if is_write p \<or> n = 0 then Primary # targets n reads ps
      else Replica (reads mod 2 ^ 64 mod n) # targets n (Suc reads) ps)"

definition target_source :: "('s, 'row) pg_router \<Rightarrow> target \<Rightarrow> ('s, 'row) pg_source" where
  "target_source router t = (case t of Primary \<Rightarrow> primary router | Replica i \<Rightarrow> replicas router ! i)"

fun perform_on ::
  "('s, 'row) pg_router \<Rightarrow> (target \<times> operation) list \<Rightarrow> 's \<Rightarrow> 'row reply list \<times> 's" where
  "perform_on router [] s = ([], s)"
| "perform_on router ((t, p) # tps) s =
     (case perform (target_source router t) p s of (r, s1) \<Rightarrow>
      case perform_on router tps s1 of (rs, s2) \<Rightarrow> (r # rs, s2))"

definition reads_in :: "operation list \<Rightarrow> nat" where
  "reads_in ps = length (filter (\<lambda>p. \<not> is_write p) ps)"

lemma perform_router_write:
  "is_write p \<Longrightarrow> perform (router_source router) p st =
     (case perform (primary router) p (inner st) of (r, s) \<Rightarrow> (r, st\<lparr>inner := s\<rparr>))"
  by (cases p) (simp_all add: router_source_def through_primary_def apfst_def map_prod_def
      case_prod_beta)

lemma perform_router_read:
  "\<not> is_write p \<Longrightarrow> perform (router_source router) p st =
     (case perform (fst (read_source router (next_replica st))) p (inner st) of
        (r, s) \<Rightarrow> (r, \<lparr>next_replica = snd (read_source router (next_replica st)), inner = s\<rparr>))"
  by (cases p) (simp_all add: router_source_def through_read_def apfst_def map_prod_def
      case_prod_beta)

lemma unat_succ_mod: "unat (c + 1 :: 64 word) = Suc (unat c) mod 2 ^ 64"
  by (simp add: unat_word_ariths)

lemma perform_all_router:
  assumes "unat (next_replica st) = reads mod 2 ^ 64"
  shows "perform_all (router_source router) ps st =
    (let (rs, s) = perform_on router (zip (targets (length (replicas router)) reads ps) ps) (inner st)
     in (rs, \<lparr>next_replica =
           (if replicas router = [] then next_replica st
            else next_replica st + of_nat (reads_in ps)),
         inner = s\<rparr>))"
  using assms
proof (induction ps arbitrary: st reads)
  case Nil
  then show ?case by (simp add: reads_in_def)
next
  case (Cons p ps)
  let ?n = "length (replicas router)"
  show ?case
  proof (cases "is_write p \<or> ?n = 0")
    case True
    then have src: "perform (router_source router) p st =
        (case perform (primary router) p (inner st) of (r, s) \<Rightarrow> (r, st\<lparr>inner := s\<rparr>))"
      using perform_router_write [of p router st] perform_router_read [of p router st]
      by (cases "is_write p") (auto simp: read_source_def split: prod.splits)
    show ?thesis
      using True Cons.prems Cons.IH [of "st\<lparr>inner := snd (perform (primary router) p (inner st))\<rparr>" reads]
      by (auto simp: src target_source_def reads_in_def case_prod_beta Let_def)
  next
    case False
    then have src: "perform (router_source router) p st =
        (case perform (replicas router ! (reads mod 2 ^ 64 mod ?n)) p (inner st) of
           (r, s) \<Rightarrow> (r, \<lparr>next_replica = next_replica st + 1, inner = s\<rparr>))"
      using perform_router_read [of p router st] Cons.prems
      by (simp add: read_source_def Let_def)
    let ?s1 = "snd (perform (replicas router ! (reads mod 2 ^ 64 mod ?n)) p (inner st))"
    have "unat (next_replica st + 1) = Suc reads mod 2 ^ 64"
      using Cons.prems by (simp add: unat_succ_mod mod_Suc_eq)
    then show ?thesis
      using False Cons.IH [of "\<lparr>next_replica = next_replica st + 1, inner = ?s1\<rparr>" "Suc reads"]
      by (auto simp: src target_source_def reads_in_def case_prod_beta Let_def)
  qed
qed

lemma length_targets [simp]: "length (targets n reads ps) = length ps"
  by (induction ps arbitrary: reads) auto

lemma targets_replicas:
  assumes "n > 0"
  shows "filter (\<lambda>t. t \<noteq> Primary) (targets n reads ps) =
     map (\<lambda>r. Replica (r mod 2 ^ 64 mod n)) [reads ..< reads + reads_in ps]"
proof (induction ps arbitrary: reads)
  case (Cons p ps)
  then show ?case
    using assms by (auto simp: reads_in_def upt_conv_Cons simp del: upt_Suc)
qed (simp add: reads_in_def)

text \<open>Any \<open>n\<close> consecutive numbers have each remainder once.\<close>

lemma count_list_distinct: "distinct xs \<Longrightarrow> count_list xs x = (if x \<in> set xs then 1 else 0)"
  by (induction xs) auto

lemma remainders_once:
  assumes "i < n"
  shows "count_list (map (\<lambda>r. r mod n) [a ..< a + n]) i = 1"
proof -
  let ?xs = "map (\<lambda>r. r mod n) [a ..< a + n]"
  have inj: "inj_on (\<lambda>r. r mod n) {a ..< a + n}"
  proof (rule inj_onI)
    fix x y assume xy: "x \<in> {a ..< a + n}" "y \<in> {a ..< a + n}" "x mod n = y mod n"
    show "x = y"
    proof (rule ccontr)
      assume "x \<noteq> y"
      with xy consider "x < y" "y - x < n" | "y < x" "x - y < n" by fastforce
      then show False
      proof cases
        case 1
        with xy(3) have "n dvd y - x" by (metis mod_eq_dvd_iff_nat less_imp_le)
        with 1 show False by (auto dest: dvd_imp_le)
      next
        case 2
        with xy(3) have "n dvd x - y" by (metis mod_eq_dvd_iff_nat less_imp_le)
        with 2 show False by (auto dest: dvd_imp_le)
      qed
    qed
  qed
  then have d: "distinct ?xs" by (simp add: distinct_map)
  have "set ?xs \<subseteq> {..<n}" using assms by auto
  moreover have "card (set ?xs) = card {..<n}" using d distinct_card by fastforce
  ultimately have "set ?xs = {..<n}" by (intro card_subset_eq) simp_all
  with d assms show ?thesis by (simp add: count_list_distinct)
qed

lemma remainders_even:
  "i < n \<Longrightarrow> count_list (map (\<lambda>r. r mod n) [a ..< a + q * n]) i = q"
proof (induction q arbitrary: a)
  case (Suc q)
  have "[a ..< a + Suc q * n] = [a ..< a + n] @ [a + n ..< (a + n) + q * n]"
    using upt_add_eq_append [of a "a + n" "q * n"] by (simp add: add.assoc)
  then have "count_list (map (\<lambda>r. r mod n) [a ..< a + Suc q * n]) i =
      count_list (map (\<lambda>r. r mod n) [a ..< a + n]) i +
      count_list (map (\<lambda>r. r mod n) [a + n ..< (a + n) + q * n]) i"
    by (simp del: upt_Suc)
  with Suc.IH [OF Suc.prems, of "a + n"] remainders_once [OF Suc.prems, of a] show ?case by simp
qed simp

lemma count_list_filter: "P x \<Longrightarrow> count_list (filter P xs) x = count_list xs x"
  by (induction xs) auto

lemma count_list_map_inj: "inj f \<Longrightarrow> count_list (map f xs) (f x) = count_list xs x"
  by (induction xs) (auto dest: injD)

lemma inj_Replica: "inj Replica"
  by (simp add: inj_def)

section \<open>What reaches the driver\<close>

fun event_on :: "nat \<Rightarrow> operation \<Rightarrow> event" where
  "event_on n (Do_Fetch_All q a) = Statement n Fetch_All q a"
| "event_on n (Do_Fetch_Optional q a) = Statement n Fetch_Optional q a"
| "event_on n (Do_Fetch_One q a) = Statement n Fetch_One q a"
| "event_on n (Do_Apply q a) = Statement n Execute q a"
| "event_on n (Do_Apply_One q a) = Statement n Fetch_One q a"

fun endpoint_of :: "target \<Rightarrow> nat" where
  "endpoint_of Primary = 0"
| "endpoint_of (Replica i) = Suc i"

lemma perform_pool: "issued (snd (perform (pool_source n ex) p w)) = issued w @ [event_on n p]"
  by (cases p) (simp_all add: pool_source_def issue_eq)

lemma target_pool:
  assumes "t = Primary \<or> (\<exists>i < length others. t = Replica i)"
  shows "\<exists>ex. target_source (pool_router main others) t = pool_source (endpoint_of t) ex"
  using assms by (auto simp: target_source_def pool_router_def nth_enumerate_eq)

lemma targets_valid:
  "t \<in> set (targets n k ps) \<Longrightarrow> t = Primary \<or> (\<exists>i < n. t = Replica i)"
  by (induction n k ps rule: targets.induct) (auto split: if_splits)

lemma perform_on_pools:
  assumes "\<And>t. t \<in> set ts \<Longrightarrow> t = Primary \<or> (\<exists>i < length others. t = Replica i)"
    and "length ts = length ps"
  shows "issued (snd (perform_on (pool_router main others) (zip ts ps) w)) =
     issued w @ map2 (\<lambda>t p. event_on (endpoint_of t) p) ts ps"
  using assms(2,1)
proof (induction ts ps arbitrary: w rule: list_induct2)
  case (Cons t ts p ps)
  from target_pool [of t others main] Cons.prems obtain ex where
    ex: "target_source (pool_router main others) t = pool_source (endpoint_of t) ex"
    by (metis list.set_intros(1))
  have rest: "issued (snd (perform_on (pool_router main others) (zip ts ps) v)) =
      issued v @ map2 (\<lambda>t p. event_on (endpoint_of t) p) ts ps" for v
    by (rule Cons.IH) (rule Cons.prems, simp)
  show ?case by (simp add: case_prod_beta ex rest perform_pool)
qed simp

fun event_endpoint :: "event \<Rightarrow> nat option" where
  "event_endpoint (Statement n call q a) = Some n"
| "event_endpoint _ = None"

lemma event_endpoint_on [simp]: "event_endpoint (event_on n p) = Some n"
  by (cases p) simp_all

text \<open>The router over pools, started anywhere in the rotation.\<close>

lemma pool_router_sends:
  "issued (inner (snd (perform_all (router_source (pool_router main others)) ps st))) =
     issued (inner st) @ map2 (\<lambda>t p. event_on (endpoint_of t) p)
       (targets (length others) (unat (next_replica st)) ps) ps"
proof -
  have n: "length (replicas (pool_router main others)) = length others"
    by (simp add: pool_router_def)
  have "unat (next_replica st) < 2 ^ LENGTH(64)" by (rule unsigned_less)
  then have start: "unat (next_replica st) = unat (next_replica st) mod 2 ^ 64" by simp
  let ?ts = "targets (length others) (unat (next_replica st)) ps"
  have "inner (snd (perform_all (router_source (pool_router main others)) ps st)) =
      snd (perform_on (pool_router main others) (zip ?ts ps) (inner st))"
    using perform_all_router [OF start, of "pool_router main others" ps] n
    by (simp add: case_prod_beta Let_def)
  moreover have "issued (snd (perform_on (pool_router main others) (zip ?ts ps) (inner st))) =
      issued (inner st) @ map2 (\<lambda>t p. event_on (endpoint_of t) p) ?ts ps"
    by (rule perform_on_pools) (erule targets_valid, simp)
  ultimately show ?thesis by simp
qed

text \<open>How many events reach a replica: as many as the rotation chooses it.\<close>

lemma count_endpoint:
  "length ts = length ps \<Longrightarrow>
     length (filter (\<lambda>e. event_endpoint e = Some (Suc i)) (map2 (\<lambda>t p. event_on (endpoint_of t) p) ts ps)) =
     count_list ts (Replica i)"
proof (induction ts ps rule: list_induct2)
  case (Cons t ts p ps)
  then show ?case by (cases t) auto
qed simp

lemma count_list_length: "count_list xs x = length (filter (\<lambda>y. y = x) xs)"
  by (induction xs) auto

lemma count_targets:
  assumes "n > 0"
  shows "count_list (targets n start ps) (Replica i) =
     length (filter (\<lambda>r. r mod 2 ^ 64 mod n = i) [start ..< start + reads_in ps])"
proof -
  have "count_list (targets n start ps) (Replica i) =
      count_list (filter (\<lambda>t. t \<noteq> Primary) (targets n start ps)) (Replica i)"
    by (simp add: count_list_filter)
  also have "\<dots> = length (filter (\<lambda>r. r mod 2 ^ 64 mod n = i) [start ..< start + reads_in ps])"
    unfolding targets_replicas [OF assms] count_list_length by (simp add: filter_map o_def)
  finally show ?thesis .
qed

text \<open>Any run of consecutive numbers has each remainder equally often, up to one.\<close>

lemma remainders_balanced:
  assumes "i < n"
  shows "length (filter (\<lambda>r. r mod n = i) [a ..< a + m]) \<le> m div n + 1"
    and "m div n \<le> length (filter (\<lambda>r. r mod n = i) [a ..< a + m])"
proof -
  let ?count = "\<lambda>xs. length (filter (\<lambda>r. r mod n = i) xs)"
  have as_list: "?count xs = count_list (map (\<lambda>r. r mod n) xs) i" for xs
    unfolding count_list_length by (simp add: filter_map o_def)
  let ?b = "a + m div n * n"
  have m: "a + m = ?b + m mod n" by simp
  have "?b \<le> a + m" by simp
  then have "[a ..< a + m] = [a ..< ?b] @ [?b ..< ?b + m mod n]"
    using upt_add_eq_append [of a ?b "m mod n"] m by (simp only: le_add1)
  then have split: "?count [a ..< a + m] = m div n + ?count [?b ..< ?b + m mod n]"
    using remainders_even [OF assms, of a "m div n"] by (simp add: as_list)
  have "[b ..< b + n] = [b ..< b + s] @ [b + s ..< b + n]" if "s < n" for b s
    using upt_add_eq_append [of b "b + s" "n - s"] that by simp
  from this [of "m mod n" ?b] assms
  have "[?b ..< ?b + n] = [?b ..< ?b + m mod n] @ [?b + m mod n ..< ?b + n]" by simp
  moreover have "?count [?b ..< ?b + n] = 1"
    using remainders_once [OF assms, of ?b] by (simp add: as_list)
  ultimately have "?count [?b ..< ?b + m mod n] \<le> 1" by simp
  then show "?count [a ..< a + m] \<le> m div n + 1" "m div n \<le> ?count [a ..< a + m]"
    unfolding split by linarith+
qed

text \<open>A driver that returns nothing, for the examples.\<close>

definition calm :: "(unit, nat) executor" where
  "calm = \<lparr>run_fetch_all = (\<lambda>q a d. (Ok [], d)), run_fetch_optional = (\<lambda>q a d. (Ok None, d)),
     run_fetch_one = (\<lambda>q a d. (Err Sqlx_Row_Not_Found, d)),
     run_execute = (\<lambda>q a d. (Ok \<lparr>rows_affected = 1\<rparr>, d))\<rparr>"

lemma targets_place:
  "n > 0 \<Longrightarrow> k < length ps \<Longrightarrow>
     (if is_write (ps ! k) then targets n reads ps ! k = Primary
      else (\<exists>i < n. targets n reads ps ! k = Replica i))"
proof (induction ps arbitrary: reads k)
  case (Cons p ps)
  then show ?case by (cases k) auto
qed simp

section \<open>Properties\<close>

text \<open>
  C23: the router is its routing table.  Running any sequence of operations through a new router
  gives the same replies and the same world as running each operation directly on its target:
  every write on the primary, the k-th read on replica k mod 2^64 mod n, everything on the
  primary when there are no replicas.
\<close>

theorem router_follows_targets:
  "perform_all (router_source router) ps (router_new s) =
    (let (rs, s') = perform_on router (zip (targets (length (replicas router)) 0 ps) ps) s
     in (rs, \<lparr>next_replica = (if replicas router = [] then 0 else of_nat (reads_in ps)),
              inner = s'\<rparr>))"
  using perform_all_router [of "router_new s" 0 router ps] by (simp add: router_new_def)

text \<open>
  C24: round robin is fair.  A router over a primary pool and n > 0 replica pools, wherever its
  rotation stands, sends each operation of a sequence once and in order: writes to the primary's
  endpoint, reads to replicas.  Replica i receives as many reads as there are counter values,
  from the present one on and modulo 2^64, with remainder i modulo n; so as long as the counter does
  not wrap, each replica receives the number of reads divided by n, or one more, and exactly that
  number when n divides it.
\<close>

theorem round_robin_is_fair:
  assumes "others \<noteq> []"
  shows "\<exists>new. issued (inner (snd (perform_all (router_source (pool_router main others)) ps st))) =
       issued (inner st) @ new \<and>
     list_all2 (\<lambda>e p. if is_write p then e = event_on 0 p
       else (\<exists>i < length others. e = event_on (Suc i) p)) new ps \<and>
     (\<forall>i < length others.
        (let served = length (filter (\<lambda>e. event_endpoint e = Some (Suc i)) new);
             start = unat (next_replica st)
         in served = length (filter (\<lambda>r. r mod 2 ^ 64 mod length others = i) [start ..< start + reads_in ps]) \<and>
            (start + reads_in ps \<le> 2 ^ 64 \<longrightarrow>
               reads_in ps div length others \<le> served \<and> served \<le> reads_in ps div length others + 1 \<and>
               (length others dvd reads_in ps \<longrightarrow> served = reads_in ps div length others))))"
proof -
  let ?n = "length others" and ?start = "unat (next_replica st)"
  let ?ts = "targets ?n ?start ps"
  let ?new = "map2 (\<lambda>t p. event_on (endpoint_of t) p) ?ts ps"
  have n: "?n > 0" using assms by simp
  have places: "list_all2 (\<lambda>e p. if is_write p then e = event_on 0 p
      else (\<exists>i < ?n. e = event_on (Suc i) p)) ?new ps"
    unfolding list_all2_conv_all_nth
  proof (intro conjI allI impI)
    fix k
    assume "k < length ?new"
    then have k: "k < length ps" by simp
    show "if is_write (ps ! k) then ?new ! k = event_on 0 (ps ! k)
      else (\<exists>i < ?n. ?new ! k = event_on (Suc i) (ps ! k))"
      using targets_place [OF n k, of ?start] k by (auto split: if_splits)
  qed simp
  have served: "length (filter (\<lambda>e. event_endpoint e = Some (Suc i)) ?new) =
      length (filter (\<lambda>r. r mod 2 ^ 64 mod ?n = i) [?start ..< ?start + reads_in ps])" for i
    using count_endpoint [of ?ts ps i] count_targets [OF n, of ?start ps i] by simp
  have fair: "reads_in ps div ?n \<le> c \<and> c \<le> reads_in ps div ?n + 1 \<and>
      (?n dvd reads_in ps \<longrightarrow> c = reads_in ps div ?n)"
    if i: "i < ?n" and small: "?start + reads_in ps \<le> 2 ^ 64"
      and c: "c = length (filter (\<lambda>r. r mod 2 ^ 64 mod ?n = i) [?start ..< ?start + reads_in ps])" for i c
  proof -
    have "filter (\<lambda>r. r mod 2 ^ 64 mod ?n = i) [?start ..< ?start + reads_in ps] =
        filter (\<lambda>r. r mod ?n = i) [?start ..< ?start + reads_in ps]"
      by (rule filter_cong) (use small in simp_all)
    with c have c: "c = length (filter (\<lambda>r. r mod ?n = i) [?start ..< ?start + reads_in ps])" by simp
    have "c = reads_in ps div ?n" if "?n dvd reads_in ps"
      using remainders_even [OF i, of ?start "reads_in ps div ?n"] that
      by (simp add: c count_list_length filter_map o_def)
    with remainders_balanced [OF i] show ?thesis unfolding c by blast
  qed
  show ?thesis
    by (intro exI [of _ ?new] conjI pool_router_sends places allI impI)
      (simp only: Let_def served, use fair in blast)
qed

text \<open>
  The rotation evens out over any three reads; but with three replicas, and a counter about to wrap,
  the first replica serves two reads in a row, since 3 does not divide 2^64.
\<close>

theorem round_robin_is_fair_witness:
  "(\<exists>new. length (filter (\<lambda>e. event_endpoint e = Some 2) new) = 1 \<and>
      issued (inner (snd (perform_all (router_source (pool_router calm [calm, calm]))
        [Do_Fetch_All ''a'' [], Do_Apply ''w'' [], Do_Fetch_One ''b'' []]
        \<lparr>next_replica = 5, inner = \<lparr>db = (), issued = []\<rparr>\<rparr>))) = new) \<and>
   (\<exists>new. length (filter (\<lambda>e. event_endpoint e = Some 1) new) = 2 \<and>
      issued (inner (snd (perform_all (router_source (pool_router calm [calm, calm, calm]))
        [Do_Fetch_All ''a'' [], Do_Fetch_All ''b'' []]
        \<lparr>next_replica = 2 ^ 64 - 1, inner = \<lparr>db = (), issued = []\<rparr>\<rparr>))) = new)"
proof -
  let ?w = "\<lparr>db = (), issued = []\<rparr>"
  let ?ps = "[Do_Fetch_All ''a'' [], Do_Apply ''w'' [], Do_Fetch_One ''b'' []]"
    and ?st = "\<lparr>next_replica = 5, inner = ?w\<rparr>"
  let ?ps' = "[Do_Fetch_All ''a'' [], Do_Fetch_All ''b'' []]"
    and ?st' = "\<lparr>next_replica = 2 ^ 64 - 1, inner = ?w\<rparr> :: unit world router_state"
  obtain new where new: "issued (inner (snd (perform_all (router_source (pool_router calm [calm, calm])) ?ps ?st))) =
      issued (inner ?st) @ new"
    and served: "(let served = length (filter (\<lambda>e. event_endpoint e = Some (Suc 1)) new); start = unat (next_replica ?st)
      in served = length (filter (\<lambda>r. r mod 2 ^ 64 mod length [calm, calm] = 1) [start ..< start + reads_in ?ps]))"
    using round_robin_is_fair [of "[calm, calm]" calm ?ps ?st] unfolding Let_def by fastforce
  obtain new' where new': "issued (inner (snd (perform_all (router_source (pool_router calm [calm, calm, calm])) ?ps' ?st'))) =
      issued (inner ?st') @ new'"
    and served': "(let served = length (filter (\<lambda>e. event_endpoint e = Some (Suc 0)) new'); start = unat (next_replica ?st')
      in served = length (filter (\<lambda>r. r mod 2 ^ 64 mod length [calm, calm, calm] = 0) [start ..< start + reads_in ?ps']))"
    using round_robin_is_fair [of "[calm, calm, calm]" calm ?ps' ?st'] unfolding Let_def by fastforce
  have "length (filter (\<lambda>e. event_endpoint e = Some (Suc 1)) new) = 1"
    using served by (simp add: reads_in_def Let_def upt_rec) (simp add: numeral_2_eq_2 [symmetric])
  then have "length (filter (\<lambda>e. event_endpoint e = Some 2) new) = 1" by (simp add: numeral_2_eq_2)
  moreover have "length (filter (\<lambda>e. event_endpoint e = Some 1) new') = 2"
    using served' by (simp add: reads_in_def Let_def upt_rec)
  ultimately show ?thesis using new new' by (auto simp del: perform_all.simps)
qed

end
