(* ===== verification/Repository_Systems.thy ===== *)
theory Repository_Systems
  imports Repository_Properties Router
begin

text \<open>
  Repositories put together with the sources of the crate: a repository over the primary/replica
  router, and repositories that share a transaction, as the README composes them.  Sequences of
  repository operations are run, and what reaches the driver is stated in full.
\<close>

section \<open>Sequences of repository operations\<close>

datatype ('e, 'id) repo_operation =
  R_Find find_params | R_Get 'id | R_Count find_params
| R_Insert 'e | R_Replace 'e | R_Remove 'id | R_Insert_Returning 'e | R_Replace_Returning 'e

text \<open>The request an operation makes of its source.\<close>

fun request ::
  "soaprs_api \<Rightarrow> encoder \<Rightarrow> ('s, 'e, 'id, 'row) pg_repository \<Rightarrow> ('e, 'id) repo_operation
     \<Rightarrow> operation soap_result" where
  "request api enc r (R_Find params) = map_ok (\<lambda>(q, a). Do_Fetch_All q a) (prepare_find api enc r params)"
| "request api enc r (R_Get i) = map_ok (\<lambda>(q, a). Do_Fetch_Optional q a) (prepare_get api enc r i)"
| "request api enc r (R_Count params) = map_ok (\<lambda>(q, a). Do_Fetch_One q a) (prepare_count api enc r params)"
| "request api enc r (R_Insert e) = map_ok (\<lambda>(q, a). Do_Apply q a) (compile_insert api enc r e False)"
| "request api enc r (R_Replace e) = map_ok (\<lambda>(q, a). Do_Apply q a) (compile_replace api enc r e False)"
| "request api enc r (R_Remove i) = map_ok (\<lambda>(q, a). Do_Apply q a) (prepare_remove api enc r i)"
| "request api enc r (R_Insert_Returning e) =
     map_ok (\<lambda>(q, a). Do_Apply_One q a) (compile_insert api enc r e True)"
| "request api enc r (R_Replace_Returning e) =
     map_ok (\<lambda>(q, a). Do_Apply_One q a) (compile_replace api enc r e True)"

text \<open>The state after an operation.\<close>

fun repo_step ::
  "soaprs_api \<Rightarrow> encoder \<Rightarrow> ('row \<Rightarrow> (64 word, sqlx_error) result)
     \<Rightarrow> ('s, 'e, 'id, 'row) pg_repository \<Rightarrow> ('e, 'id) repo_operation \<Rightarrow> 's \<Rightarrow> 's" where
  "repo_step api enc gc r (R_Find params) s = snd (repository_find api enc r params s)"
| "repo_step api enc gc r (R_Get i) s = snd (repository_get api enc r i s)"
| "repo_step api enc gc r (R_Count params) s = snd (repository_count api enc gc r params s)"
| "repo_step api enc gc r (R_Insert e) s = snd (repository_insert api enc r e s)"
| "repo_step api enc gc r (R_Replace e) s = snd (repository_replace api enc r e s)"
| "repo_step api enc gc r (R_Remove i) s = snd (repository_remove api enc r i s)"
| "repo_step api enc gc r (R_Insert_Returning e) s = snd (repository_insert_returning api enc r e s)"
| "repo_step api enc gc r (R_Replace_Returning e) s = snd (repository_replace_returning api enc r e s)"

definition repo_run ::
  "soaprs_api \<Rightarrow> encoder \<Rightarrow> ('row \<Rightarrow> (64 word, sqlx_error) result)
     \<Rightarrow> ('s, 'e, 'id, 'row) pg_repository \<Rightarrow> ('e, 'id) repo_operation list \<Rightarrow> 's \<Rightarrow> 's" where
  "repo_run api enc gc r = fold (repo_step api enc gc r)"

definition requests ::
  "soaprs_api \<Rightarrow> encoder \<Rightarrow> ('s, 'e, 'id, 'row) pg_repository \<Rightarrow> ('e, 'id) repo_operation list
     \<Rightarrow> operation list" where
  "requests api enc r ops =
     concat (map (\<lambda>op. case request api enc r op of Ok p \<Rightarrow> [p] | Err e \<Rightarrow> []) ops)"

lemma snd_send: "snd (send prepared call operation handle s) =
    (case prepared of Err e \<Rightarrow> s | Ok (q, a) \<Rightarrow> snd (call q a s))"
  by (cases prepared) auto

lemma repo_step_eq:
  "repo_step api enc gc r op s =
     (case request api enc r op of Err e \<Rightarrow> s | Ok p \<Rightarrow> snd (perform (repo_source r) p s))"
proof -
  have prepared: "(case p of Err e \<Rightarrow> s | Ok (q, a) \<Rightarrow> snd (f q a)) =
      (case map_ok (\<lambda>(q, a). g q a) p of Err e \<Rightarrow> s | Ok p' \<Rightarrow> snd (perform (repo_source r) p' s))"
    if "\<And>q a. snd (perform (repo_source r) (g q a) s) = snd (f q a)"
    for p :: "(string \<times> pg_arguments) soap_result" and f g
    by (cases p) (auto simp: that)
  show ?thesis
    by (cases op)
      (simp_all add: repository_find_def repository_get_def repository_count_def
        repository_insert_def repository_replace_def repository_remove_def
        repository_insert_returning_def repository_replace_returning_def snd_send prepared)
qed

lemma repo_run_eq:
  "repo_run api enc gc r ops s = snd (perform_all (repo_source r) (requests api enc r ops) s)"
proof (induction ops arbitrary: s)
  case Nil
  then show ?case by (simp add: repo_run_def requests_def)
next
  case (Cons op ops)
  have "repo_run api enc gc r (op # ops) s = repo_run api enc gc r ops (repo_step api enc gc r op s)"
    by (simp add: repo_run_def)
  with Cons show ?case
    by (cases "request api enc r op") (simp_all add: repo_step_eq requests_def case_prod_beta)
qed

section \<open>What reaches the driver\<close>

fun tx_action_of :: "operation \<Rightarrow> tx_action" where
  "tx_action_of (Do_Fetch_All q a) = Tx_Fetch_All q a"
| "tx_action_of (Do_Fetch_Optional q a) = Tx_Fetch_Optional q a"
| "tx_action_of (Do_Fetch_One q a) = Tx_Fetch_One q a"
| "tx_action_of (Do_Apply q a) = Tx_Apply q a"
| "tx_action_of (Do_Apply_One q a) = Tx_Apply_One q a"

lemma perform_all_tx:
  "snd (perform_all (transaction_source conn drv) ps st) = tx_run conn drv (map tx_action_of ps) st"
proof (induction ps arbitrary: st)
  case (Cons p ps)
  have "snd (perform (transaction_source conn drv) p st) = tx_do conn drv (tx_action_of p) st"
    by (cases p) simp_all
  with Cons show ?case by (simp add: tx_run_def case_prod_beta)
qed (simp add: tx_run_def)

lemma tx_expected_statements:
  "tx_expected conn (map tx_action_of ps @ as) = map (event_on conn) ps @ tx_expected conn as"
proof (induction ps)
  case (Cons p ps)
  then show ?case by (cases p) (simp_all add: is_end_def)
qed simp

section \<open>A sample\<close>

text \<open>The sample repository over a transaction.\<close>

definition sample_tx_repository ::
  "((nat, nat) tx_source, 64 word \<times> string, 64 word, nat) pg_repository" where
  "sample_tx_repository =
     \<lparr>repo_source = transaction_source 3 sample_tx_driver, codec = sample_codec,
      compiler = field_map sample_mapping\<rparr>"

lemma sample_tx_remove:
  "\<exists>q. prepare_remove sample_api encodes_all sample_tx_repository 7 = Ok (q, [Add_String ''7''])"
proof -
  have seven: "show_nat 7 = ''7''" by (simp add: show_nat.simps)
  have "plan_identity sample_api sample_tx_repository i = plan_identity sample_api sample_repository i" for i
    by (simp add: plan_identity_def sample_tx_repository_def)
  moreover have "compiled_arguments encodes_all [Bind_Numeric ''7''] = Ok [Add_String ''7'']"
    by (simp add: compiled_arguments_eq_Ok argument_of_def)
  ultimately show ?thesis
    by (simp add: prepare_remove_def compiled_id_eq sample_plans seven)
qed

lemma sample_tx_remove_null:
  "prepare_remove sample_api encodes_all sample_tx_repository 0 = Err (err_validation null_identifier_text)"
proof -
  have "plan_identity sample_api sample_tx_repository i = plan_identity sample_api sample_repository i" for i
    by (simp add: plan_identity_def sample_tx_repository_def)
  then show ?thesis by (simp add: prepare_remove_def compiled_id_eq sample_plans)
qed

end
