(* ===== verification/Native_Query.thy ===== *)
theory Native_Query
  imports Dispatch Compiler_Facts Router
begin

text \<open>
  \<open>src/postgres/native_query.rs\<close>: trusted static SQL with typed bindings, and the query handler
  that compiles an application query with its specification, sends the statement and decodes the
  rows.  The specification is supplied by the application.
\<close>

record pg_native_statement =
  native_sql :: string
  native_bindings :: "pg_bind_value list"

definition native_new :: "string \<Rightarrow> pg_native_statement" where
  "native_new stmt = \<lparr>native_sql = stmt, native_bindings = []\<rparr>"

definition native_bind ::
  "pg_native_statement \<Rightarrow> pg_scalar_kind \<Rightarrow> pg_value \<Rightarrow> pg_native_statement soap_result" where
  "native_bind q k v =
     (if is_default v then
        Err (err_validation ''native PostgreSQL query binding cannot use DEFAULT'')
      else
        and_then (normalize_entity_binding k v) (\<lambda>b.
          Ok (q\<lparr>native_bindings := native_bindings q @ [b]\<rparr>)))"

definition native_into_parts ::
  "encoder \<Rightarrow> pg_native_statement \<Rightarrow> (string \<times> pg_arguments) soap_result" where
  "native_into_parts enc q =
     and_then (into_arguments enc (from_bindings (native_bindings q))) (\<lambda>args.
       Ok (native_sql q, args))"

record ('q, 'row, 'o) native_query_spec =
  spec_compile :: "'q \<Rightarrow> pg_native_statement soap_result"
  spec_decode :: "'row list \<Rightarrow> 'o soap_result"

record ('s, 'q, 'row, 'o) native_query_handler =
  handler_source :: "('s, 'row) pg_source"
  handler_spec :: "('q, 'row, 'o) native_query_spec"

definition prepare_native ::
  "encoder \<Rightarrow> ('s, 'q, 'row, 'o) native_query_handler \<Rightarrow> 'q
     \<Rightarrow> (string \<times> pg_arguments) soap_result" where
  "prepare_native enc h q =
     and_then (spec_compile (handler_spec h) q) (native_into_parts enc)"

definition native_query ::
  "encoder \<Rightarrow> ('s, 'q, 'row, 'o) native_query_handler \<Rightarrow> 'q \<Rightarrow> 's \<Rightarrow> 'o soap_result \<times> 's"
where
  "native_query enc h q =
     send (prepare_native enc h q) (fetch_all (handler_source h)) ''run native query''
       (spec_decode (handler_spec h))"

section \<open>Building a statement\<close>

text \<open>A statement built by successive binds, as the specifications write it.\<close>

fun bind_all ::
  "pg_native_statement \<Rightarrow> (pg_scalar_kind \<times> pg_value) list \<Rightarrow> pg_native_statement soap_result" where
  "bind_all q [] = Ok q"
| "bind_all q ((k, v) # kvs) = and_then (native_bind q k v) (\<lambda>q'. bind_all q' kvs)"

lemma native_bind_eq:
  "v \<noteq> Pg_Default \<Longrightarrow>
     native_bind q k v =
       map_ok (\<lambda>b. q\<lparr>native_bindings := native_bindings q @ [b]\<rparr>) (normalize_entity_binding k v)"
  by (cases "normalize_entity_binding k v") (simp_all add: native_bind_def)

lemma bind_all_Ok:
  "bind_all q kvs = Ok q' \<longleftrightarrow>
     (\<forall>(k, v) \<in> set kvs. v \<noteq> Pg_Default) \<and>
     (\<exists>bs. try_map (\<lambda>(k, v). normalize_entity_binding k v) kvs = Ok bs \<and>
           q' = q\<lparr>native_bindings := native_bindings q @ bs\<rparr>)"
proof (induction kvs arbitrary: q)
  case Nil
  then show ?case by auto
next
  case (Cons p kvs)
  obtain k v where p: "p = (k, v)" by fastforce
  show ?case
  proof (cases "v = Pg_Default")
    case True
    then show ?thesis by (simp add: p native_bind_def)
  next
    case False
    then show ?thesis
      by (cases "normalize_entity_binding k v"; cases "try_map (\<lambda>(k, v). normalize_entity_binding k v) kvs")
        (simp_all add: p native_bind_eq Cons.IH)
  qed
qed

text \<open>
  Which values fit a kind: a null fits every kind, DEFAULT none, and the others the one kind of their
  type, floats only when they are finite.
\<close>

definition fits :: "pg_scalar_kind \<times> pg_value \<Rightarrow> bool" where
  "fits p =
     (case p of (k, v) \<Rightarrow>
        (case v of
           Pg_Null \<Rightarrow> True
         | Pg_Default \<Rightarrow> False
         | Pg_Bool _ \<Rightarrow> k = Kind_Bool
         | Pg_I64 _ \<Rightarrow> k = Kind_Numeric
         | Pg_U64 _ \<Rightarrow> k = Kind_Numeric
         | Pg_F64 x \<Rightarrow> k = Kind_Numeric \<and> is_finite x
         | Pg_Decimal _ \<Rightarrow> k = Kind_Numeric
         | Pg_Text _ \<Rightarrow> k = Kind_Text
         | Pg_Bytes _ \<Rightarrow> k = Kind_Bytes
         | Pg_Uuid _ \<Rightarrow> k = Kind_Uuid
         | Pg_Json _ \<Rightarrow> k = Kind_Json
         | Pg_Date _ \<Rightarrow> k = Kind_Date
         | Pg_Time _ \<Rightarrow> k = Kind_Time
         | Pg_Timestamp _ \<Rightarrow> k = Kind_Timestamp
         | Pg_TimestampTz _ \<Rightarrow> k = Kind_TimestampTz))"

lemma normalize_fits:
  "v \<noteq> Pg_Default \<Longrightarrow>
     (if fits (k, v) then \<exists>b. normalize_entity_binding k v = Ok b
      else \<exists>t. normalize_entity_binding k v = Err (err_validation t))"
  by (cases v; cases k)
    (simp_all add: fits_def normalize_entity_binding_def value_validate_def bind_pg_value_def)

lemma fits_binds: "fits (k, v) \<Longrightarrow> v \<noteq> Pg_Default \<and> is_ok (normalize_entity_binding k v)"
  using normalize_fits [of v k] by (cases v) (auto simp: is_ok_iff fits_def)

lemma unfit_refused:
  "\<not> fits (k, v) \<Longrightarrow>
     \<exists>t. native_bind q k v = Err (err_validation t) \<and>
         (v = Pg_Default \<longrightarrow> t = ''native PostgreSQL query binding cannot use DEFAULT'')"
  using normalize_fits [of v k] by (cases "v = Pg_Default") (auto simp: native_bind_def)

lemma bind_all_append: "bind_all q (xs @ ys) = and_then (bind_all q xs) (\<lambda>q'. bind_all q' ys)"
proof (induction xs arbitrary: q)
  case (Cons p xs)
  obtain k v where "p = (k, v)" by fastforce
  with Cons show ?case by (cases "native_bind q k v") simp_all
qed simp

lemma bind_all_fits:
  assumes "\<forall>p \<in> set kvs. fits p"
  shows "\<exists>bs. try_map (\<lambda>(k, v). normalize_entity_binding k v) kvs = Ok bs \<and>
     bind_all q kvs = Ok (q\<lparr>native_bindings := native_bindings q @ bs\<rparr>)"
proof -
  have "\<exists>bs. try_map (\<lambda>(k, v). normalize_entity_binding k v) kvs = Ok bs"
    using assms by (induction kvs) (force dest: fits_binds simp: is_ok_iff)+
  then obtain bs where "try_map (\<lambda>(k, v). normalize_entity_binding k v) kvs = Ok bs" by blast
  moreover have "\<forall>(k, v) \<in> set kvs. v \<noteq> Pg_Default" using assms fits_binds by blast
  ultimately have "bind_all q kvs = Ok (q\<lparr>native_bindings := native_bindings q @ bs\<rparr>)"
    unfolding bind_all_Ok by blast
  with \<open>try_map _ kvs = Ok bs\<close> show ?thesis by blast
qed

lemma bind_all_refused:
  assumes "\<forall>p \<in> set pre. fits p" and "\<not> fits (k, v)"
  shows "\<exists>t. bind_all q (pre @ (k, v) # post) = Err (err_validation t) \<and>
     (v = Pg_Default \<longrightarrow> t = ''native PostgreSQL query binding cannot use DEFAULT'')"
proof -
  obtain bs where "bind_all q pre = Ok (q\<lparr>native_bindings := native_bindings q @ bs\<rparr>)"
    using bind_all_fits [OF assms(1)] by blast
  with unfit_refused [OF assms(2), of "q\<lparr>native_bindings := native_bindings q @ bs\<rparr>"]
  show ?thesis by (auto simp: bind_all_append)
qed

text \<open>A read through the router over pools: which pool answers, and on which endpoint.\<close>

lemma router_fetch_all:
  "fetch_all (router_source (pool_router main others)) stmt args st =
     (let i = unat (next_replica st) mod length others;
          server = (if others = [] then main else others ! i);
          endpoint = (if others = [] then 0 else Suc i);
          answer = run_fetch_all server stmt args (db (inner st))
      in (fst answer,
          \<lparr>next_replica = (if others = [] then next_replica st else next_replica st + 1),
           inner = \<lparr>db = snd answer,
             issued = issued (inner st) @ [Statement endpoint Fetch_All stmt args]\<rparr>\<rparr>))"
proof -
  have read: "read_source (pool_router main others) (next_replica st) =
      (let i = unat (next_replica st) mod length others
       in (if others = [] then (pool_source 0 main, next_replica st)
           else (pool_source (Suc i) (others ! i), next_replica st + 1)))"
  proof (cases "others = []")
    case False
    then have "enumerate (Suc 0) others \<noteq> []" by (cases others) simp_all
    with False show ?thesis by (simp add: read_source_def pool_router_def nth_enumerate_eq Let_def)
  qed (simp add: read_source_def pool_router_def)
  show ?thesis
    by (cases "inner st") (simp add: router_source_def through_read_def read pool_source_def issue_eq Let_def)
qed

lemma native_query_on_router:
  assumes "handler_source h = router_source (pool_router main others)"
    and "prepare_native enc h q = map_ok (Pair stmt) (into_arguments enc (from_bindings bs))"
  shows "if \<exists>b \<in> set bs. enc (argument_of b) \<noteq> None
    then \<exists>e. native_query enc h q st = (Err e, st) \<and> kind e = Infrastructure
    else (let i = unat (next_replica st) mod length others;
              server = (if others = [] then main else others ! i);
              endpoint = (if others = [] then 0 else Suc i);
              args = map argument_of bs;
              answer = run_fetch_all server stmt args (db (inner st))
          in native_query enc h q st =
            (case fst answer of
               Ok rows \<Rightarrow> spec_decode (handler_spec h) rows
             | Err e \<Rightarrow> Err (map_sqlx_error e ''run native query''),
             \<lparr>next_replica = (if others = [] then next_replica st else next_replica st + 1),
              inner = \<lparr>db = snd answer,
                issued = issued (inner st) @ [Statement endpoint Fetch_All stmt args]\<rparr>\<rparr>))"
proof (cases "into_arguments enc (from_bindings bs)")
  case (Ok args)
  then have "args = map argument_of bs" "\<forall>b \<in> set bs. enc (argument_of b) = None"
    by (simp_all add: into_arguments_eq_Ok from_bindings_def)
  with Ok show ?thesis
    by (auto simp: native_query_def assms router_fetch_all Let_def split: result.split)
next
  case (Err e)
  then have "kind e = Infrastructure" "\<exists>b \<in> set bs. enc (argument_of b) \<noteq> None"
    using add_bindings_Err [of enc bs "[]" e] by (auto simp: into_arguments_def from_bindings_def)
  with Err show ?thesis by (simp add: native_query_def assms)
qed

section \<open>Properties\<close>

text \<open>
  C39: a native query end to end.  Take the handler of a specification that writes its statement with
  a sequence of typed binds, over the router.  When a value is DEFAULT or does not fit the kind it is
  bound as, the query is refused as a validation error at the first such bind, and nothing is sent:
  neither the world nor the rotation moves.  When all values fit, exactly one statement is sent, to
  the replica whose turn it is, or to the primary when there are none: the text of the specification
  with one argument for each bind, in the order of the binds; the result is the decoder's on all the
  rows of that server, or the classified driver error.  Only an argument that cannot be encoded
  stops it, as an infrastructure error, before anything is sent.
\<close>

theorem native_query_runs_its_statement:
  assumes "handler_source h = router_source (pool_router main others)"
    and "spec_compile (handler_spec h) q = bind_all (native_new stmt) kvs"
  shows "(\<forall>pre k v post. kvs = pre @ (k, v) # post \<and> (\<forall>p \<in> set pre. fits p) \<and> \<not> fits (k, v) \<longrightarrow>
            (\<exists>t. native_query enc h q st = (Err (err_validation t), st) \<and>
               (v = Pg_Default \<longrightarrow> t = ''native PostgreSQL query binding cannot use DEFAULT''))) \<and>
         ((\<forall>p \<in> set kvs. fits p) \<longrightarrow>
            (\<exists>bs. try_map (\<lambda>(k, v). normalize_entity_binding k v) kvs = Ok bs \<and>
               (if \<exists>b \<in> set bs. enc (argument_of b) \<noteq> None
                then \<exists>e. native_query enc h q st = (Err e, st) \<and> kind e = Infrastructure
                else (let i = unat (next_replica st) mod length others;
                          server = (if others = [] then main else others ! i);
                          endpoint = (if others = [] then 0 else Suc i);
                          args = map argument_of bs;
                          answer = run_fetch_all server stmt args (db (inner st))
                      in native_query enc h q st =
                        (case fst answer of
                           Ok rows \<Rightarrow> spec_decode (handler_spec h) rows
                         | Err e \<Rightarrow> Err (map_sqlx_error e ''run native query''),
                         \<lparr>next_replica = (if others = [] then next_replica st else next_replica st + 1),
                          inner = \<lparr>db = snd answer,
                            issued = issued (inner st) @ [Statement endpoint Fetch_All stmt args]\<rparr>\<rparr>)))))"
proof (intro conjI allI impI)
  fix pre k v post
  assume "kvs = pre @ (k, v) # post \<and> (\<forall>p \<in> set pre. fits p) \<and> \<not> fits (k, v)"
  with bind_all_refused [of pre k v "native_new stmt" post]
  show "\<exists>t. native_query enc h q st = (Err (err_validation t), st) \<and>
      (v = Pg_Default \<longrightarrow> t = ''native PostgreSQL query binding cannot use DEFAULT'')"
    by (auto simp: native_query_def prepare_native_def assms(2))
next
  assume "\<forall>p \<in> set kvs. fits p"
  from bind_all_fits [OF this, of "native_new stmt"] obtain bs where
    bs: "try_map (\<lambda>(k, v). normalize_entity_binding k v) kvs = Ok bs"
    and built: "spec_compile (handler_spec h) q = Ok \<lparr>native_sql = stmt, native_bindings = bs\<rparr>"
    by (auto simp: assms(2) native_new_def)
  let ?args = "into_arguments enc (from_bindings bs)"
  have prepared: "prepare_native enc h q = map_ok (Pair stmt) ?args"
    by (cases ?args) (simp_all add: prepare_native_def built native_into_parts_def)
  show "\<exists>bs. try_map (\<lambda>(k, v). normalize_entity_binding k v) kvs = Ok bs \<and>
      (if \<exists>b \<in> set bs. enc (argument_of b) \<noteq> None
       then \<exists>e. native_query enc h q st = (Err e, st) \<and> kind e = Infrastructure
       else (let i = unat (next_replica st) mod length others;
                 server = (if others = [] then main else others ! i);
                 endpoint = (if others = [] then 0 else Suc i);
                 args = map argument_of bs;
                 answer = run_fetch_all server stmt args (db (inner st))
             in native_query enc h q st =
               (case fst answer of
                  Ok rows \<Rightarrow> spec_decode (handler_spec h) rows
                | Err e \<Rightarrow> Err (map_sqlx_error e ''run native query''),
                \<lparr>next_replica = (if others = [] then next_replica st else next_replica st + 1),
                 inner = \<lparr>db = snd answer,
                   issued = issued (inner st) @ [Statement endpoint Fetch_All stmt args]\<rparr>\<rparr>)))"
  proof (intro exI [of _ bs] conjI bs)
    show "if \<exists>b \<in> set bs. enc (argument_of b) \<noteq> None
       then \<exists>e. native_query enc h q st = (Err e, st) \<and> kind e = Infrastructure
       else (let i = unat (next_replica st) mod length others;
                 server = (if others = [] then main else others ! i);
                 endpoint = (if others = [] then 0 else Suc i);
                 args = map argument_of bs;
                 answer = run_fetch_all server stmt args (db (inner st))
             in native_query enc h q st =
               (case fst answer of
                  Ok rows \<Rightarrow> spec_decode (handler_spec h) rows
                | Err e \<Rightarrow> Err (map_sqlx_error e ''run native query''),
                \<lparr>next_replica = (if others = [] then next_replica st else next_replica st + 1),
                 inner = \<lparr>db = snd answer,
                   issued = issued (inner st) @ [Statement endpoint Fetch_All stmt args]\<rparr>\<rparr>))"
      by (rule native_query_on_router [OF assms(1) prepared])
  qed
qed

theorem native_query_runs_its_statement_witness:
  "\<exists>h :: (unit world router_state, (pg_scalar_kind \<times> pg_value) list, nat, nat list) native_query_handler.
     fst (native_query (\<lambda>a. None) h [(Kind_Uuid, Pg_Default)] (router_new \<lparr>db = (), issued = []\<rparr>)) =
       Err (err_validation ''native PostgreSQL query binding cannot use DEFAULT'') \<and>
     native_query (\<lambda>a. None) h [(Kind_Text, Pg_Text ''a''), (Kind_Bool, Pg_Null)]
         (router_new \<lparr>db = (), issued = []\<rparr>) =
       (Ok [], \<lparr>next_replica = 1, inner =
          \<lparr>db = (), issued = [Statement 1 Fetch_All ''SELECT $1, $2'' [Add_String ''a'', Add_None_Bool]]\<rparr>\<rparr>)"
proof -
  let ?h = "\<lparr>handler_source = router_source (pool_router calm [calm]),
      handler_spec = \<lparr>spec_compile = bind_all (native_new ''SELECT $1, $2''), spec_decode = Ok\<rparr>\<rparr>"
  let ?st = "router_new \<lparr>db = (), issued = []\<rparr>"
  have source: "handler_source ?h = router_source (pool_router calm [calm])"
    and spec: "spec_compile (handler_spec ?h) kvs = bind_all (native_new ''SELECT $1, $2'') kvs" for kvs
    by simp_all
  note query = native_query_runs_its_statement [OF source spec, of _ "\<lambda>a. None" ?st]
  have unfit: "\<not> fits (Kind_Uuid, Pg_Default)" by (simp add: fits_def)
  have "fst (native_query (\<lambda>a. None) ?h [(Kind_Uuid, Pg_Default)] ?st) =
      Err (err_validation ''native PostgreSQL query binding cannot use DEFAULT'')"
    using conjunct1 [OF query, rule_format, of "[(Kind_Uuid, Pg_Default)]" "[]" Kind_Uuid Pg_Default "[]"] unfit
    by auto
  moreover
  let ?kvs = "[(Kind_Text, Pg_Text ''a''), (Kind_Bool, Pg_Null)]"
  have "\<forall>p \<in> set ?kvs. fits p" by (simp add: fits_def)
  from mp [OF conjunct2 [OF query] this]
  have "native_query (\<lambda>a. None) ?h ?kvs ?st =
       (Ok [], \<lparr>next_replica = 1, inner =
          \<lparr>db = (), issued = [Statement 1 Fetch_All ''SELECT $1, $2'' [Add_String ''a'', Add_None_Bool]]\<rparr>\<rparr>)"
    by (auto simp: normalize_entity_binding_def value_validate_def bind_pg_value_def argument_of_def
        router_new_def calm_def Let_def)
  ultimately show ?thesis by blast
qed

end
