(* ===== verification/Rust_Float_Facts.thy ===== *)
theory Rust_Float_Facts
  imports Complex_Main Rust_Float
begin

text \<open>
  The printed text of a finite \<open>f64\<close> identifies it: read as a decimal, the text is a number whose
  nearest float (ties to even) is the float that was printed.  First the values and the rounding
  intervals, then the search for the shortest decimal, then the layout of the digits.
\<close>

section \<open>Values\<close>

text \<open>The bits of a float without the sign, which order the magnitudes.\<close>

definition magnitude :: "f64 \<Rightarrow> nat" where
  "magnitude x = unat (f64_bits x) mod 2 ^ 63"

text \<open>The weight of the last place of the fraction; subnormals have the weight of exponent 1.\<close>

definition weight :: "nat \<Rightarrow> rat" where
  "weight e = 2 powi (int (max e 1) - 1075)"

definition magnitude_value :: "nat \<Rightarrow> rat" where
  "magnitude_value b =
     (let e = b div 2 ^ 52; f = b mod 2 ^ 52 in
      of_nat (if e = 0 then f else 2 ^ 52 + f) * weight e)"

definition f64_value :: "f64 \<Rightarrow> rat" where
  "f64_value x = (if f64_negative x then - 1 else 1) * magnitude_value (magnitude x)"

text \<open>The float nearest to a number, the even one when the number is half-way.\<close>

definition rounds_to :: "rat \<Rightarrow> f64 \<Rightarrow> bool" where
  "rounds_to r x \<longleftrightarrow>
     (\<forall>y. is_finite y \<longrightarrow> f64_value y \<noteq> f64_value x \<longrightarrow>
        \<bar>r - f64_value x\<bar> < \<bar>r - f64_value y\<bar> \<or>
        (\<bar>r - f64_value x\<bar> = \<bar>r - f64_value y\<bar> \<and> even (f64_fraction x)))"

lemma f64_parts:
  "f64_exponent x = magnitude x div 2 ^ 52" "f64_fraction x = magnitude x mod 2 ^ 52"
proof -
  have "n mod 2 ^ 63 div 2 ^ 52 = n div 2 ^ 52 mod 2 ^ 11" for n :: nat
    using mod_mult2_eq [of n "2 ^ 52" "2 ^ 11"] by simp
  then show "f64_exponent x = magnitude x div 2 ^ 52"
    by (simp add: f64_exponent_def magnitude_def)
  show "f64_fraction x = magnitude x mod 2 ^ 52"
    by (simp add: f64_fraction_def magnitude_def mod_mod_cancel)
qed

lemma weight_pos [simp]: "0 < weight e"
  by (simp add: weight_def)

lemma weight_eq: "e \<noteq> 0 \<Longrightarrow> weight e = 2 powi (int e - 1075)"
  by (cases e) (simp_all add: weight_def)

lemma weight_Suc: "weight (Suc e) = (if e = 0 then weight 0 else 2 * weight e)"
proof (cases "e = 0")
  case False
  have "(2 :: rat) powi (int e - 1075 + 1) = 2 powi (int e - 1075) * 2" by (rule power_int_add_1) simp
  with False show ?thesis by (simp add: weight_eq algebra_simps)
qed (simp add: weight_def)

lemma magnitude_value_Suc: "magnitude_value (Suc b) = magnitude_value b + weight (b div 2 ^ 52)"
proof (cases "Suc (b mod 2 ^ 52) = 2 ^ 52")
  case True
  then have succ: "Suc b div 2 ^ 52 = Suc (b div 2 ^ 52)" "Suc b mod 2 ^ 52 = 0"
    by (simp_all add: div_Suc mod_Suc)
  have last: "b mod 2 ^ 52 = 2 ^ 52 - 1" using True by simp
  show ?thesis
    by (simp only: magnitude_value_def Let_def succ last) (simp add: weight_Suc algebra_simps)
next
  case False
  then have succ: "Suc b div 2 ^ 52 = b div 2 ^ 52" "Suc b mod 2 ^ 52 = Suc (b mod 2 ^ 52)"
    by (simp_all add: div_Suc mod_Suc)
  show ?thesis by (simp only: magnitude_value_def Let_def succ) (simp add: algebra_simps)
qed

lemma magnitude_value_mono: "a < b \<Longrightarrow> magnitude_value a < magnitude_value b"
  by (rule lift_Suc_mono_less) (simp_all add: magnitude_value_Suc)

lemma magnitude_value_mono_le: "a \<le> b \<Longrightarrow> magnitude_value a \<le> magnitude_value b"
  using magnitude_value_mono [of a b] by (cases "a = b") auto

lemma magnitude_value_0 [simp]: "magnitude_value 0 = 0"
  by (simp add: magnitude_value_def)

lemma magnitude_value_nonneg [simp]: "0 \<le> magnitude_value b"
  using magnitude_value_mono_le [of 0 b] by simp

section \<open>Rounding intervals\<close>

definition decoded_value :: "decoded \<Rightarrow> nat \<Rightarrow> rat" where
  "decoded_value d m = of_nat m * 2 powi exp2 d"

definition in_rounding :: "decoded \<Rightarrow> rat \<Rightarrow> bool" where
  "in_rounding d r \<longleftrightarrow>
     (let low = decoded_value d (mant d - minus_ulp d); high = decoded_value d (mant d + plus_ulp d) in
      if inclusive d then low \<le> r \<and> r \<le> high else low < r \<and> r < high)"

lemma decode_weights:
  "(2 :: rat) powi (- 1075) = weight 0 / 2"
  "e \<noteq> 0 \<Longrightarrow> (2 :: rat) powi (int e - 1077) = weight e / 4"
  "e \<noteq> 0 \<Longrightarrow> (2 :: rat) powi (int e - 1076) = weight e / 2"
proof -
  have shift: "(2 :: rat) powi (i - int n) = 2 powi i / 2 ^ n" for i n
    by (simp add: power_int_diff)
  show "(2 :: rat) powi (- 1075) = weight 0 / 2"
    using shift [of "- 1074" 1] by (simp only: weight_def) simp
  show "(2 :: rat) powi (int e - 1077) = weight e / 4" if "e \<noteq> 0"
    using that shift [of "int e - 1075" 2] by (simp add: weight_eq)
  show "(2 :: rat) powi (int e - 1076) = weight e / 2" if "e \<noteq> 0"
    using that shift [of "int e - 1075" 1] by (simp add: weight_eq)
qed

lemma decoded_subnormal:
  "exp2 d = - 1075 \<Longrightarrow> decoded_value d m = of_nat m * (weight 0 / 2)"
  by (simp only: decoded_value_def decode_weights(1))

lemma decode_exponent:
  "f64_exponent x = 0 \<Longrightarrow> decode_float x =
     \<lparr>mant = 2 * f64_fraction x, minus_ulp = 1, plus_ulp = 1, exp2 = - 1075,
      inclusive = even (f64_fraction x)\<rparr>"
  "f64_exponent x \<noteq> 0 \<Longrightarrow> f64_fraction x = 0 \<Longrightarrow> decode_float x =
     \<lparr>mant = 4 * 2 ^ 52, minus_ulp = 1, plus_ulp = 2, exp2 = int (f64_exponent x) - 1077,
      inclusive = True\<rparr>"
  "f64_exponent x \<noteq> 0 \<Longrightarrow> f64_fraction x \<noteq> 0 \<Longrightarrow> decode_float x =
     \<lparr>mant = 2 * (2 ^ 52 + f64_fraction x), minus_ulp = 1, plus_ulp = 1,
      exp2 = int (f64_exponent x) - 1076, inclusive = even (f64_fraction x)\<rparr>"
  by (simp_all add: decode_float_def Let_def)

lemma magnitude_value_parts:
  "magnitude_value (magnitude x) =
     of_nat (if f64_exponent x = 0 then f64_fraction x else 2 ^ 52 + f64_fraction x) *
     weight (f64_exponent x)"
  by (simp only: magnitude_value_def Let_def f64_parts)

text \<open>The decoded triple: the value, and the bounds half a place away (a quarter below a power of two).\<close>

lemma decoded_interval:
  fixes x :: f64
  defines "d \<equiv> decode_float x" and "w \<equiv> weight (f64_exponent x)" and "v \<equiv> magnitude_value (magnitude x)"
  assumes "magnitude x \<noteq> 0"
  shows "decoded_value d (mant d) = v"
    and "decoded_value d (mant d + plus_ulp d) = v + w / 2"
    and "decoded_value d (mant d - minus_ulp d) =
      v - (if f64_fraction x = 0 \<and> f64_exponent x \<noteq> 0 then w / 4 else w / 2)"
    and "inclusive d \<longleftrightarrow> even (f64_fraction x)"
    and "minus_ulp d < mant d" and "0 < minus_ulp d" and "0 < plus_ulp d"
proof -
  have zero: "f64_fraction x \<noteq> 0" if "f64_exponent x = 0"
    using that assms(4) div_mult_mod_eq [of "magnitude x" "2 ^ 52"] by (simp add: f64_parts)
  consider (subnormal) "f64_exponent x = 0" "f64_fraction x \<noteq> 0"
    | (power) "f64_exponent x \<noteq> 0" "f64_fraction x = 0"
    | (normal) "f64_exponent x \<noteq> 0" "f64_fraction x \<noteq> 0"
    using zero by blast
  then have "decoded_value d (mant d) = v \<and> decoded_value d (mant d + plus_ulp d) = v + w / 2 \<and>
      decoded_value d (mant d - minus_ulp d) =
        v - (if f64_fraction x = 0 \<and> f64_exponent x \<noteq> 0 then w / 4 else w / 2) \<and>
      (inclusive d \<longleftrightarrow> even (f64_fraction x)) \<and> minus_ulp d < mant d \<and> 0 < minus_ulp d \<and>
      0 < plus_ulp d"
  proof cases
    case subnormal
    then show ?thesis
      by (simp add: d_def w_def v_def magnitude_value_parts decode_exponent decoded_subnormal
          of_nat_diff field_simps)
  next
    case power
    then show ?thesis
      by (simp add: d_def w_def v_def magnitude_value_parts decode_exponent decoded_value_def
          decode_weights of_nat_diff field_simps)
  next
    case normal
    then show ?thesis
      by (simp add: d_def w_def v_def magnitude_value_parts decode_exponent decoded_value_def
          decode_weights of_nat_diff field_simps)
  qed
  then show "decoded_value d (mant d) = v" "decoded_value d (mant d + plus_ulp d) = v + w / 2"
    "decoded_value d (mant d - minus_ulp d) =
      v - (if f64_fraction x = 0 \<and> f64_exponent x \<noteq> 0 then w / 4 else w / 2)"
    "inclusive d \<longleftrightarrow> even (f64_fraction x)" "minus_ulp d < mant d" "0 < minus_ulp d" "0 < plus_ulp d"
    by blast+
qed

section \<open>The search for the shortest decimal\<close>

lemma powi_split: "(b :: rat) \<noteq> 0 \<Longrightarrow> b powi i = b ^ nat i / b ^ nat (- i)"
  by (cases "0 \<le> i") (simp_all add: power_int_def divide_inverse power_inverse)

lemma compare_scaled:
  fixes d :: decoded and q :: int and k g :: nat
  shows "decoded_value d k \<le> of_nat g * 10 powi q \<longleftrightarrow>
      numer d k * 10 ^ nat (- q) \<le> g * (denom d * 10 ^ nat q)"
    and "of_nat g * 10 powi q \<le> decoded_value d k \<longleftrightarrow>
      g * (denom d * 10 ^ nat q) \<le> numer d k * 10 ^ nat (- q)"
proof -
  let ?A = "(2 :: rat) ^ nat (exp2 d)" and ?B = "(2 :: rat) ^ nat (- exp2 d)"
  let ?C = "(10 :: rat) ^ nat q" and ?D = "(10 :: rat) ^ nat (- q)"
  have pos: "0 < ?A" "0 < ?B" "0 < ?C" "0 < ?D" by simp_all
  have l: "decoded_value d k = of_nat k * (?A / ?B)"
    unfolding decoded_value_def by (subst powi_split) simp_all
  have r: "(10 :: rat) powi q = ?C / ?D" by (rule powi_split) simp
  have nats: "of_nat (numer d k * 10 ^ nat (- q)) = of_nat k * ?A * ?D"
    "of_nat (g * (denom d * 10 ^ nat q)) = of_nat g * (?B * ?C)"
    by (simp_all add: numer_def denom_def)
  have "of_nat k * (?A / ?B) \<le> of_nat g * (?C / ?D) \<longleftrightarrow> of_nat k * ?A * ?D \<le> of_nat g * (?B * ?C)"
    "of_nat g * (?C / ?D) \<le> of_nat k * (?A / ?B) \<longleftrightarrow> of_nat g * (?B * ?C) \<le> of_nat k * ?A * ?D"
    using pos by (simp_all add: field_simps)
  then show "decoded_value d k \<le> of_nat g * 10 powi q \<longleftrightarrow>
      numer d k * 10 ^ nat (- q) \<le> g * (denom d * 10 ^ nat q)"
    "of_nat g * 10 powi q \<le> decoded_value d k \<longleftrightarrow>
      g * (denom d * 10 ^ nat q) \<le> numer d k * 10 ^ nat (- q)"
    unfolding l r nats [symmetric] of_nat_le_iff by simp_all
qed

lemma in_interval_iff: "in_interval d q g \<longleftrightarrow> in_rounding d (of_nat g * 10 powi q)"
  by (simp add: in_interval_def in_rounding_def Let_def compare_scaled not_le [symmetric])

text \<open>With enough digits the float is reached exactly.\<close>

lemma floor_exact:
  assumes "q \<le> 0" and "nat (- exp2 d) \<le> nat (- q)"
  shows "floor_digits d q * (denom d * 10 ^ nat q) = numer d (mant d) * 10 ^ nat (- q)"
proof -
  have "denom d dvd 2 ^ nat (- q)"
    unfolding denom_def by (rule le_imp_power_dvd) (rule assms(2))
  also have "(2 :: nat) ^ nat (- q) dvd 10 ^ nat (- q)"
    by (rule dvd_power_same) simp
  finally have "denom d * 10 ^ nat q dvd numer d (mant d) * 10 ^ nat (- q)"
    using assms(1) by simp
  then show ?thesis by (simp add: floor_digits_def)
qed

lemma exact_in_interval:
  assumes "minus_ulp d < mant d" and "0 < minus_ulp d" and "0 < plus_ulp d"
    and "g * (denom d * 10 ^ nat q) = numer d (mant d) * 10 ^ nat (- q)"
  shows "in_interval d q g"
proof -
  have less: "numer d k * 10 ^ nat (- q) < numer d l * 10 ^ nat (- q)" if "k < l" for k l
    using that by (simp add: numer_def)
  from less [of "mant d - minus_ulp d" "mant d"] less [of "mant d" "mant d + plus_ulp d"] assms
  show ?thesis by (simp add: in_interval_def Let_def)
qed

lemma shortest_in_interval:
  assumes "minus_ulp d < mant d" and "0 < minus_ulp d" and "0 < plus_ulp d"
    and "q - int fuel \<le> - int (nat (- exp2 d))"
  shows "case shortest fuel d q of (g, p) \<Rightarrow> in_interval d p g"
  using assms(4)
proof (induction fuel arbitrary: q)
  case 0
  then have "q \<le> 0" "nat (- exp2 d) \<le> nat (- q)" by linarith+
  from exact_in_interval [OF assms(1-3) floor_exact [OF this]] show ?case by simp
next
  case (Suc fuel)
  then have "case shortest fuel d (q - 1) of (g, p) \<Rightarrow> in_interval d p g" by simp
  then show ?case by (auto simp: Let_def)
qed

lemma shortest_digits_in_interval:
  assumes "minus_ulp d < mant d" and "0 < minus_ulp d" and "0 < plus_ulp d"
    and "shortest_digits d = (g, q)"
  shows "in_rounding d (of_nat g * 10 powi q)" and "0 < g"
proof -
  let ?k = "decimal_point (numer d (mant d)) (denom d)"
  have "?k - 1 - int (shortest_fuel d ?k) \<le> - int (nat (- exp2 d))"
    by (simp add: shortest_fuel_def)
  from shortest_in_interval [OF assms(1-3) this] assms(4)
  show in_rounding: "in_rounding d (of_nat g * 10 powi q)"
    by (simp add: shortest_digits_def Let_def flip: in_interval_iff)
  have "0 < decoded_value d (mant d - minus_ulp d)"
    using assms(1) by (simp add: decoded_value_def)
  with in_rounding show "0 < g"
    by (cases "g = 0") (auto simp: in_rounding_def Let_def split: if_splits)
qed

section \<open>Reading the layout back\<close>

definition read_unsigned :: "string \<Rightarrow> rat option" where
  "read_unsigned s =
     (let i = takeWhile is_digit s; r = dropWhile is_digit s in
      if r = [] then map_option of_nat (read_nat i)
      else if hd r = CHR ''.'' then
        (case (read_nat i, read_nat (tl r)) of
           (Some a, Some b) \<Rightarrow> Some (of_nat a + of_nat b / 10 ^ length (tl r))
         | _ \<Rightarrow> None)
      else None)"

definition read_decimal :: "string \<Rightarrow> rat option" where
  "read_decimal s =
     (if s \<noteq> [] \<and> hd s = CHR ''-'' then map_option uminus (read_unsigned (tl s))
      else read_unsigned s)"

definition digits_val :: "string \<Rightarrow> nat" where
  "digits_val = foldl (\<lambda>n c. 10 * n + digit_val c) 0"

lemma foldl_digits:
  "foldl (\<lambda>n c. 10 * n + digit_val c) acc s = acc * 10 ^ length s + digits_val s"
proof (induction s arbitrary: acc)
  case (Cons c s)
  let ?f = "\<lambda>n c. 10 * n + digit_val c"
  have "foldl ?f acc (c # s) = (10 * acc + digit_val c) * 10 ^ length s + digits_val s"
    by (simp only: foldl_Cons Cons.IH)
  moreover have "digits_val (c # s) = foldl ?f (digit_val c) s" by (simp add: digits_val_def)
  then have "digits_val (c # s) = digit_val c * 10 ^ length s + digits_val s" by (simp only: Cons.IH)
  ultimately show ?case by (simp only: length_Cons power_Suc) (simp add: algebra_simps)
qed (simp add: digits_val_def)

lemma digits_val_append: "digits_val (s @ t) = digits_val s * 10 ^ length t + digits_val t"
  using foldl_digits [of "digits_val s" t] by (simp add: digits_val_def)

lemma digits_val_Nil [simp]: "digits_val [] = 0"
  by (simp add: digits_val_def)

lemma digits_val_zero_Cons [simp]: "digits_val (CHR ''0'' # s) = digits_val s"
proof -
  have "digit_val CHR ''0'' = 0" by (simp add: digit_val_def)
  then show ?thesis by (simp add: digits_val_def)
qed

lemma digits_val_zeros [simp]: "digits_val (replicate n CHR ''0'') = 0"
  by (induction n) simp_all

lemma read_nat_from_digits:
  "list_all is_digit s \<Longrightarrow> read_nat_from acc s = Some (foldl (\<lambda>n c. 10 * n + digit_val c) acc s)"
  by (induction s arbitrary: acc) simp_all

lemma read_nat_digits: "list_all is_digit s \<Longrightarrow> s \<noteq> [] \<Longrightarrow> read_nat s = Some (digits_val s)"
  by (simp add: read_nat_def read_nat_from_digits digits_val_def)

lemma digits_val_show_nat: "digits_val (show_nat n) = n"
  using read_nat_digits [of "show_nat n"] show_nat_digits [of n] by (simp add: list_all_iff)

lemma is_digit_zero [simp]: "is_digit CHR ''0''" and not_digit_dot [simp]: "\<not> is_digit CHR ''.''"
  by (simp_all add: is_digit_def)

lemma read_unsigned_integer:
  "list_all is_digit s \<Longrightarrow> s \<noteq> [] \<Longrightarrow> read_unsigned s = Some (of_nat (digits_val s))"
proof -
  assume digits: "list_all is_digit s" and "s \<noteq> []"
  from digits have "takeWhile is_digit s = s" "dropWhile is_digit s = []"
    by (simp_all add: takeWhile_eq_all_conv list_all_iff)
  with digits \<open>s \<noteq> []\<close> show ?thesis
    by (simp add: read_unsigned_def read_nat_digits del: takeWhile_eq_all_conv)
qed

lemma read_unsigned_fraction:
  assumes "list_all is_digit s" "s \<noteq> []" "list_all is_digit t" "t \<noteq> []"
  shows "read_unsigned (s @ ''.'' @ t) = Some (of_nat (digits_val (s @ t)) / 10 ^ length t)"
proof -
  have "takeWhile is_digit (s @ ''.'' @ t) = s" "dropWhile is_digit (s @ ''.'' @ t) = ''.'' @ t"
    using assms(1) by (simp_all add: takeWhile_append2 dropWhile_append2 list_all_iff)
  then show ?thesis
    using assms by (simp add: read_unsigned_def Let_def read_nat_digits digits_val_append field_simps)
qed

lemma strip_zeros:
  obtains z where "s = rev (dropWhile (\<lambda>c. c = CHR ''0'') (rev s)) @ replicate z CHR ''0''"
proof -
  have "takeWhile (\<lambda>c. c = CHR ''0'') (rev s) =
      replicate (length (takeWhile (\<lambda>c. c = CHR ''0'') (rev s))) CHR ''0''"
    by (rule replicate_eqI [OF refl]) (auto dest: set_takeWhileD)
  then have "rev s = replicate (length (takeWhile (\<lambda>c. c = CHR ''0'') (rev s))) CHR ''0'' @
      dropWhile (\<lambda>c. c = CHR ''0'') (rev s)"
    by (metis takeWhile_dropWhile_id)
  then have "s = rev (dropWhile (\<lambda>c. c = CHR ''0'') (rev s)) @
      replicate (length (takeWhile (\<lambda>c. c = CHR ''0'') (rev s))) CHR ''0''"
    by (metis rev_append rev_replicate rev_rev_ident)
  then show ?thesis by (rule that)
qed

text \<open>Digits in front of, around and behind the point, all with the value \<open>T * 10 ^ e\<close>.\<close>

lemma read_layout:
  assumes "0 < g"
  shows "read_unsigned (layout_decimal g q) = Some (of_nat g * 10 powi q)"
proof -
  let ?s = "show_nat g"
  define t where "t = rev (dropWhile (\<lambda>c. c = CHR ''0'') (rev ?s))"
  obtain z where s: "?s = t @ replicate z CHR ''0''" unfolding t_def by (rule strip_zeros)
  define k where "k = int (length ?s) + q"
  have digits: "list_all is_digit t"
    using show_nat_digits [of g] s by (simp add: list_all_iff)
  have g: "g = digits_val t * 10 ^ z"
    using digits_val_show_nat [of g] by (simp add: s digits_val_append)
  have t: "t \<noteq> []" using assms g by auto
  have k: "k = int (length t) + (int z + q)" by (simp add: k_def s)
  have "(of_nat g :: rat) * 10 powi q = of_nat (digits_val t) * (10 powi int z * 10 powi q)"
    by (simp add: g)
  also have "\<dots> = of_nat (digits_val t) * 10 powi (int z + q)" by (simp add: power_int_add)
  finally have goal: "(of_nat g :: rat) * 10 powi q = of_nat (digits_val t) * 10 powi (int z + q)" .
  have layout: "layout_decimal g q =
      (if k \<le> 0 then ''0.'' @ replicate (nat (- k)) CHR ''0'' @ t
       else if nat k < length t then take (nat k) t @ ''.'' @ drop (nat k) t
       else t @ replicate (nat k - length t) CHR ''0'')"
    by (simp only: layout_decimal_def Let_def t_def k_def)
  have negative: "(10 :: rat) powi e = 1 / 10 ^ nat (- e)" if "e \<le> 0" for e
    using that powi_split [of 10 e] by simp
  have zeros: "list_all is_digit (replicate n CHR ''0'' @ t)" for n
    using digits by (induction n) simp_all
  have tail: "list_all is_digit (t @ replicate n CHR ''0'')" for n
    using digits by (auto simp: list_all_iff)
  consider "k \<le> 0" | "0 < k" "nat k < length t" | "0 < k" "length t \<le> nat k" by linarith
  then show ?thesis
  proof cases
    case 1
    have "nat (- (int z + q)) = nat (- k) + length t" using 1 k by simp
    with 1 k negative [of "int z + q"] digits t show ?thesis
      using read_unsigned_fraction [of "''0''" "replicate (nat (- k)) CHR ''0'' @ t"] zeros
      by (simp add: layout goal digits_val_append)
  next
    case 2
    have "nat (- (int z + q)) = length (drop (nat k) t)" using 2 k by simp
    with 2 k negative [of "int z + q"] t show ?thesis
      using read_unsigned_fraction [of "take (nat k) t" "drop (nat k) t"] digits
      by (auto simp: layout goal list_all_iff dest: in_set_takeD in_set_dropD)
  next
    case 3
    have e: "int z + q = int (nat k - length t)" using 3 k by simp
    have "(10 :: rat) powi (int z + q) = 10 ^ (nat k - length t)" by (simp only: e power_int_of_nat)
    with 3 digits t show ?thesis
      using read_unsigned_integer [of "t @ replicate (nat k - length t) CHR ''0''"] tail
      by (simp add: layout goal digits_val_append)
  qed
qed

section \<open>Nearest floats\<close>

lemma gap_above: "magnitude_value (Suc (magnitude x)) = magnitude_value (magnitude x) + weight (f64_exponent x)"
  by (simp only: magnitude_value_Suc f64_parts)

lemma gap_below:
  assumes "magnitude x \<noteq> 0"
  shows "(if f64_fraction x = 0 \<and> f64_exponent x \<noteq> 0 then weight (f64_exponent x) / 4
      else weight (f64_exponent x) / 2)
    \<le> (magnitude_value (magnitude x) - magnitude_value (magnitude x - 1)) / 2"
proof -
  from assms obtain c where c: "magnitude x = Suc c" by (cases "magnitude x") auto
  have gap: "magnitude_value (magnitude x) - magnitude_value (magnitude x - 1) = weight (c div 2 ^ 52)"
    by (simp add: c magnitude_value_Suc)
  show ?thesis
  proof (cases "f64_fraction x = 0")
    case True
    then have "Suc c mod 2 ^ 52 = 0" by (simp only: f64_parts c)
    then have "Suc c div 2 ^ 52 = Suc (c div 2 ^ 52)" by (simp add: div_Suc)
    then have "f64_exponent x = Suc (c div 2 ^ 52)" by (simp only: f64_parts c)
    with True show ?thesis unfolding gap by (simp add: weight_Suc)
  next
    case False
    then have "Suc c mod 2 ^ 52 \<noteq> 0" unfolding f64_parts c .
    then have "Suc c div 2 ^ 52 = c div 2 ^ 52" by (simp add: div_Suc)
    then have "f64_exponent x = c div 2 ^ 52" by (simp only: f64_parts c)
    with False show ?thesis unfolding gap by simp
  qed
qed

lemma nearest_magnitude:
  assumes nonzero: "magnitude x \<noteq> 0" and inside: "in_rounding (decode_float x) r" and "b \<noteq> magnitude x"
  shows "\<bar>r - magnitude_value (magnitude x)\<bar> < \<bar>r - magnitude_value b\<bar> \<or>
     (\<bar>r - magnitude_value (magnitude x)\<bar> = \<bar>r - magnitude_value b\<bar> \<and> even (f64_fraction x))"
    and "0 < r"
proof -
  let ?a = "magnitude x"
  let ?v = "magnitude_value ?a" and ?up = "magnitude_value (Suc ?a)" and ?down = "magnitude_value (?a - 1)"
  note bounds = decoded_interval [OF nonzero]
  have inside': "?down + ?v \<le> 2 * r \<and> 2 * r \<le> ?v + ?up \<and>
      (odd (f64_fraction x) \<longrightarrow> ?down + ?v < 2 * r \<and> 2 * r < ?v + ?up)"
    using inside gap_above [of x] gap_below [OF nonzero]
    unfolding in_rounding_def Let_def bounds(2-4) by (auto split: if_splits)
  have order: "?down < ?v" "?v < ?up" using nonzero by (auto intro: magnitude_value_mono)
  have far: "magnitude_value b \<le> ?down \<or> ?up \<le> magnitude_value b"
  proof (cases "b < ?a")
    case True
    then have "b \<le> ?a - 1" by simp
    then show ?thesis by (simp add: magnitude_value_mono_le)
  next
    case False
    with assms(3) have "Suc ?a \<le> b" by simp
    then show ?thesis by (blast intro: magnitude_value_mono_le)
  qed
  show "\<bar>r - ?v\<bar> < \<bar>r - magnitude_value b\<bar> \<or>
      (\<bar>r - ?v\<bar> = \<bar>r - magnitude_value b\<bar> \<and> even (f64_fraction x))"
    using inside' order far by (cases "odd (f64_fraction x)") linarith+
  show "0 < r" using inside' order magnitude_value_nonneg [of "?a - 1"] by linarith
qed

lemma rounds_to_signed:
  assumes nonzero: "magnitude x \<noteq> 0" and inside: "in_rounding (decode_float x) r"
  shows "rounds_to ((if f64_negative x then - 1 else 1) * r) x"
proof -
  let ?s = "if f64_negative x then - 1 else 1 :: rat"
  let ?v = "magnitude_value (magnitude x)"
  have "0 < ?v" using magnitude_value_mono [of 0 "magnitude x"] nonzero by simp
  have pos: "0 < r" by (rule nearest_magnitude(2) [OF nonzero inside, of "Suc (magnitude x)"]) simp
  have "\<bar>?s * r - f64_value x\<bar> < \<bar>?s * r - f64_value y\<bar> \<or>
      (\<bar>?s * r - f64_value x\<bar> = \<bar>?s * r - f64_value y\<bar> \<and> even (f64_fraction x))"
    if "f64_value y \<noteq> f64_value x" for y
  proof -
    let ?b = "magnitude y"
    have x: "\<bar>?s * r - f64_value x\<bar> = \<bar>r - ?v\<bar>" by (simp add: f64_value_def abs_minus_commute)
    show ?thesis
    proof (cases "f64_negative y = f64_negative x")
      case True
      then have "?b \<noteq> magnitude x" using that by (auto simp: f64_value_def)
      moreover from True have "\<bar>?s * r - f64_value y\<bar> = \<bar>r - magnitude_value ?b\<bar>"
        by (simp add: f64_value_def abs_minus_commute)
      ultimately show ?thesis
        unfolding x using nearest_magnitude(1) [OF nonzero inside, of ?b] by simp
    next
      case False
      then have "?s * r - f64_value y = ?s * (r + magnitude_value ?b)"
        by (cases "f64_negative x") (simp_all add: f64_value_def)
      moreover have "0 \<le> r + magnitude_value ?b" using pos by simp
      ultimately have y: "\<bar>?s * r - f64_value y\<bar> = r + magnitude_value ?b"
        by (simp add: abs_mult)
      show ?thesis
      proof (cases "?b = magnitude x")
        case True
        then have "\<bar>r - ?v\<bar> < r + magnitude_value ?b" using pos \<open>0 < ?v\<close> by simp
        then show ?thesis unfolding x y by simp
      next
        case False
        from nearest_magnitude(1) [OF nonzero inside False] pos magnitude_value_nonneg [of ?b]
        show ?thesis unfolding x y by linarith
      qed
    qed
  qed
  then show ?thesis by (simp add: rounds_to_def)
qed

section \<open>The printed text\<close>

lemma magnitude_0_iff: "magnitude x = 0 \<longleftrightarrow> f64_exponent x = 0 \<and> f64_fraction x = 0"
  using div_mult_mod_eq [of "magnitude x" "2 ^ 52"] by (auto simp: f64_parts)

lemma layout_starts_with_digit: "layout_decimal g q \<noteq> [] \<and> hd (layout_decimal g q) \<noteq> CHR ''-''"
  if "0 < g"
proof -
  have "takeWhile is_digit (layout_decimal g q) \<noteq> []"
    using read_layout [OF that, of q]
    by (auto simp: read_unsigned_def Let_def read_nat_def split: if_splits)
  then show ?thesis by (cases "layout_decimal g q") (auto simp: is_digit_def split: if_splits)
qed

lemma f64_to_string_rounds:
  assumes "is_finite x"
  shows "\<exists>r. read_decimal (f64_to_string x) = Some r \<and> rounds_to r x"
proof (cases "magnitude x = 0")
  case True
  then have "f64_to_string x = (if f64_negative x then ''-0'' else ''0'')"
    by (simp add: f64_to_string_def magnitude_0_iff)
  then have "read_decimal (f64_to_string x) = Some 0"
    using read_unsigned_integer [of "''0''"] by (simp add: read_decimal_def)
  moreover have "f64_value x = 0" using True by (simp add: f64_value_def)
  then have "rounds_to 0 x" by (simp add: rounds_to_def)
  ultimately show ?thesis by blast
next
  case False
  obtain g q where gq: "shortest_digits (decode_float x) = (g, q)" by fastforce
  note bounds = decoded_interval(5-7) [OF False]
  note inside = shortest_digits_in_interval [OF bounds gq]
  have text_eq: "f64_to_string x = (if f64_negative x then ''-'' else '''') @ layout_decimal g q"
    using assms False by (auto simp: f64_to_string_def is_finite_def magnitude_0_iff gq)
  have "read_decimal (f64_to_string x) = Some ((if f64_negative x then - 1 else 1) * (of_nat g * 10 powi q))"
    using layout_starts_with_digit [OF inside(2), of q]
    by (simp add: text_eq read_decimal_def read_layout [OF inside(2)])
  with rounds_to_signed [OF False inside(1)] show ?thesis by blast
qed

section \<open>Widening\<close>

definition f32_finite :: "f32 \<Rightarrow> bool" where
  "f32_finite x \<longleftrightarrow> f32_exponent x \<noteq> 255"

definition f32_value :: "f32 \<Rightarrow> rat" where
  "f32_value x =
     (if f32_negative x then - 1 else 1) *
     (of_nat (if f32_exponent x = 0 then f32_fraction x else 2 ^ 23 + f32_fraction x) *
      2 powi (int (max (f32_exponent x) 1) - 150))"

lemma f64_of_parts:
  assumes "e < 2048" and "f < 2 ^ 52"
  shows "f64_negative (f64_of_parts neg e f) = neg"
    and "f64_exponent (f64_of_parts neg e f) = e" and "f64_fraction (f64_of_parts neg e f) = f"
proof -
  have small: "e * 2 ^ 52 + f < 2 ^ 63"
  proof -
    have "e * 2 ^ 52 + f < Suc e * 2 ^ 52" using assms(2) by simp
    also have "\<dots> \<le> 2048 * 2 ^ 52" using assms(1) by (intro mult_le_mono1) simp
    finally show ?thesis by simp
  qed
  let ?n = "(if neg then 2 ^ 63 else 0) + e * 2 ^ 52 + f"
  have "?n < 2 ^ 64" using small by simp
  then have bits: "unat (f64_bits (f64_of_parts neg e f)) = ?n"
    unfolding f64_of_parts_def f64.sel by (rule unat_word_of_nat_64)
  show "f64_negative (f64_of_parts neg e f) = neg"
    unfolding f64_negative_def bits using small by simp
  have "?n = ((if neg then 2048 else 0) + e) * 2 ^ 52 + f" by simp
  moreover have "(m * 2 ^ 52 + f) div 2 ^ 52 = m" "(m * 2 ^ 52 + f) mod 2 ^ 52 = f" for m
    using assms(2) by simp_all
  ultimately have "?n div 2 ^ 52 = (if neg then 2048 else 0) + e" "?n mod 2 ^ 52 = f"
    by (simp_all only:)
  then show "f64_exponent (f64_of_parts neg e f) = e" "f64_fraction (f64_of_parts neg e f) = f"
    unfolding f64_exponent_def f64_fraction_def bits using assms(1) by simp_all
qed

lemma f64_value_of_parts:
  assumes "e < 2048" and "f < 2 ^ 52"
  shows "f64_value (f64_of_parts neg e f) =
     (if neg then - 1 else 1) * (of_nat (if e = 0 then f else 2 ^ 52 + f) * weight e)"
  by (simp only: f64_value_def magnitude_value_parts f64_of_parts [OF assms])

lemma log2_floor_bounds: "0 < n \<Longrightarrow> 2 ^ log2_floor n \<le> n \<and> n < 2 ^ Suc (log2_floor n)"
proof (induction n rule: log2_floor.induct)
  case (1 n)
  show ?case
  proof (cases "n < 2")
    case True
    with 1(2) show ?thesis by (simp add: log2_floor.simps [of n])
  next
    case False
    with 1(1) have "2 ^ log2_floor (n div 2) \<le> n div 2" "n div 2 < 2 ^ Suc (log2_floor (n div 2))"
      by simp_all
    with False show ?thesis by (simp add: log2_floor.simps [of n]) linarith
  qed
qed

lemma f32_bounds: "f32_exponent x < 256" "f32_fraction x < 2 ^ 23"
  by (simp_all add: f32_exponent_def f32_fraction_def)

text \<open>The significand in the wider format, at the right weight.\<close>

lemma widen_normal:
  assumes "f32_exponent x \<noteq> 0"
  shows "of_nat (2 ^ 52 + f32_fraction x * 2 ^ 29) * weight (f32_exponent x + 896) =
     of_nat (2 ^ 23 + f32_fraction x) * 2 powi (int (f32_exponent x) - 150)"
proof -
  have "(2 :: rat) powi (int (f32_exponent x) - 150 - int 29) = 2 powi (int (f32_exponent x) - 150) / 2 ^ 29"
    by (simp add: power_int_diff)
  then have "weight (f32_exponent x + 896) = 2 powi (int (f32_exponent x) - 150) / 2 ^ 29"
    by (simp add: weight_eq)
  then show ?thesis by (simp add: field_simps)
qed

lemma widen_subnormal:
  assumes "0 < f" and "f < 2 ^ 23"
  defines "k \<equiv> log2_floor f"
  shows "k \<le> 22" and "(f - 2 ^ k) * 2 ^ (52 - k) < 2 ^ 52"
    and "of_nat (2 ^ 52 + (f - 2 ^ k) * 2 ^ (52 - k)) * weight (874 + k) = of_nat f * 2 powi (- 149)"
proof -
  from log2_floor_bounds [OF assms(1)] have k: "2 ^ k \<le> f" "f < 2 ^ Suc k" by (simp_all add: k_def)
  then have "(2 :: nat) ^ k < 2 ^ 23" using assms(2) by linarith
  then show k22: "k \<le> 22" using power_less_imp_less_exp [of "2 :: nat" k 23] by simp
  have shift: "(2 :: nat) ^ k * 2 ^ (52 - k) = 2 ^ 52"
    using k22 by (simp flip: power_add)
  have "(f - 2 ^ k) * 2 ^ (52 - k) < 2 ^ k * 2 ^ (52 - k)" using k by simp
  then show "(f - 2 ^ k) * 2 ^ (52 - k) < 2 ^ 52" by (simp only: shift)
  have "2 ^ 52 + (f - 2 ^ k) * 2 ^ (52 - k) = f * 2 ^ (52 - k)"
    unfolding shift [symmetric] distrib_right [symmetric] using k(1) by simp
  moreover have "weight (874 + k) = 2 powi (- 149) / 2 ^ (52 - k)"
  proof -
    have "(2 :: rat) powi (- 149 - int (52 - k)) = 2 powi (- 149) / 2 ^ (52 - k)"
      by (rule trans [OF power_int_diff]) (simp, simp only: power_int_of_nat)
    moreover have "int (874 + k) - 1075 = - 149 - int (52 - k)" using k22 by simp
    ultimately show ?thesis by (simp only: weight_eq)
  qed
  ultimately show "of_nat (2 ^ 52 + (f - 2 ^ k) * 2 ^ (52 - k)) * weight (874 + k) =
      of_nat f * 2 powi (- 149)"
    by simp
qed

lemma f64_from_f32_value:
  "(is_finite (f64_from_f32 x) \<longleftrightarrow> f32_finite x) \<and>
   (f32_finite x \<longrightarrow> f64_value (f64_from_f32 x) = f32_value x)"
proof -
  let ?e = "f32_exponent x" and ?f = "f32_fraction x" and ?neg = "f32_negative x"
  consider (special) "?e = 255" | (normal) "?e \<noteq> 0" "?e \<noteq> 255" | (zero) "?e = 0" "?f = 0"
    | (subnormal) "?e = 0" "?f \<noteq> 0" by blast
  then show ?thesis
  proof cases
    case special
    have "(if ?f = 0 then 0 else 2 ^ 51 + ?f * 2 ^ 29 mod 2 ^ 51) < (2 :: nat) ^ 52"
      using mod_less_divisor [of "2 ^ 51" "?f * 2 ^ 29"] by simp
    from f64_of_parts(2) [OF _ this, of 2047] special show ?thesis
      by (simp add: f64_from_f32_def Let_def is_finite_def f32_finite_def)
  next
    case normal
    have eq: "f64_from_f32 x = f64_of_parts ?neg (?e + 896) (?f * 2 ^ 29)"
      using normal by (simp add: f64_from_f32_def Let_def)
    have small: "?e + 896 < 2048" "?f * 2 ^ 29 < 2 ^ 52" using f32_bounds [of x] by simp_all
    have "max ?e 1 = ?e" using normal by simp
    with normal widen_normal [OF normal(1)] show ?thesis
      unfolding eq f64_value_of_parts [OF small] is_finite_def f64_of_parts [OF small] f32_value_def
      using f32_bounds(1) [of x] by (simp add: f32_finite_def)
  next
    case zero
    have eq: "f64_from_f32 x = f64_of_parts ?neg 0 0"
      using zero by (simp add: f64_from_f32_def Let_def)
    have small: "(0 :: nat) < 2048" "(0 :: nat) < 2 ^ 52" by simp_all
    show ?thesis
      unfolding eq f64_value_of_parts [OF small] is_finite_def f64_of_parts [OF small] f32_value_def
      using zero by (simp add: f32_finite_def)
  next
    case subnormal
    let ?k = "log2_floor ?f"
    have eq: "f64_from_f32 x = f64_of_parts ?neg (874 + ?k) ((?f - 2 ^ ?k) * 2 ^ (52 - ?k))"
      using subnormal by (simp add: f64_from_f32_def Let_def)
    note widen = widen_subnormal [of ?f, OF _ f32_bounds(2)]
    have small: "874 + ?k < 2048" "(?f - 2 ^ ?k) * 2 ^ (52 - ?k) < 2 ^ 52"
      using widen(1,2) subnormal by simp_all
    have "max ?e 1 = 1" using subnormal by simp
    then have value_eq: "f32_value x = (if ?neg then - 1 else 1) * (of_nat ?f * 2 powi (- 149))"
      unfolding f32_value_def using subnormal(1) by (simp only: if_True) simp
    have "f64_value (f64_from_f32 x) = f32_value x"
      unfolding eq f64_value_of_parts [OF small] value_eq using widen(3) subnormal(2) by simp
    moreover have "f64_exponent (f64_from_f32 x) \<noteq> 2047"
      unfolding eq f64_of_parts [OF small] using widen(1) subnormal(2) by simp
    ultimately show ?thesis
      using subnormal(1) by (simp add: is_finite_def f32_finite_def)
  qed
qed

end
