(* ===== verification/Compiler_Properties.thy ===== *)
theory Compiler_Properties
  imports Compiler_Facts Rust_Float_Facts
begin

text \<open>The properties of the query compiler, each with its witness.\<close>

text \<open>
  C14: the compiler refines its abstract specification.  On every input, errors included,
  \<open>compile_condition\<close> is validation, then planning, then rendering the planned tree from
  placeholder 1; \<open>compile_find\<close> is validation, then planning the four clauses in the order
  filter, sort keys, limit, offset, then rendering the clauses present, one space apart.
\<close>

theorem compile_refines_plan:
  "compile_condition api m c =
     and_then (condition_validate api c)
       (\<lambda>_. map_ok (\<lambda>t. \<lparr>sql = render 0 t, bindings = binds t\<rparr>) (plan api m c)) \<and>
   compile_find api m params =
     and_then (params_validate api params) (\<lambda>_. map_ok render_find (plan_find api m params))"
  by (simp add: compile_condition_eq compile_find_eq)

text \<open>
  C12: the emitted fragment is safe SQL.  The text of a compiled find is read by the tokenizer;
  its parameters, from left to right, are exactly 1 to the number of bindings; every quoted
  identifier is a column of the field map or the collation name; there is no number, no comment
  and no string literal but the empty one.
\<close>

theorem compiled_find_is_safe:
  assumes "field_map_ok m" and "compile_find api m params = Ok q"
  shows "\<exists>ts. tokenize (sql q) = Some ts \<and>
           param_numbers ts = [1 ..< Suc (length (bindings q))] \<and>
           list_all (harmless (column_names (ran (columns m)))) ts"
proof -
  from assms(2) obtain p where p: "plan_find api m params = Ok p" and q: "q = render_find p"
    by (auto simp: compile_find_eq and_then_eq_Ok map_ok_eq_Ok)
  from well_placed_find [OF assms(1) p] show ?thesis
    unfolding q render_find_def well_placed_def finish_def by (auto dest: reads_lex)
qed

theorem compiled_find_is_safe_witness:
  "\<exists>q ts. compile_find sample_api sample_fields
       \<lparr>condition_of = Some (sample_condition True 18 ''x''), sort_keys = [], limit = Some 20,
        offset = 40\<rparr> = Ok q \<and> length (bindings q) = 5 \<and>
     tokenize (sql q) = Some ts \<and> param_numbers ts = [1, 2, 3, 4, 5]"
proof -
  let ?p = "\<lparr>condition_of = Some (sample_condition True 18 ''x''), sort_keys = [],
    limit = Some 20, offset = 40\<rparr>"
  obtain q where q: "compile_find sample_api sample_fields ?p = Ok q" and len: "length (bindings q) = 5"
    by (simp add: compile_find_eq plan_find_def plan_where_def plan_order_def plan_number_def
        sample_condition_def sample_defs plan_predicate_def plan_comparison_def
        normalize_binding_def bind_scalar_def resolve_def render_find_def finish_def add_where_def
        add_order_def add_number_def)
  from compiled_find_is_safe [OF field_map_ok_sample q] obtain ts where
    "tokenize (sql q) = Some ts" "param_numbers ts = [1 ..< Suc (length (bindings q))]" by blast
  with q len show ?thesis by (auto simp: upt_rec)
qed

text \<open>
  C13: values never reach the SQL text.  Two conditions of the same shape (same fields, operators,
  groups and set sizes) that both compile give the same text: changing the values only changes
  the bindings.
\<close>

theorem sql_independent_of_values:
  assumes "erase c = erase c'"
    and "compile_condition api m c = Ok q" and "compile_condition api m c' = Ok q'"
  shows "sql q = sql q' \<and> length (bindings q) = length (bindings q')"
proof -
  from assms(2,3) obtain t t' where
    t: "plan api m c = Ok t" "q = \<lparr>sql = render 0 t, bindings = binds t\<rparr>"
    and t': "plan api m c' = Ok t'" "q' = \<lparr>sql = render 0 t', bindings = binds t'\<rparr>"
    by (auto simp: compile_condition_eq and_then_eq_Ok map_ok_eq_Ok)
  from plan_skeleton [OF assms(1) t(1) t'(1)] have "skeleton t = skeleton t'" .
  then show ?thesis
    using render_skeleton [of 0 t] render_skeleton [of 0 t'] length_binds_skeleton [of t]
      length_binds_skeleton [of t'] t(2) t'(2) by simp
qed

theorem sql_independent_of_values_witness:
  "\<exists>q q'. compile_condition sample_api sample_fields (sample_condition True 18 ''x'') = Ok q \<and>
     compile_condition sample_api sample_fields (sample_condition False 3 ''; DROP TABLE'') = Ok q' \<and>
     sql q = sql q'"
proof -
  let ?c = "sample_condition True 18 ''x''" and ?c' = "sample_condition False 3 ''; DROP TABLE''"
  have e: "erase ?c = erase ?c'" by (simp add: sample_condition_def)
  obtain q where q: "compile_condition sample_api sample_fields ?c = Ok q"
    by (simp add: compile_condition_eq sample_condition_def sample_defs plan_predicate_def
        plan_comparison_def normalize_binding_def bind_scalar_def resolve_def)
  obtain q' where q': "compile_condition sample_api sample_fields ?c' = Ok q'"
    by (simp add: compile_condition_eq sample_condition_def sample_defs plan_predicate_def
        plan_comparison_def normalize_binding_def bind_scalar_def resolve_def)
  from sql_independent_of_values [OF e q q'] q q' show ?thesis by blast
qed

text \<open>
  The allow-list is enforced.  A condition that compiles mentions mapped fields only, and so
  does a find, in its filter and in its sort keys.
\<close>

theorem compiled_fields_are_mapped:
  assumes "compile_find api m params = Ok q"
  shows "(\<forall>c. condition_of params = Some c \<longrightarrow> condition_fields c \<subseteq> dom (columns m)) \<and>
         sort_field ` set (sort_keys params) \<subseteq> dom (columns m)"
proof -
  from assms obtain p where p: "plan_find api m params = Ok p"
    by (auto simp: compile_find_eq and_then_eq_Ok map_ok_eq_Ok)
  have "sort_field s \<in> dom (columns m)" if s: "s \<in> set (sort_keys params)" for s
  proof (rule ccontr)
    assume "sort_field s \<notin> dom (columns m)"
    then have "\<And>c. resolve api m (sort_field s) \<noteq> Ok c" by (auto simp: resolve_eq_Ok)
    moreover have "list_all2 (\<lambda>s o'. map_ok (\<lambda>c. (c, direction s)) (resolve api m (sort_field s)) = Ok o')
        (sort_keys params) (p_order p)"
      using plan_find_fields(2) [OF p] by (simp add: plan_order_def try_map_Ok_iff)
    ultimately show False
      using s by (fastforce simp: list_all2_conv_all_nth in_set_conv_nth map_ok_eq_Ok)
  qed
  moreover have "condition_fields c \<subseteq> dom (columns m)" if "condition_of params = Some c" for c
    using plan_find_fields(1) [OF p] that plan_fields
    by (fastforce simp: plan_where_def map_ok_eq_Ok)
  ultimately show ?thesis by blast
qed

theorem compiled_fields_are_mapped_witness:
  "sort_field ` set (sort_keys \<lparr>condition_of = None,
      sort_keys = [\<lparr>sort_field = Field_Name ''age'', direction = Descending\<rparr>],
      limit = None, offset = 0\<rparr>) \<subseteq> dom (columns sample_fields)"
proof -
  let ?p = "\<lparr>condition_of = None,
      sort_keys = [\<lparr>sort_field = Field_Name ''age'', direction = Descending\<rparr>],
      limit = None, offset = 0\<rparr>"
  obtain q where "compile_find sample_api sample_fields ?p = Ok q"
    by (simp add: compile_find_eq plan_find_def plan_where_def plan_order_def plan_number_def
        sample_defs resolve_def)
  from compiled_fields_are_mapped [OF this] show ?thesis by blast
qed

text \<open>
  The compiler fails with validation errors only.  If the checks of the other crate refuse
  with validation errors, so does every entry point of the compiler: the infrastructure error of
  the unexpected operator branch is never returned.
\<close>

theorem compiler_errors_are_validation:
  assumes "validators_validate api"
    and "compile_condition api m c = Err e \<or> compile_find api m params = Err e \<or>
         compile_count api m params = Err e"
  shows "kind e = Validation"
  using assms(2) plan_Err [OF assms(1)] plan_find_Err [OF assms(1)] assms(1)
  by (auto simp: compile_condition_eq compile_find_eq compile_count_eq and_then_eq_Err
      map_ok_eq_Err validators_validate_def plan_where_def split: option.splits)

theorem compiler_errors_are_validation_witness:
  "\<exists>e. compile_condition sample_api sample_fields
         (Predicate (Field_Name ''id'') Op_Like (Some (Scalar_String ''67e5%''))) = Err e \<and>
       kind e = Validation"
proof -
  let ?c = "Predicate (Field_Name ''id'') Op_Like (Some (Scalar_String ''67e5%''))"
  obtain e where e: "compile_condition sample_api sample_fields ?c = Err e"
    by (simp add: compile_condition_eq sample_defs plan_predicate_def resolve_def)
  then show ?thesis
    using compiler_errors_are_validation [OF validators_validate_sample, of sample_fields ?c e] by blast
qed

text \<open>A query followed by one pagination clause: the next placeholder carries the count.\<close>

definition paged :: "string \<Rightarrow> 64 word \<Rightarrow> pg_compiled_query \<Rightarrow> pg_compiled_query" where
  "paged keyword n q =
     \<lparr>sql = sql q @ (if sql q = [] then [] else '' '') @ keyword @ '' $'' @
        show_nat (Suc (length (bindings q))),
      bindings = bindings q @ [Bind_I64 n]\<rparr>"

lemma write_count_clause_paged:
  "write_count_clause (keyword @ '' '') failure n out =
     (if unat n < 2 ^ 63
      then Ok \<lparr>out_sql = sql (paged keyword n (finish out)), out_bindings = bindings (paged keyword n (finish out))\<rparr>
      else Err (err_validation failure))"
  by (simp add: write_count_clause_def i64_try_from_u64_def paged_def finish_def push_binding_def
      push_str_def separate_clause_def cast_suffix_def Let_def)

lemma write_limit_paged:
  "write_limit bound out =
     (case bound of None \<Rightarrow> Ok out | Some n \<Rightarrow>
        (if unat n < 2 ^ 63
         then Ok \<lparr>out_sql = sql (paged ''LIMIT'' n (finish out)), out_bindings = bindings (paged ''LIMIT'' n (finish out))\<rparr>
         else Err (err_validation ''PostgreSQL limit exceeds BIGINT range'')))"
  using write_count_clause_paged [of "''LIMIT''"] by (simp add: write_limit_def split: option.split)

lemma write_offset_paged:
  "write_offset off out =
     (if off = 0 then Ok out
      else if unat off < 2 ^ 63
      then Ok \<lparr>out_sql = sql (paged ''OFFSET'' off (finish out)), out_bindings = bindings (paged ''OFFSET'' off (finish out))\<rparr>
      else Err (err_validation ''PostgreSQL offset exceeds BIGINT range''))"
  using write_count_clause_paged [of "''OFFSET''"] by (simp add: write_offset_def word_gt_0)

text \<open>The output before pagination.\<close>

definition unpaged :: "soaprs_api \<Rightarrow> pg_field_map \<Rightarrow> find_params \<Rightarrow> compiler_output soap_result" where
  "unpaged api m params =
     and_then (write_where api m (condition_of params) output_default) (write_order api m (sort_keys params))"

lemma compile_find_unpaged:
  assumes "params_validate api params = Ok ()"
  shows "compile_find api m params =
     and_then (unpaged api m params) (\<lambda>out.
     and_then (write_limit (limit params) out) (\<lambda>out3.
     and_then (write_offset (offset params) out3) (\<lambda>out4. Ok (finish out4))))"
  using assms
  by (cases "write_where api m (condition_of params) output_default") (simp_all add: compile_find_def unpaged_def)

text \<open>
  C26: pagination is exact.  Whatever its condition and sort keys, a find compiles exactly when it
  compiles without pagination and limit and offset fit a signed 64-bit integer; what does not fit is
  refused with the error for it.  The compiled query is the one without pagination, followed by a
  \<open>LIMIT\<close> clause if there is a limit and by an \<open>OFFSET\<close> clause if the offset is positive, each with
  the next placeholder, which carries a count that PostgreSQL reads as the unsigned value asked for.
\<close>

theorem pagination_is_exact:
  assumes "params_validate api params = Ok ()"
    and "params_validate api (params\<lparr>limit := None, offset := 0\<rparr>) = Ok ()"
  shows "(is_ok (compile_find api m params) \<longleftrightarrow>
            is_ok (compile_find api m (params\<lparr>limit := None, offset := 0\<rparr>)) \<and>
            (\<forall>u. limit params = Some u \<longrightarrow> unat u < 2 ^ 63) \<and> unat (offset params) < 2 ^ 63) \<and>
         (\<forall>q0. compile_find api m (params\<lparr>limit := None, offset := 0\<rparr>) = Ok q0 \<longrightarrow>
            compile_find api m params =
              (if \<exists>u. limit params = Some u \<and> 2 ^ 63 \<le> unat u
               then Err (err_validation ''PostgreSQL limit exceeds BIGINT range'')
               else if 2 ^ 63 \<le> unat (offset params)
               then Err (err_validation ''PostgreSQL offset exceeds BIGINT range'')
               else Ok ((if offset params = 0 then id else paged ''OFFSET'' (offset params))
                 ((case limit params of None \<Rightarrow> id | Some u \<Rightarrow> paged ''LIMIT'' u) q0)))) \<and>
         (is_ok (compile_find api m params) \<longrightarrow>
            sint (offset params) = uint (offset params) \<and>
            (\<forall>u. limit params = Some u \<longrightarrow> sint u = uint u))"
proof -
  let ?p0 = "params\<lparr>limit := None, offset := 0\<rparr>"
  have p0: "compile_find api m ?p0 = map_ok finish (unpaged api m params)"
    using compile_find_unpaged [OF assms(2), of m]
    by (cases "unpaged api m params") (simp_all add: unpaged_def write_limit_paged write_offset_paged)
  note steps = compile_find_unpaged [OF assms(1), of m]
  have finished: "finish \<lparr>out_sql = sql q, out_bindings = bindings q\<rparr> = q" for q
    by (simp add: finish_def)
  have exact: "compile_find api m params =
      (if \<exists>u. limit params = Some u \<and> 2 ^ 63 \<le> unat u
       then Err (err_validation ''PostgreSQL limit exceeds BIGINT range'')
       else if 2 ^ 63 \<le> unat (offset params)
       then Err (err_validation ''PostgreSQL offset exceeds BIGINT range'')
       else Ok ((if offset params = 0 then id else paged ''OFFSET'' (offset params))
         ((case limit params of None \<Rightarrow> id | Some u \<Rightarrow> paged ''LIMIT'' u) q0)))"
    if "compile_find api m ?p0 = Ok q0" for q0
    using that steps p0
    by (auto simp: map_ok_eq_Ok write_limit_paged write_offset_paged finished not_less split: option.split)
  have "is_ok (compile_find api m params) \<Longrightarrow> is_ok (compile_find api m ?p0)"
    using steps p0 by (cases "unpaged api m params") simp_all
  with exact have compiles: "is_ok (compile_find api m params) \<longleftrightarrow>
      is_ok (compile_find api m ?p0) \<and>
      (\<forall>u. limit params = Some u \<longrightarrow> unat u < 2 ^ 63) \<and> unat (offset params) < 2 ^ 63"
    by (cases "compile_find api m ?p0") (auto simp: not_less split: if_splits)
  with exact sint_eq_uint_small show ?thesis by blast
qed

theorem pagination_is_exact_witness:
  "(\<exists>q0. compile_find sample_api sample_fields
       \<lparr>condition_of = Some (sample_condition True 18 ''x''), sort_keys = [], limit = None, offset = 0\<rparr> = Ok q0 \<and>
     compile_find sample_api sample_fields
       \<lparr>condition_of = Some (sample_condition True 18 ''x''), sort_keys = [], limit = Some 20, offset = 40\<rparr> =
       Ok (paged ''OFFSET'' 40 (paged ''LIMIT'' 20 q0))) \<and>
   \<not> is_ok (compile_find sample_api sample_fields
     \<lparr>condition_of = Some (sample_condition True 18 ''x''), sort_keys = [], limit = Some (2 ^ 63), offset = 0\<rparr>)"
proof -
  let ?p = "\<lparr>condition_of = Some (sample_condition True 18 ''x''), sort_keys = [], limit = Some 20, offset = 40\<rparr>"
  let ?q = "\<lparr>condition_of = Some (sample_condition True 18 ''x''), sort_keys = [], limit = Some (2 ^ 63), offset = 0\<rparr>"
  have ok: "params_validate sample_api ?p = Ok ()" "params_validate sample_api ?q = Ok ()"
    "params_validate sample_api (?p\<lparr>limit := None, offset := 0\<rparr>) = Ok ()"
    "params_validate sample_api (?q\<lparr>limit := None, offset := 0\<rparr>) = Ok ()"
    by (simp_all add: sample_api_def)
  obtain q0 where q0: "compile_find sample_api sample_fields
      \<lparr>condition_of = Some (sample_condition True 18 ''x''), sort_keys = [], limit = None, offset = 0\<rparr> = Ok q0"
    by (simp add: compile_find_eq plan_find_def plan_where_def plan_order_def plan_number_def
        sample_condition_def sample_defs plan_predicate_def plan_comparison_def
        normalize_binding_def bind_scalar_def resolve_def)
  then show ?thesis
    using pagination_is_exact [OF ok(1,3), of sample_fields]
      pagination_is_exact [OF ok(2,4), of sample_fields]
    by simp
qed

text \<open>
  A count filters like the find it belongs to.  Whenever a find compiles, the count of the
  same parameters compiles too; its text and its bindings are an initial part of the find's, so
  that sort keys, limit and offset are dropped and nothing else is, and the filter keeps its
  placeholder numbers.
\<close>

theorem count_matches_find:
  assumes "compile_find api m params = Ok q"
  shows "\<exists>r rest more. compile_count api m params = Ok r \<and>
           sql q = sql r @ rest \<and> bindings q = bindings r @ more \<and>
           (sort_keys params = [] \<and> limit params = None \<and> offset params = 0 \<longrightarrow> r = q)"
proof -
  from assms obtain p where v: "params_validate api params = Ok ()"
    and p: "plan_find api m params = Ok p" and q: "q = render_find p"
    by (auto simp: compile_find_eq and_then_eq_Ok map_ok_eq_Ok)
  let ?w = "add_where (p_where p) output_default"
  have r: "compile_count api m params = Ok (finish ?w)"
    using plan_find_fields(1) [OF p] v by (simp add: compile_count_eq)
  have grow: "\<exists>rest more. out_sql (append_clause s bs out) = out_sql out @ rest \<and>
      out_bindings (append_clause s bs out) = out_bindings out @ more" for s bs out
    by auto
  have "\<exists>rest more. sql q = out_sql ?w @ rest \<and> bindings q = out_bindings ?w @ more"
    unfolding q render_find_def
    by (auto simp: finish_def add_order_def add_number_def split: option.split)
  moreover have "finish ?w = q"
    if "sort_keys params = []" "limit params = None" "offset params = 0"
    using that plan_find_fields [OF p]
    by (simp add: q render_find_def add_number_def add_order_def plan_order_def)
  ultimately show ?thesis using r by (auto simp: finish_def)
qed

theorem count_matches_find_witness:
  "\<exists>r. compile_count sample_api sample_fields
     \<lparr>condition_of = Some (sample_condition True 18 ''x''), sort_keys = [], limit = Some 20,
      offset = 40\<rparr> = Ok r"
proof -
  let ?p = "\<lparr>condition_of = Some (sample_condition True 18 ''x''), sort_keys = [],
    limit = Some 20, offset = 40\<rparr>"
  obtain q where "compile_find sample_api sample_fields ?p = Ok q"
    by (simp add: compile_find_eq plan_find_def plan_where_def plan_order_def plan_number_def
        sample_condition_def sample_defs plan_predicate_def plan_comparison_def
        normalize_binding_def bind_scalar_def resolve_def)
  from count_matches_find [OF this] show ?thesis by blast
qed

text \<open>
  Integers are bound without loss of precision.  Signed and unsigned 64-bit values bound to
  a numeric column become decimal text that reads back as exactly the value, from a portable
  condition and from an entity alike.
\<close>

theorem integer_binding_exact:
  "(\<exists>s. normalize_entity_binding Kind_Numeric (Pg_I64 i) = Ok (Bind_Numeric s) \<and>
       bind_scalar Kind_Numeric (Scalar_I64 i) = Ok (Bind_Numeric s) \<and> read_int s = Some (sint i)) \<and>
   (\<exists>s. normalize_entity_binding Kind_Numeric (Pg_U64 u) = Ok (Bind_Numeric s) \<and>
       bind_scalar Kind_Numeric (Scalar_U64 u) = Ok (Bind_Numeric s) \<and> read_nat s = Some (unat u))"
  by (simp add: normalize_entity_binding_def value_validate_def bind_pg_value_def bind_scalar_def)

text \<open>
  C27: a binding has the type its placeholder announces.  Every binding accepted for a column,
  from a condition or from an entity and typed nulls included, becomes a driver argument of the
  column's own Rust type, or a text argument behind a placeholder with a cast.
\<close>

theorem bindings_fit_placeholders:
  assumes "normalize_binding api k v = Ok b \<or> normalize_entity_binding k w = Ok b"
  shows "argument_fits k (argument_of b)"
  using assms bind_scalar_fits bind_pg_value_fits
  by (auto simp: normalize_binding_def normalize_entity_binding_def and_then_eq_Ok)

theorem bindings_fit_placeholders_witness:
  "argument_fits Kind_TimestampTz (argument_of (Bind_Null Kind_TimestampTz)) \<and>
   argument_fits Kind_Uuid (argument_of (Bind_Text ''67e5''))"
proof -
  have "normalize_entity_binding Kind_TimestampTz Pg_Null = Ok (Bind_Null Kind_TimestampTz)"
    "normalize_binding sample_api Kind_Uuid (Scalar_String ''67e5'') = Ok (Bind_Text ''67e5'')"
    by (simp_all add: normalize_entity_binding_def value_validate_def bind_pg_value_def
        normalize_binding_def bind_scalar_def sample_api_def)
  then show ?thesis
    using bindings_fit_placeholders [of sample_api Kind_TimestampTz Scalar_Null _ Pg_Null]
      bindings_fit_placeholders [of sample_api Kind_Uuid _ _ Pg_Null] by blast
qed

text \<open>
  Arguments keep the placeholder order.  Encoding a compiled query succeeds exactly when the
  driver encodes every binding, and then the arguments are the bindings in order; otherwise the
  error is an infrastructure error that carries the encoder's error of one of the bindings.
\<close>

theorem arguments_follow_bindings:
  "(\<forall>s args. into_sqlx_parts enc q = Ok (s, args) \<longleftrightarrow>
      s = sql q \<and> args = map argument_of (bindings q) \<and>
      (\<forall>b \<in> set (bindings q). enc (argument_of b) = None)) \<and>
   (\<forall>e. into_sqlx_parts enc q = Err e \<longrightarrow>
      kind e = Infrastructure \<and>
      (\<exists>b \<in> set (bindings q). \<exists>err. enc (argument_of b) = Some err \<and>
         source e = Some (Pg_Binding_Encode_Error err)))"
  using add_bindings_Err [of enc "bindings q" "[]"]
  by (auto simp: into_sqlx_parts_def and_then_eq_Ok and_then_eq_Err into_arguments_eq_Ok)
    (auto simp: into_arguments_def)

theorem arguments_follow_bindings_witness:
  "into_sqlx_parts (\<lambda>a. None) \<lparr>sql = ''x'', bindings = [Bind_Bool True, Bind_Null Kind_Uuid]\<rparr> =
     Ok (''x'', [Add_Bool True, Add_None_String])"
  using arguments_follow_bindings [of "\<lambda>a. None"
      "\<lparr>sql = ''x'', bindings = [Bind_Bool True, Bind_Null Kind_Uuid]\<rparr>"]
  by (simp add: argument_of_def)

text \<open>
  Empty sets have portable null semantics.  With the field mapped and validation passed,
  membership in the empty set compiles to FALSE, and its negation to a not-null test of the
  column; neither binds anything.
\<close>

theorem empty_set_rewrite:
  assumes "columns m f = Some c"
    and "\<And>op. condition_validate api (Predicate f op (Some (Scalar_List []))) = Ok ()"
  shows "compile_condition api m (Predicate f Op_In (Some (Scalar_List []))) =
           Ok \<lparr>sql = ''FALSE'', bindings = []\<rparr> \<and>
         compile_condition api m (Predicate f Op_Not_In (Some (Scalar_List []))) =
           Ok \<lparr>sql = column_expression c @ '' IS NOT NULL'', bindings = []\<rparr>"
  using assms
  by (simp add: compile_condition_eq resolve_def plan_predicate_def plan_set_def)

theorem empty_set_rewrite_witness:
  "compile_condition sample_api sample_fields
     (Predicate (Field_Name ''active'') Op_Not_In (Some (Scalar_List []))) =
   Ok \<lparr>sql = dquote # ''is_active'' @ [dquote] @ '' IS NOT NULL'', bindings = []\<rparr>"
  using empty_set_rewrite [of sample_fields "Field_Name ''active''" _ sample_api]
  by (simp add: sample_defs column_expression_def quoted_def)

text \<open>
  C28: integers of every width are stored exactly.  An 8, 16, 32 or 64 bit integer converted to a
  persistence value and bound to a numeric column is the decimal text of the integer it was,
  signed or unsigned; nothing is truncated or reinterpreted on the way.
\<close>

theorem integer_conversions_are_exact:
  fixes i :: "'a::len word" and u :: "'b::len word"
  assumes "LENGTH('a) \<le> 64" and "LENGTH('b) \<le> 64"
  shows "(\<exists>s. normalize_entity_binding Kind_Numeric (from_signed i) = Ok (Bind_Numeric s) \<and>
            read_int s = Some (sint i)) \<and>
         (\<exists>s. normalize_entity_binding Kind_Numeric (from_unsigned u) = Ok (Bind_Numeric s) \<and>
            read_nat s = Some (unat u))"
proof -
  have "sint (scast i :: 64 word) = sint i"
    using assms(1) by (simp add: sint_up_scast is_up)
  moreover have "uint (ucast u :: 64 word) = uint u"
    using assms(2) by (simp add: uint_up_ucast is_up)
  then have "unat (ucast u :: 64 word) = unat u" by (simp only: unat_eq_nat_uint)
  ultimately show ?thesis
    by (simp add: from_signed_def from_unsigned_def normalize_entity_binding_def value_validate_def
        bind_pg_value_def)
qed

theorem integer_conversions_are_exact_witness:
  "\<exists>s. normalize_entity_binding Kind_Numeric (from_signed (- 128 :: 8 word)) = Ok (Bind_Numeric s) \<and>
     read_int s = Some (- 128)"
  using integer_conversions_are_exact [of "- 128 :: 8 word" "0 :: 32 word"] by simp

text \<open>
  C29: floats are stored without loss.  A finite 64-bit float bound to a numeric column, from an
  entity or from a condition, becomes decimal text that reads back to a number whose nearest float
  (ties to even) is that float.  A finite 32-bit float is widened to a finite float of the same
  value.  A float that is not finite, of either width, is refused for every column.
\<close>

theorem floats_are_bound_without_loss:
  assumes "is_finite x" and "f32_finite z" and "\<not> is_finite u" and "\<not> f32_finite v"
  shows "(\<exists>s r. normalize_entity_binding Kind_Numeric (Pg_F64 x) = Ok (Bind_Numeric s) \<and>
            bind_scalar Kind_Numeric (Scalar_F64 x) = Ok (Bind_Numeric s) \<and>
            read_decimal s = Some r \<and> rounds_to r x) \<and>
         (\<exists>y. from_f32 z = from_f64 y \<and> is_finite y \<and> f64_value y = f32_value z) \<and>
         (\<exists>e. kind e = Validation \<and> normalize_entity_binding k (from_f64 u) = Err e) \<and>
         (\<exists>e. kind e = Validation \<and> normalize_entity_binding k (from_f32 v) = Err e)"
proof -
  have "normalize_entity_binding Kind_Numeric (Pg_F64 x) = Ok (Bind_Numeric (f64_to_string x))"
    "bind_scalar Kind_Numeric (Scalar_F64 x) = Ok (Bind_Numeric (f64_to_string x))"
    using assms(1)
    by (simp_all add: normalize_entity_binding_def value_validate_def bind_pg_value_def bind_scalar_def)
  moreover have "\<exists>e. kind e = Validation \<and> normalize_entity_binding k (Pg_F64 y) = Err e"
    if "\<not> is_finite y" for y
    using that by (simp add: normalize_entity_binding_def value_validate_def)
  moreover have "\<not> is_finite (f64_from_f32 v)" "is_finite (f64_from_f32 z)"
    "f64_value (f64_from_f32 z) = f32_value z"
    using f64_from_f32_value assms(2,4) by blast+
  ultimately show ?thesis
    using f64_to_string_rounds [OF assms(1)] assms(3) by (simp add: from_f32_def from_f64_def)
qed

text \<open>One tenth: \<open>0.1_f64\<close>; the smallest positive \<open>f32\<close>; and the infinities.\<close>

theorem floats_are_bound_without_loss_witness:
  "\<exists>s r. normalize_entity_binding Kind_Numeric (Pg_F64 (F64 0x3FB999999999999A)) = Ok (Bind_Numeric s) \<and>
     read_decimal s = Some r \<and> rounds_to r (F64 0x3FB999999999999A)"
proof -
  have "is_finite (F64 0x3FB999999999999A)" "\<not> is_finite (F64 0x7FF0000000000000)"
    "f32_finite (F32 1)" "\<not> f32_finite (F32 0x7F800000)"
    by (simp_all add: is_finite_def f32_finite_def f64_exponent_def f32_exponent_def)
  from floats_are_bound_without_loss [OF this(1,3,2,4)] show ?thesis by blast
qed

text \<open>
  C30: where filtering and storing agree, and where not.  Take a portable scalar that converts to a
  persistence value.  For a boolean, numeric, text or binary column, a non-null scalar that is not a
  non-finite float is bound in a filter exactly as its persistence value is in a write: what is stored
  is what the filter compares with.  A null is refused in a filter and stored as a typed null; a
  non-finite float is never stored, for whatever column.  For the six native types a filter takes
  the text of a string only, to be cast, while the write of a portable scalar is refused: a
  native value has to be stored.
\<close>

theorem query_and_entity_bindings_agree:
  assumes "value_try_from api v = Ok w"
  shows "(v = Scalar_Null \<longrightarrow>
            normalize_binding api k v = Err (err_validation ''use IS NULL or IS NOT NULL for PostgreSQL null values'') \<and>
            normalize_entity_binding k w = Ok (Bind_Null k)) \<and>
         ((\<exists>x. v = Scalar_F64 x \<and> \<not> is_finite x) \<longrightarrow>
            (\<exists>t. normalize_entity_binding k w = Err (err_validation t))) \<and>
         (v \<noteq> Scalar_Null \<and> (\<forall>x. v = Scalar_F64 x \<longrightarrow> is_finite x) \<longrightarrow>
            (if k \<in> {Kind_Bool, Kind_Numeric, Kind_Text, Kind_Bytes}
             then \<forall>b. normalize_binding api k v = Ok b \<longleftrightarrow> normalize_entity_binding k w = Ok b
             else (\<forall>b. normalize_binding api k v = Ok b \<longleftrightarrow> (\<exists>s. v = Scalar_String s \<and> b = Bind_Text s)) \<and>
                  (\<exists>t. normalize_entity_binding k w = Err (err_validation t))))"
proof -
  have "scalar_validate api v = Ok ()"
    using assms by (auto simp: value_try_from_def and_then_eq_Ok)
  then have bound: "normalize_binding api k v = bind_scalar k v"
    by (simp add: normalize_binding_def)
  have stored: "normalize_entity_binding k w = bind_pg_value k w" if "\<And>x. v = Scalar_F64 x \<Longrightarrow> is_finite x"
    using assms that by (cases v)
      (auto simp: normalize_entity_binding_def value_validate_def value_try_from_def and_then_eq_Ok)
  note table = value_try_from_def and_then_eq_Ok bind_scalar_def bind_pg_value_def
  show ?thesis
  proof (cases "\<exists>x. v = Scalar_F64 x \<and> \<not> is_finite x")
    case True
    with assms show ?thesis
      by (auto simp: normalize_entity_binding_def value_validate_def value_try_from_def and_then_eq_Ok)
  next
    case False
    then have stored: "normalize_entity_binding k w = bind_pg_value k w" by (intro stored) blast
    show ?thesis unfolding bound stored
      using assms False by (cases v) (cases k; auto simp: table)+
  qed
qed

theorem query_and_entity_bindings_agree_witness:
  "normalize_entity_binding Kind_Text (Pg_Text ''a'') = Ok (Bind_Text ''a'') \<and>
   normalize_binding sample_api Kind_Uuid (Scalar_String ''a'') = Ok (Bind_Text ''a'') \<and>
   \<not> is_ok (normalize_entity_binding Kind_Uuid (Pg_Text ''a'')) \<and>
   normalize_entity_binding Kind_Date Pg_Null = Ok (Bind_Null Kind_Date)"
proof -
  have conv: "value_try_from sample_api (Scalar_String ''a'') = Ok (Pg_Text ''a'')"
    "value_try_from sample_api Scalar_Null = Ok Pg_Null"
    by (simp_all add: value_try_from_def sample_api_def)
  have "normalize_binding sample_api Kind_Text (Scalar_String ''a'') = Ok (Bind_Text ''a'')"
    by (simp add: normalize_binding_def bind_scalar_def sample_api_def)
  then have "normalize_entity_binding Kind_Text (Pg_Text ''a'') = Ok (Bind_Text ''a'')"
    using query_and_entity_bindings_agree [OF conv(1), of Kind_Text] by simp
  moreover have uuid: "\<forall>b. normalize_binding sample_api Kind_Uuid (Scalar_String ''a'') = Ok b \<longleftrightarrow> b = Bind_Text ''a''"
    "\<exists>t. normalize_entity_binding Kind_Uuid (Pg_Text ''a'') = Err (err_validation t)"
    using query_and_entity_bindings_agree [OF conv(1), of Kind_Uuid] by simp_all
  then have "normalize_binding sample_api Kind_Uuid (Scalar_String ''a'') = Ok (Bind_Text ''a'')" by blast
  moreover have "\<not> is_ok (normalize_entity_binding Kind_Uuid (Pg_Text ''a''))"
    using uuid(2) by (elim exE) simp
  moreover have "normalize_entity_binding Kind_Date Pg_Null = Ok (Bind_Null Kind_Date)"
    using query_and_entity_bindings_agree [OF conv(2), of Kind_Date] by simp
  ultimately show ?thesis by blast
qed

end
