(* ===== verification/Sql_Grammar.thy ===== *)
theory Sql_Grammar
  imports Sql_Tokens
begin

text \<open>
  A reference grammar for the clauses the crate emits, after PostgreSQL's precedence: a cast and
  \<open>COLLATE\<close> bind to the operand before them, then come the tests (\<open>IS NULL\<close>, \<open>IN\<close>, comparisons,
  \<open>LIKE\<close>), then \<open>AND\<close>, then \<open>OR\<close>; parentheses group.  Like the tokenizer it is written without
  looking at the compiler.  The value of a parsed expression is the one of SQL, in three-valued
  logic: \<open>None\<close> stands for \<open>NULL\<close> and for unknown.
\<close>

section \<open>Expressions\<close>

datatype value_expr =
  V_Column string
| V_Param nat
| V_Cast value_expr string
| V_Collate value_expr string

datatype bool_expr =
  B_False
| B_Null value_expr bool                 \<comment> \<open>the flag: IS NULL\<close>
| B_In value_expr bool "value_expr list" \<comment> \<open>the flag: IN\<close>
| B_Compare value_expr string value_expr
| B_Like value_expr value_expr string    \<comment> \<open>the escape string\<close>
| B_All "bool_expr list"
| B_Any "bool_expr list"

section \<open>Parser\<close>

text \<open>Every parser returns what it read and the tokens that follow.\<close>

fun postfixes :: "value_expr \<Rightarrow> token list \<Rightarrow> value_expr \<times> token list" where
  "postfixes e (T_Cast # T_Word w # ts) = postfixes (V_Cast e w) ts"
| "postfixes e (T_Word w # T_Ident i # ts) =
     (if w = ''COLLATE'' then postfixes (V_Collate e i) ts else (e, T_Word w # T_Ident i # ts))"
| "postfixes e ts = (e, ts)"

fun parse_value :: "token list \<Rightarrow> (value_expr \<times> token list) option" where
  "parse_value (T_Ident c # ts) = Some (postfixes (V_Column c) ts)"
| "parse_value (T_Param n # ts) = Some (postfixes (V_Param n) ts)"
| "parse_value _ = None"

text \<open>Items separated by commas; a list never holds more items than the text has tokens.\<close>

definition starts_with :: "token \<Rightarrow> token list \<Rightarrow> bool" where
  "starts_with t ts \<longleftrightarrow> ts \<noteq> [] \<and> hd ts = t"

abbreviation starts_word :: "string \<Rightarrow> token list \<Rightarrow> bool" where
  "starts_word w \<equiv> starts_with (T_Word w)"

lemma starts_with_simps [simp]:
  "\<not> starts_with t []" "starts_with t (u # ts) \<longleftrightarrow> u = t"
  by (simp_all add: starts_with_def)

fun parse_list ::
  "(token list \<Rightarrow> ('a \<times> token list) option) \<Rightarrow> nat \<Rightarrow> token list \<Rightarrow> ('a list \<times> token list) option"
where
  "parse_list p 0 ts = None"
| "parse_list p (Suc fuel) ts =
     (case p ts of
        None \<Rightarrow> None
      | Some (x, us) \<Rightarrow>
          if starts_with T_Comma us
          then map_option (apfst (Cons x)) (parse_list p fuel (tl us))
          else Some ([x], us))"

definition parse_items ::
  "(token list \<Rightarrow> ('a \<times> token list) option) \<Rightarrow> token list \<Rightarrow> ('a list \<times> token list) option" where
  "parse_items p ts = parse_list p (length ts) ts"

text \<open>A list between parentheses.\<close>

definition parse_group ::
  "(token list \<Rightarrow> ('a \<times> token list) option) \<Rightarrow> token list \<Rightarrow> ('a list \<times> token list) option" where
  "parse_group p ts =
     (if starts_with T_Open ts then
        (case parse_items p (tl ts) of
           Some (xs, T_Close # us) \<Rightarrow> Some (xs, us)
         | _ \<Rightarrow> None)
      else None)"

definition parse_in :: "value_expr \<Rightarrow> bool \<Rightarrow> token list \<Rightarrow> (bool_expr \<times> token list) option" where
  "parse_in e b ts = map_option (apfst (B_In e b)) (parse_group parse_value ts)"

definition parse_like :: "value_expr \<Rightarrow> token list \<Rightarrow> (bool_expr \<times> token list) option" where
  "parse_like e ts =
     (case parse_value ts of
        Some (v, T_Word w # T_Literal s # us) \<Rightarrow>
          if w = ''ESCAPE'' then Some (B_Like e v s, us) else None
      | _ \<Rightarrow> None)"

definition parse_null :: "value_expr \<Rightarrow> token list \<Rightarrow> (bool_expr \<times> token list) option" where
  "parse_null e ts =
     (case ts of
        T_Word w # us \<Rightarrow>
          if w = ''NULL'' then Some (B_Null e True, us)
          else if w = ''NOT'' then
            (case us of
               T_Word x # vs \<Rightarrow> if x = ''NULL'' then Some (B_Null e False, vs) else None
             | _ \<Rightarrow> None)
          else None
      | _ \<Rightarrow> None)"

text \<open>What follows the left operand of a test.\<close>

fun parse_test :: "value_expr \<Rightarrow> token list \<Rightarrow> (bool_expr \<times> token list) option" where
  "parse_test e (T_Op s # ts) = map_option (apfst (B_Compare e s)) (parse_value ts)"
| "parse_test e (T_Word w # ts) =
     (if w = ''IS'' then parse_null e ts
      else if w = ''IN'' then parse_in e True ts
      else if w = ''LIKE'' then parse_like e ts
      else if w = ''NOT'' then
        (case ts of
           T_Word x # us \<Rightarrow> if x = ''IN'' then parse_in e False us else None
         | _ \<Rightarrow> None)
      else None)"
| "parse_test e _ = None"

definition parse_leaf :: "token list \<Rightarrow> (bool_expr \<times> token list) option" where
  "parse_leaf ts =
     (if starts_word ''FALSE'' ts then Some (B_False, tl ts)
      else
        (case parse_value ts of
           None \<Rightarrow> None
         | Some (e, us) \<Rightarrow> parse_test e us))"

text \<open>One item needs no connective around it.\<close>

definition all_of :: "bool_expr list \<Rightarrow> bool_expr" where
  "all_of es = (case es of [e] \<Rightarrow> e | _ \<Rightarrow> B_All es)"

definition any_of :: "bool_expr list \<Rightarrow> bool_expr" where
  "any_of es = (case es of [e] \<Rightarrow> e | _ \<Rightarrow> B_Any es)"

fun parse_any :: "nat \<Rightarrow> token list \<Rightarrow> (bool_expr list \<times> token list) option"
and parse_all :: "nat \<Rightarrow> token list \<Rightarrow> (bool_expr list \<times> token list) option"
and parse_primary :: "nat \<Rightarrow> token list \<Rightarrow> (bool_expr \<times> token list) option" where
  "parse_any 0 ts = None"
| "parse_any (Suc fuel) ts =
     (case parse_all fuel ts of
        None \<Rightarrow> None
      | Some (es, us) \<Rightarrow>
          if starts_word ''OR'' us
          then map_option (apfst (Cons (all_of es))) (parse_any fuel (tl us))
          else Some ([all_of es], us))"
| "parse_all 0 ts = None"
| "parse_all (Suc fuel) ts =
     (case parse_primary fuel ts of
        None \<Rightarrow> None
      | Some (e, us) \<Rightarrow>
          if starts_word ''AND'' us
          then map_option (apfst (Cons e)) (parse_all fuel (tl us))
          else Some ([e], us))"
| "parse_primary 0 ts = None"
| "parse_primary (Suc fuel) ts =
     (if starts_with T_Open ts then
        (case parse_any fuel (tl ts) of
           Some (es, T_Close # us) \<Rightarrow> Some (any_of es, us)
         | _ \<Rightarrow> None)
      else parse_leaf ts)"

text \<open>Three calls per token, and the three of an empty rest, are enough.\<close>

definition parse_fuel :: "token list \<Rightarrow> nat" where
  "parse_fuel ts = 3 * length ts + 3"

definition parse_expr :: "token list \<Rightarrow> (bool_expr \<times> token list) option" where
  "parse_expr ts = map_option (apfst any_of) (parse_any (parse_fuel ts) ts)"

section \<open>Clauses\<close>

record sort_item =
  key_expr :: value_expr
  ascending :: bool
  nulls_first :: bool

record query_tail =
  where_of :: "bool_expr option"
  order_of :: "sort_item list"
  limit_of :: "nat option"
  offset_of :: "nat option"

definition parse_where :: "token list \<Rightarrow> (bool_expr option \<times> token list) option" where
  "parse_where ts =
     (if starts_word ''WHERE'' ts then map_option (apfst Some) (parse_expr (tl ts))
      else Some (None, ts))"

definition parse_sort_item :: "token list \<Rightarrow> (sort_item \<times> token list) option" where
  "parse_sort_item ts =
     (case parse_value ts of
        Some (e, T_Word d # T_Word n # T_Word p # us) \<Rightarrow>
          if d \<in> {''ASC'', ''DESC''} \<and> n = ''NULLS'' \<and> p \<in> {''FIRST'', ''LAST''}
          then Some (\<lparr>key_expr = e, ascending = (d = ''ASC''), nulls_first = (p = ''FIRST'')\<rparr>, us)
          else None
      | _ \<Rightarrow> None)"

definition parse_order :: "token list \<Rightarrow> (sort_item list \<times> token list) option" where
  "parse_order ts =
     (if starts_word ''ORDER'' ts then
        (if starts_word ''BY'' (tl ts) then parse_items parse_sort_item (tl (tl ts)) else None)
      else Some ([], ts))"

definition parse_count :: "string \<Rightarrow> token list \<Rightarrow> (nat option \<times> token list) option" where
  "parse_count w ts =
     (if starts_word w ts then
        (case tl ts of T_Param n # us \<Rightarrow> Some (Some n, us) | _ \<Rightarrow> None)
      else Some (None, ts))"

text \<open>The clauses after the table of a \<open>SELECT\<close>, in their order, up to the end of the text.\<close>

definition parse_tail :: "token list \<Rightarrow> query_tail option" where
  "parse_tail ts =
     Option.bind (parse_where ts) (\<lambda>(w, ts1).
     Option.bind (parse_order ts1) (\<lambda>(ord, ts2).
     Option.bind (parse_count ''LIMIT'' ts2) (\<lambda>(lim, ts3).
     Option.bind (parse_count ''OFFSET'' ts3) (\<lambda>(off, ts4).
       if ts4 = [] then Some \<lparr>where_of = w, order_of = ord, limit_of = lim, offset_of = off\<rparr>
       else None))))"

section \<open>Three-valued meaning\<close>

text \<open>
  The interpretation of the parts: the row, the arguments, casts, collations, the comparison
  operators and \<open>LIKE\<close> on values that are not null.
\<close>

record 'v interpretation_of =
  row_value :: "string \<Rightarrow> 'v option"
  arg_value :: "nat \<Rightarrow> 'v option"
  cast_value :: "string \<Rightarrow> 'v \<Rightarrow> 'v"
  collate_value :: "string \<Rightarrow> 'v \<Rightarrow> 'v"
  compare_values :: "string \<Rightarrow> 'v \<Rightarrow> 'v \<Rightarrow> bool"
  like_values :: "string \<Rightarrow> 'v \<Rightarrow> 'v \<Rightarrow> bool"

fun value_of :: "('v, 'm) interpretation_of_scheme \<Rightarrow> value_expr \<Rightarrow> 'v option" where
  "value_of I (V_Column c) = row_value I c"
| "value_of I (V_Param n) = arg_value I n"
| "value_of I (V_Cast e w) = map_option (cast_value I w) (value_of I e)"
| "value_of I (V_Collate e c) = map_option (collate_value I c) (value_of I e)"

definition not3 :: "bool option \<Rightarrow> bool option" where
  "not3 = map_option Not"

fun and3 :: "bool option \<Rightarrow> bool option \<Rightarrow> bool option" where
  "and3 (Some True) b = b"
| "and3 (Some False) b = Some False"
| "and3 None b = (if b = Some False then Some False else None)"

fun or3 :: "bool option \<Rightarrow> bool option \<Rightarrow> bool option" where
  "or3 (Some True) b = Some True"
| "or3 (Some False) b = b"
| "or3 None b = (if b = Some True then Some True else None)"

definition lift3 :: "('v \<Rightarrow> 'v \<Rightarrow> bool) \<Rightarrow> 'v option \<Rightarrow> 'v option \<Rightarrow> bool option" where
  "lift3 p x y = (case (x, y) of (Some a, Some b) \<Rightarrow> Some (p a b) | _ \<Rightarrow> None)"

text \<open>\<open>x IN (a, b)\<close> is \<open>x = a OR x = b\<close>, and \<open>x NOT IN (a, b)\<close> its negation.\<close>

fun truth :: "('v, 'm) interpretation_of_scheme \<Rightarrow> bool_expr \<Rightarrow> bool option" where
  "truth I B_False = Some False"
| "truth I (B_Null e b) = Some ((value_of I e = None) = b)"
| "truth I (B_In e b es) =
     (let r = foldr or3 (map (\<lambda>x. lift3 (compare_values I ''='') (value_of I e) (value_of I x)) es)
                (Some False)
      in if b then r else not3 r)"
| "truth I (B_Compare e s v) = lift3 (compare_values I s) (value_of I e) (value_of I v)"
| "truth I (B_Like e v s) = lift3 (like_values I s) (value_of I e) (value_of I v)"
| "truth I (B_All es) = foldr and3 (map (truth I) es) (Some True)"
| "truth I (B_Any es) = foldr or3 (map (truth I) es) (Some False)"

text \<open>A row is selected when the condition is true, neither false nor unknown.\<close>

definition selected :: "('v, 'm) interpretation_of_scheme \<Rightarrow> bool_expr \<Rightarrow> bool" where
  "selected I e \<longleftrightarrow> truth I e = Some True"

lemma and3_eq:
  "and3 a b = (if a = Some False \<or> b = Some False then Some False
     else if a = None \<or> b = None then None else Some True)"
  by (cases "(a, b)" rule: and3.cases) auto

lemma or3_eq:
  "or3 a b = (if a = Some True \<or> b = Some True then Some True
     else if a = None \<or> b = None then None else Some False)"
  by (cases "(a, b)" rule: or3.cases) auto

lemma bool_option_exhaust: "b = None \<or> b = Some True \<or> b = Some (False :: bool)"
  by (cases b) auto

lemma and3_list:
  "foldr and3 bs (Some True) =
     (if Some False \<in> set bs then Some False else if None \<in> set bs then None else Some True)"
  by (induction bs) (use bool_option_exhaust in \<open>auto simp: and3_eq\<close>)

lemma or3_list:
  "foldr or3 bs (Some False) =
     (if Some True \<in> set bs then Some True else if None \<in> set bs then None else Some False)"
  by (induction bs) (use bool_option_exhaust in \<open>auto simp: or3_eq\<close>)

lemma truth_all_of: "truth I (all_of es) = truth I (B_All es)"
  using bool_option_exhaust [of "truth I (hd es)"]
  by (auto simp: all_of_def and3_eq split: list.split)

lemma truth_any_of: "truth I (any_of es) = truth I (B_Any es)"
  using bool_option_exhaust [of "truth I (hd es)"]
  by (auto simp: any_of_def or3_eq split: list.split)

end
