(* ===== verification/Compiler_Grammar.thy ===== *)
theory Compiler_Grammar
  imports Compiler_Find Sql_Grammar
begin

text \<open>
  The text of the compiler, parsed: the tokens of every rendered tree, and of the whole fragment
  of a find, are read by the reference grammar as the expression computed from the tree.  So the
  parentheses the compiler writes are enough: precedence never regroups a condition.
\<close>

section \<open>The expression of a tree\<close>

definition column_value :: "pg_column \<Rightarrow> value_expr" where
  "column_value c =
     (let e = V_Column (ident_str (column_ident c)) in
      if scalar_kind c = Kind_Numeric then V_Cast e ''numeric''
      else if scalar_kind c = Kind_Text then V_Collate e ''C''
      else e)"

definition place_value :: "nat \<Rightarrow> pg_scalar_kind \<Rightarrow> value_expr" where
  "place_value n k =
     (case placeholder_cast k of Some w \<Rightarrow> V_Cast (V_Param n) w | None \<Rightarrow> V_Param n)"

definition symbol_of :: "operator \<Rightarrow> string" where
  "symbol_of op = (case comparison_token op of T_Op s \<Rightarrow> s | _ \<Rightarrow> '''')"

definition connect :: "logical_operator \<Rightarrow> bool_expr list \<Rightarrow> bool_expr" where
  "connect op = (case op of And \<Rightarrow> all_of | Or \<Rightarrow> any_of)"

fun tree_expr :: "nat \<Rightarrow> where_tree \<Rightarrow> bool_expr"
and list_exprs :: "nat \<Rightarrow> where_tree list \<Rightarrow> bool_expr list" where
  "tree_expr n (W_Group op ts) = connect op (list_exprs n ts)"
| "tree_expr n (W_Null_Test c b) = B_Null (column_value c) b"
| "tree_expr n W_False = B_False"
| "tree_expr n (W_Set c b bs) =
     B_In (column_value c) b
       (map (\<lambda>i. place_value i (scalar_kind c)) [Suc n ..< Suc (n + length bs)])"
| "tree_expr n (W_Compare c op b) =
     (if op = Op_Like then B_Like (column_value c) (place_value (Suc n) (scalar_kind c)) ''''
      else B_Compare (column_value c) (symbol_of op) (place_value (Suc n) (scalar_kind c)))"
| "list_exprs n [] = []"
| "list_exprs n (t # ts) = tree_expr n t # list_exprs (n + length (binds t)) ts"

text \<open>No group and no set is empty: \<open>()\<close> is not SQL.\<close>

fun inhabited :: "where_tree \<Rightarrow> bool" where
  "inhabited (W_Group op ts) = (ts \<noteq> [] \<and> list_all inhabited ts)"
| "inhabited (W_Set c b bs) = (bs \<noteq> [])"
| "inhabited _ = True"

section \<open>Values\<close>

definition plain :: "token list \<Rightarrow> bool" where
  "plain ts \<longleftrightarrow> ts = [] \<or> (hd ts \<noteq> T_Cast \<and> hd ts \<noteq> T_Word ''COLLATE'')"

lemma plain_simps [simp]:
  "plain []" "plain (T_Open # ts)" "plain (T_Close # ts)" "plain (T_Comma # ts)"
  "plain (T_Op s # ts)" "plain (T_Word w # ts) \<longleftrightarrow> w \<noteq> ''COLLATE''"
  by (simp_all add: plain_def)

lemma postfixes_plain: "plain ts \<Longrightarrow> postfixes e ts = (e, ts)"
  by (cases "(e, ts)" rule: postfixes.cases) (auto simp: plain_def)

lemma parse_column: "plain ts \<Longrightarrow> parse_value (column_tokens c @ ts) = Some (column_value c, ts)"
  by (simp add: column_tokens_def column_value_def postfixes_plain)

lemma place_tokens_not_Nil [simp]: "place_tokens n k \<noteq> []"
  by (simp add: place_tokens_def)

lemma starts_with_place [simp]: "\<not> starts_word w (place_tokens n k @ ts)"
  by (simp add: place_tokens_def)

lemma parse_place: "plain ts \<Longrightarrow> parse_value (place_tokens n k @ ts) = Some (place_value n k, ts)"
  by (simp add: place_tokens_def place_value_def cast_tokens_def postfixes_plain
      split: option.split)

text \<open>Items separated by commas, each of which is read when a comma or the end follows.\<close>

lemma length_commas: "list_all (\<lambda>ts. 0 < length ts) tss \<Longrightarrow> length tss \<le> length (commas tss)"
  by (induction tss rule: commas.induct) (auto simp: Suc_le_eq)

lemma parse_list_commas:
  assumes "\<And>x rest. x \<in> set xs \<Longrightarrow> plain rest \<Longrightarrow> p (f x @ rest) = Some (g x, rest)"
    and "xs \<noteq> []" and "length xs \<le> fuel" and "plain ts" and "\<not> starts_with T_Comma ts"
  shows "parse_list p fuel (commas (map f xs) @ ts) = Some (map g xs, ts)"
  using assms(1-3)
proof (induction fuel arbitrary: xs)
  case (Suc fuel)
  from Suc.prems obtain y ys where xs: "xs = y # ys" by (cases xs) auto
  show ?case
  proof (cases ys)
    case Nil
    with xs Suc.prems(1) [of y ts] assms(4,5) show ?thesis by simp
  next
    case (Cons z zs)
    with xs Suc.IH [of ys] Suc.prems Suc.prems(1) [of y "T_Comma # commas (map f ys) @ ts"]
    show ?thesis by simp
  qed
qed simp

lemma parse_items_commas:
  assumes "\<And>x rest. x \<in> set xs \<Longrightarrow> plain rest \<Longrightarrow> p (f x @ rest) = Some (g x, rest)"
    and "xs \<noteq> []" and "\<And>x. x \<in> set xs \<Longrightarrow> f x \<noteq> []" and "plain ts" and "\<not> starts_with T_Comma ts"
  shows "parse_items p (commas (map f xs) @ ts) = Some (map g xs, ts)"
proof -
  have "length xs \<le> length (commas (map f xs) @ ts)"
    using length_commas [of "map f xs"] assms(3) by (simp add: list_all_iff)
  then show ?thesis
    unfolding parse_items_def by (intro parse_list_commas assms) simp_all
qed

lemma parse_group_commas:
  assumes "\<And>x rest. x \<in> set xs \<Longrightarrow> plain rest \<Longrightarrow> p (f x @ rest) = Some (g x, rest)"
    and "xs \<noteq> []" and "\<And>x. x \<in> set xs \<Longrightarrow> f x \<noteq> []"
  shows "parse_group p (T_Open # commas (map f xs) @ T_Close # ts) = Some (map g xs, ts)"
  using parse_items_commas [of xs p f g "T_Close # ts"] assms by (simp add: parse_group_def)

lemma parse_in_places:
  "ns \<noteq> [] \<Longrightarrow>
     parse_in e b (T_Open # commas (map (\<lambda>i. place_tokens i k) ns) @ T_Close # rest) =
       Some (B_In e b (map (\<lambda>i. place_value i k) ns), rest)"
  unfolding parse_in_def
  by (subst parse_group_commas [of _ _ _ "\<lambda>i. place_value i k"])
    (simp_all add: parse_place)

section \<open>Trees\<close>

text \<open>What may follow a whole test: the end, a closing parenthesis, a connective or a clause.\<close>

definition stops :: "token list \<Rightarrow> bool" where
  "stops ts \<longleftrightarrow> ts = [] \<or> hd ts = T_Close \<or>
     hd ts \<in> T_Word ` {''AND'', ''OR'', ''ORDER'', ''LIMIT'', ''OFFSET''}"

lemma stops_plain [simp]: "stops ts \<Longrightarrow> plain ts"
  by (auto simp: stops_def plain_def)

lemma column_tokens_head: "column_tokens c \<noteq> []" "hd (column_tokens c) \<noteq> T_Word w"
  "hd (column_tokens c) \<noteq> T_Open"
  by (simp_all add: column_tokens_def)

lemma starts_with_column [simp]:
  "\<not> starts_word w (column_tokens c @ ts)" "\<not> starts_with T_Open (column_tokens c @ ts)"
  by (simp_all add: column_tokens_def)

lemma parse_leaf_column:
  "plain ts \<Longrightarrow> parse_leaf (column_tokens c @ ts) = parse_test (column_value c) ts"
  by (simp add: parse_leaf_def column_tokens_head parse_column)

lemma comparison_token_cases:
  "is_comparison op \<Longrightarrow> op \<noteq> Op_Like \<Longrightarrow> comparison_token op = T_Op (symbol_of op)"
  by (cases op) (simp_all add: is_comparison_def comparison_token_def symbol_of_def)

lemma parse_leaf_tree:
  assumes "tree_ok t" and "inhabited t" and "stops rest" and "\<nexists>op ts. t = W_Group op ts"
  shows "parse_leaf (tree_tokens n t @ rest) = Some (tree_expr n t, rest)"
proof (cases t)
  case (W_Null_Test c b)
  then show ?thesis by (simp add: parse_leaf_column parse_null_def)
next
  case W_False
  then show ?thesis by (simp add: parse_leaf_def)
next
  case (W_Set c b bs)
  with assms(2) have "[Suc n ..< Suc (n + length bs)] \<noteq> []" by (cases bs) simp_all
  from parse_in_places [OF this] W_Set show ?thesis
    by (simp add: parse_leaf_column del: upt_Suc)
next
  case (W_Compare c op b)
  with assms show ?thesis
    by (cases "op = Op_Like")
      (simp_all add: parse_leaf_column parse_like_def parse_place comparison_token_def [of Op_Like]
        comparison_token_cases)
qed (use assms(4) in simp)

text \<open>A tree is read as one primary, a group being in parentheses.\<close>

definition parses :: "where_tree \<Rightarrow> bool" where
  "parses t \<longleftrightarrow>
     (\<forall>n rest fuel. stops rest \<longrightarrow> 3 * length (tree_tokens n t) \<le> fuel \<longrightarrow>
        parse_primary fuel (tree_tokens n t @ rest) = Some (tree_expr n t, rest))"

lemma parsesD:
  "parses t \<Longrightarrow> stops rest \<Longrightarrow> 3 * length (tree_tokens n t) \<le> fuel \<Longrightarrow>
     parse_primary fuel (tree_tokens n t @ rest) = Some (tree_expr n t, rest)"
  by (simp add: parses_def)

lemma stops_separator [simp]: "stops (separator_token op # ts)"
  by (cases op) (simp_all add: stops_def separator_token_def)

lemma separator_token_iff [simp]:
  "separator_token op = T_Word ''AND'' \<longleftrightarrow> op = And" "separator_token op = T_Word ''OR'' \<longleftrightarrow> op = Or"
  by (cases op; simp add: separator_token_def)+

lemma parse_all_list:
  assumes "list_all parses ts" and "ts \<noteq> []" and "stops rest" and "\<not> starts_word ''AND'' rest"
    and "3 * length (list_tokens n (separator_token And) ts) < fuel"
  shows "parse_all fuel (list_tokens n (separator_token And) ts @ rest) = Some (list_exprs n ts, rest)"
  using assms
proof (induction ts arbitrary: n fuel)
  case (Cons t ts)
  then obtain f where f: "fuel = Suc f" by (cases fuel) auto
  show ?case
  proof (cases "ts = []")
    case True
    with Cons.prems f show ?thesis by (simp add: parsesD)
  next
    case False
    with Cons.prems f Cons.IH [of "n + length (binds t)" f] show ?thesis by (simp add: parsesD)
  qed
qed simp

lemma parse_all_one:
  assumes "parses t" and "stops rest" and "\<not> starts_word ''AND'' rest"
    and "3 * length (tree_tokens n t) < fuel"
  shows "parse_all fuel (tree_tokens n t @ rest) = Some ([tree_expr n t], rest)"
  using parse_all_list [of "[t]" rest n fuel] assms by simp

lemma parse_any_list:
  assumes "list_all parses ts" and "ts \<noteq> []" and "stops rest"
    and "\<not> starts_word ''AND'' rest" and "\<not> starts_word ''OR'' rest"
    and "3 * length (list_tokens n (separator_token Or) ts) + 1 < fuel"
  shows "parse_any fuel (list_tokens n (separator_token Or) ts @ rest) = Some (list_exprs n ts, rest)"
  using assms
proof (induction ts arbitrary: n fuel)
  case (Cons t ts)
  then obtain f where f: "fuel = Suc f" by (cases fuel) auto
  show ?case
  proof (cases "ts = []")
    case True
    with Cons.prems f show ?thesis by (simp add: parse_all_one all_of_def)
  next
    case False
    with Cons.prems f Cons.IH [of "n + length (binds t)" f] show ?thesis
      by (simp add: parse_all_one all_of_def)
  qed
qed simp

text \<open>Both connectives, read as a disjunction.\<close>

lemma parse_any_group:
  assumes "list_all parses ts" and "ts \<noteq> []" and "stops rest"
    and "\<not> starts_word ''AND'' rest" and "\<not> starts_word ''OR'' rest"
    and "3 * length (list_tokens n (separator_token op) ts) + 1 < fuel"
  shows "map_option (apfst any_of) (parse_any fuel (list_tokens n (separator_token op) ts @ rest)) =
     Some (connect op (list_exprs n ts), rest)"
proof (cases op)
  case And
  from assms(6) obtain f where "fuel = Suc f" by (cases fuel) auto
  with And assms show ?thesis by (simp add: parse_all_list connect_def any_of_def)
next
  case Or
  with assms show ?thesis by (simp add: parse_any_list connect_def)
qed

lemma tree_tokens_head: "starts_with T_Open (tree_tokens n t @ rest) \<Longrightarrow> \<exists>op ts. t = W_Group op ts"
  by (cases t) simp_all

lemma length_tree_tokens: "0 < length (tree_tokens n t)"
  by (cases t) (simp_all add: column_tokens_head)

lemma parses_leaf:
  assumes "tree_ok t" and "inhabited t" and "\<nexists>op ts. t = W_Group op ts"
  shows "parses t"
proof -
  have "parse_primary fuel (tree_tokens n t @ rest) = Some (tree_expr n t, rest)"
    if "stops rest" and fuel: "3 * length (tree_tokens n t) \<le> fuel" for n rest fuel
  proof -
    from fuel length_tree_tokens [of n t] obtain f where "fuel = Suc f" by (cases fuel) auto
    then show ?thesis
      using tree_tokens_head [of n t rest] assms(3) parse_leaf_tree [OF assms(1,2) that(1) assms(3)]
      by auto
  qed
  then show ?thesis by (simp add: parses_def)
qed

lemma parses_tree: "tree_ok t \<Longrightarrow> inhabited t \<Longrightarrow> parses t"
proof (induction t)
  case (W_Group op ts)
  then have ts: "list_all parses ts" "ts \<noteq> []" by (auto simp: list_all_iff)
  have "parse_primary fuel (tree_tokens n (W_Group op ts) @ rest) =
      Some (tree_expr n (W_Group op ts), rest)"
    if fuel: "3 * length (tree_tokens n (W_Group op ts)) \<le> fuel" for n rest fuel
  proof -
    from fuel obtain f where f: "fuel = Suc f" by (cases fuel) auto
    from parse_any_group [OF ts, of "T_Close # rest" n op f] fuel f obtain es where
      "parse_any f (list_tokens n (separator_token op) ts @ T_Close # rest) = Some (es, T_Close # rest)"
      "any_of es = connect op (list_exprs n ts)"
      by (auto simp: stops_def starts_with_def)
    with f show ?thesis by simp
  qed
  then show ?case by (simp add: parses_def)
qed (simp_all add: parses_leaf)

section \<open>The clauses of a find\<close>

definition sort_item_of :: "pg_column \<times> sort_direction \<Rightarrow> sort_item" where
  "sort_item_of = (\<lambda>(c, d).
     \<lparr>key_expr = column_value c, ascending = (d = Ascending), nulls_first = (d = Ascending)\<rparr>)"

definition where_size :: "find_plan \<Rightarrow> nat" where
  "where_size p = (case p_where p of None \<Rightarrow> 0 | Some t \<Rightarrow> length (binds t))"

definition tail_of :: "find_plan \<Rightarrow> query_tail" where
  "tail_of p =
     \<lparr>where_of = map_option (tree_expr 0) (p_where p),
      order_of = map sort_item_of (p_order p),
      limit_of = map_option (\<lambda>_. Suc (where_size p)) (p_limit p),
      offset_of = map_option (\<lambda>_. Suc (where_size p + (if p_limit p = None then 0 else 1)))
        (p_offset p)\<rparr>"

definition where_tokens :: "where_tree option \<Rightarrow> token list" where
  "where_tokens w = (case w of None \<Rightarrow> [] | Some t \<Rightarrow> T_Word ''WHERE'' # tree_tokens 0 t)"

definition order_clause_tokens :: "(pg_column \<times> sort_direction) list \<Rightarrow> token list" where
  "order_clause_tokens os =
     (if os = [] then []
      else T_Word ''ORDER'' # T_Word ''BY'' # commas (map order_tokens os))"

definition number_tokens :: "string \<Rightarrow> nat option \<Rightarrow> token list" where
  "number_tokens w n = (case n of None \<Rightarrow> [] | Some k \<Rightarrow> [T_Word w, T_Param k])"

definition tail_tokens :: "find_plan \<Rightarrow> token list" where
  "tail_tokens p =
     where_tokens (p_where p) @ order_clause_tokens (p_order p) @
     number_tokens ''LIMIT'' (limit_of (tail_of p)) @
     number_tokens ''OFFSET'' (offset_of (tail_of p))"

definition plan_ok :: "find_plan \<Rightarrow> bool" where
  "plan_ok p \<longleftrightarrow>
     (\<forall>t. p_where p = Some t \<longrightarrow> tree_ok t) \<and> list_all (\<lambda>(c, d). ident_ok (column_ident c)) (p_order p)"

lemma reads_add_where:
  "(\<And>t. w = Some t \<Longrightarrow> tree_ok t) \<Longrightarrow>
     reads (out_sql (add_where w output_default)) (where_tokens w)"
  using reads_any_append [OF reads_clause_keywords(1) reads_tree]
  by (auto simp: add_where_def where_tokens_def split: option.split)

lemma reads_add_order:
  assumes "reads (out_sql out) ts" and "list_all (\<lambda>(c, d). ident_ok (column_ident c)) os"
  shows "reads (out_sql (add_order os out)) (ts @ order_clause_tokens os)"
  using assms(1) reads_append_clause [OF assms(1)
      reads_any_append [OF reads_clause_keywords(2) reads_order_items [OF assms(2)]]]
  by (simp add: add_order_def order_clause_tokens_def)

lemma reads_add_number:
  assumes "reads (out_sql out) ts" and "reads_any keyword [T_Word w]"
  shows "reads (out_sql (add_number keyword n out))
     (ts @ number_tokens w (map_option (\<lambda>_. Suc (length (out_bindings out))) n))"
  using assms(1) reads_append_clause [OF assms(1) reads_any_append [OF assms(2) reads_param]]
  by (simp add: add_number_def number_tokens_def split: option.split)

lemma reads_render_find:
  assumes "plan_ok p"
  shows "reads (sql (render_find p)) (tail_tokens p)"
proof -
  let ?w = "add_where (p_where p) output_default"
  let ?o = "add_order (p_order p) ?w"
  let ?l = "add_number ''LIMIT '' (p_limit p) ?o"
  have len: "length (out_bindings ?o) = where_size p"
    "length (out_bindings ?l) = where_size p + (if p_limit p = None then 0 else 1)"
    by (simp_all add: add_where_def add_order_def add_number_def where_size_def split: option.split)
  have "reads (out_sql ?w) (where_tokens (p_where p))"
    using assms by (intro reads_add_where) (simp add: plan_ok_def)
  then have "reads (out_sql ?o) (where_tokens (p_where p) @ order_clause_tokens (p_order p))"
    using assms by (intro reads_add_order) (simp_all add: plan_ok_def)
  from reads_add_number [OF reads_add_number [OF this reads_clause_keywords(3)]
      reads_clause_keywords(4), of "p_offset p" "p_limit p"]
  show ?thesis
    unfolding render_find_def finish_def len
    by (simp add: tail_tokens_def tail_of_def)
qed

section \<open>The fragment is parsed back\<close>

text \<open>What may follow a clause: the end, or a later clause.\<close>

definition follows :: "string list \<Rightarrow> token list \<Rightarrow> bool" where
  "follows ws ts \<longleftrightarrow> ts = [] \<or> hd ts \<in> set (map T_Word ws)"

lemma follows_order_clause:
  "follows ws ts \<Longrightarrow> ''ORDER'' \<in> set ws \<Longrightarrow> follows ws (order_clause_tokens os @ ts)"
  by (auto simp: follows_def order_clause_tokens_def)

lemma follows_count:
  "follows ws ts \<Longrightarrow> w \<in> set ws \<Longrightarrow> follows ws (number_tokens w n @ ts)"
  by (auto simp: follows_def number_tokens_def split: option.split)

lemma follows_mono: "follows vs ts \<Longrightarrow> set vs \<subseteq> set ws \<Longrightarrow> follows ws ts"
  by (auto simp: follows_def)

lemma follows_not_word: "follows ws ts \<Longrightarrow> w \<notin> set ws \<Longrightarrow> \<not> starts_word w ts"
  by (auto simp: follows_def starts_with_def)

lemma parse_count_tokens:
  "follows ws ts \<Longrightarrow> w \<notin> set ws \<Longrightarrow> parse_count w (number_tokens w n @ ts) = Some (n, ts)"
  using follows_not_word [of ws ts w]
  by (auto simp: parse_count_def number_tokens_def starts_with_def split: option.split)

lemma order_tokens_not_Nil [simp]: "order_tokens p \<noteq> []"
  by (cases p) (simp add: order_tokens_def column_tokens_head)

lemma parse_sort_item_tokens:
  "parse_sort_item (order_tokens p @ ts) = Some (sort_item_of p, ts)"
  by (cases p; cases "snd p")
    (simp_all add: order_tokens_def parse_sort_item_def sort_item_of_def parse_column)

lemma parse_order_tokens:
  assumes "follows [''LIMIT'', ''OFFSET''] ts"
  shows "parse_order (order_clause_tokens os @ ts) = Some (map sort_item_of os, ts)"
proof (cases "os = []")
  case True
  then show ?thesis
    using follows_not_word [OF assms, of "''ORDER''"]
    by (simp add: parse_order_def order_clause_tokens_def)
next
  case False
  have "parse_items parse_sort_item (commas (map order_tokens os) @ ts) = Some (map sort_item_of os, ts)"
  proof (rule parse_items_commas [OF _ False])
    show "plain ts" "\<not> starts_with T_Comma ts"
      using assms by (auto simp: follows_def plain_def starts_with_def)
  qed (simp_all add: parse_sort_item_tokens)
  with False show ?thesis by (simp add: parse_order_def order_clause_tokens_def)
qed

lemma parse_where_tokens:
  assumes "follows [''ORDER'', ''LIMIT'', ''OFFSET''] ts"
    and "\<And>t. w = Some t \<Longrightarrow> tree_ok t \<and> inhabited t"
  shows "parse_where (where_tokens w @ ts) = Some (map_option (tree_expr 0) w, ts)"
proof (cases w)
  case None
  then show ?thesis
    using follows_not_word [OF assms(1), of "''WHERE''"]
    by (simp add: parse_where_def where_tokens_def)
next
  case (Some t)
  have rest: "stops ts" "\<not> starts_word ''AND'' ts" "\<not> starts_word ''OR'' ts"
    using assms(1) by (auto simp: follows_def stops_def starts_with_def)
  from Some assms(2) have "list_all parses [t]" by (simp add: parses_tree)
  from parse_any_list [OF this _ rest, of 0 "parse_fuel (tree_tokens 0 t @ ts)"]
  have "parse_expr (tree_tokens 0 t @ ts) = Some (tree_expr 0 t, ts)"
    by (simp add: parse_expr_def parse_fuel_def any_of_def)
  with Some show ?thesis by (simp add: parse_where_def where_tokens_def starts_with_def)
qed

lemma parse_tail_tokens:
  assumes "\<And>t. p_where p = Some t \<Longrightarrow> tree_ok t \<and> inhabited t"
  shows "parse_tail (tail_tokens p) = Some (tail_of p)"
proof -
  let ?off = "number_tokens ''OFFSET'' (offset_of (tail_of p))"
  let ?lim = "number_tokens ''LIMIT'' (limit_of (tail_of p)) @ ?off"
  have off: "follows [''OFFSET''] ?off"
    using follows_count [of "[''OFFSET'']" "[]"] by (simp add: follows_def)
  have lim: "follows [''LIMIT'', ''OFFSET''] ?lim"
    by (intro follows_count follows_mono [OF off]) simp_all
  have ord: "follows [''ORDER'', ''LIMIT'', ''OFFSET''] (order_clause_tokens (p_order p) @ ?lim)"
    by (intro follows_order_clause follows_mono [OF lim]) simp_all
  have "parse_count ''OFFSET'' ?off = Some (offset_of (tail_of p), [])"
    using parse_count_tokens [of "[]" "[]"] by (simp add: follows_def)
  moreover have "parse_count ''LIMIT'' ?lim = Some (limit_of (tail_of p), ?off)"
    by (rule parse_count_tokens [OF off]) simp
  ultimately show ?thesis
    unfolding parse_tail_def tail_tokens_def
    by (simp add: parse_where_tokens [OF ord assms] parse_order_tokens [OF lim]) (simp add: tail_of_def)
qed

end
