(* ===== verification/Sql_Statements.thy ===== *)
theory Sql_Statements
  imports Sql_Grammar
begin

text \<open>
  The reference grammar of whole statements, in the subset the repository writes: a selection of
  columns or of the number of rows, an insertion of one row, an update and a deletion.
\<close>

text \<open>A table with its schema, if one is written.\<close>

type_synonym table_path = "string option \<times> string"

datatype cell_expr = X_Default | X_Value value_expr

datatype sql_statement =
  S_Select "string list" table_path query_tail
| S_Count table_path query_tail
| S_Insert table_path "(string list \<times> cell_expr list) option" "string list option"
    \<comment> \<open>columns and values, or DEFAULT VALUES; the columns to return\<close>
| S_Update table_path "(string \<times> cell_expr) list" bool_expr "string list option"
| S_Delete table_path bool_expr

section \<open>Parts\<close>

fun parse_name :: "token list \<Rightarrow> (string \<times> token list) option" where
  "parse_name (T_Ident c # ts) = Some (c, ts)"
| "parse_name _ = None"

definition parse_table :: "token list \<Rightarrow> (table_path \<times> token list) option" where
  "parse_table ts =
     Option.bind (parse_name ts) (\<lambda>(a, us).
       if starts_with T_Dot us then map_option (\<lambda>(b, vs). ((Some a, b), vs)) (parse_name (tl us))
       else Some ((None, a), us))"

definition parse_cell :: "token list \<Rightarrow> (cell_expr \<times> token list) option" where
  "parse_cell ts =
     (if starts_word ''DEFAULT'' ts then Some (X_Default, tl ts)
      else map_option (apfst X_Value) (parse_value ts))"

definition parse_assignment :: "token list \<Rightarrow> ((string \<times> cell_expr) \<times> token list) option" where
  "parse_assignment ts =
     Option.bind (parse_name ts) (\<lambda>(c, us).
       if starts_with (T_Op ''='') us then map_option (apfst (Pair c)) (parse_cell (tl us)) else None)"

text \<open>The last clause of a write, up to the end of the text.\<close>

definition parse_returning :: "token list \<Rightarrow> string list option option" where
  "parse_returning ts =
     (if ts = [] then Some None
      else if starts_word ''RETURNING'' ts then
        (case parse_items parse_name (tl ts) of
           Some (cs, []) \<Rightarrow> Some (Some cs)
         | _ \<Rightarrow> None)
      else None)"

text \<open>A sequence of fixed tokens.\<close>

fun skip :: "token list \<Rightarrow> token list \<Rightarrow> token list option" where
  "skip [] ts = Some ts"
| "skip (f # fs) [] = None"
| "skip (f # fs) (t # ts) = (if f = t then skip fs ts else None)"

section \<open>Statements\<close>

definition count_words :: "token list" where
  "count_words =
     [T_Word ''COUNT'', T_Open, T_Op ''*'', T_Close, T_Word ''AS'', T_Word ''count'', T_Word ''FROM'']"

definition parse_select :: "token list \<Rightarrow> sql_statement option" where
  "parse_select ts =
     (case skip count_words ts of
        Some us \<Rightarrow> Option.bind (parse_table us) (\<lambda>(t, vs). map_option (S_Count t) (parse_tail vs))
      | None \<Rightarrow>
          Option.bind (parse_items parse_name ts) (\<lambda>(cs, us).
          Option.bind (skip [T_Word ''FROM''] us) (\<lambda>us.
          Option.bind (parse_table us) (\<lambda>(t, vs). map_option (S_Select cs t) (parse_tail vs)))))"

definition parse_insert :: "token list \<Rightarrow> sql_statement option" where
  "parse_insert ts =
     Option.bind (parse_table ts) (\<lambda>(t, us).
       case skip [T_Word ''DEFAULT'', T_Word ''VALUES''] us of
         Some vs \<Rightarrow> map_option (S_Insert t None) (parse_returning vs)
       | None \<Rightarrow>
           Option.bind (parse_group parse_name us) (\<lambda>(cs, vs).
           Option.bind (skip [T_Word ''VALUES''] vs) (\<lambda>vs.
           Option.bind (parse_group parse_cell vs) (\<lambda>(xs, ws).
             map_option (S_Insert t (Some (cs, xs))) (parse_returning ws)))))"

definition parse_update :: "token list \<Rightarrow> sql_statement option" where
  "parse_update ts =
     Option.bind (parse_table ts) (\<lambda>(t, us).
     Option.bind (skip [T_Word ''SET''] us) (\<lambda>us.
     Option.bind (parse_items parse_assignment us) (\<lambda>(xs, vs).
     Option.bind (skip [T_Word ''WHERE''] vs) (\<lambda>vs.
     Option.bind (parse_expr vs) (\<lambda>(e, ws).
       map_option (S_Update t xs e) (parse_returning ws))))))"

definition parse_delete :: "token list \<Rightarrow> sql_statement option" where
  "parse_delete ts =
     Option.bind (parse_table ts) (\<lambda>(t, us).
     Option.bind (skip [T_Word ''WHERE''] us) (\<lambda>us.
     Option.bind (parse_expr us) (\<lambda>(e, vs). if vs = [] then Some (S_Delete t e) else None)))"

definition parse_statement :: "token list \<Rightarrow> sql_statement option" where
  "parse_statement ts =
     (if starts_word ''SELECT'' ts then parse_select (tl ts)
      else if starts_word ''UPDATE'' ts then parse_update (tl ts)
      else
        (case skip [T_Word ''INSERT'', T_Word ''INTO''] ts of
           Some us \<Rightarrow> parse_insert us
         | None \<Rightarrow>
             Option.bind (skip [T_Word ''DELETE'', T_Word ''FROM''] ts) parse_delete))"

definition read_statement :: "string \<Rightarrow> sql_statement option" where
  "read_statement s = Option.bind (tokenize s) parse_statement"

section \<open>Effects\<close>

text \<open>
  A database is its tables' rows.  The value of a cell does not depend on a row: it is a
  parameter, a cast of one, or the column's default, which the server knows.
\<close>

type_synonym 'v table_row = "string \<Rightarrow> 'v option"

fun cell_value ::
  "('v, 'm) interpretation_of_scheme \<Rightarrow> (string \<Rightarrow> 'v option) \<Rightarrow> string \<Rightarrow> cell_expr \<Rightarrow> 'v option" where
  "cell_value I dflt c X_Default = dflt c"
| "cell_value I dflt c (X_Value v) = value_of I v"

definition assign_cells ::
  "('v, 'm) interpretation_of_scheme \<Rightarrow> (string \<Rightarrow> 'v option) \<Rightarrow> (string \<times> cell_expr) list
     \<Rightarrow> 'v table_row \<Rightarrow> 'v table_row" where
  "assign_cells I dflt xs row =
     (\<lambda>c. case map_of xs c of Some x \<Rightarrow> cell_value I dflt c x | None \<Rightarrow> row c)"

text \<open>A new row has the given cells and the defaults of all other columns.\<close>

definition inserted_row ::
  "('v, 'm) interpretation_of_scheme \<Rightarrow> (string \<Rightarrow> 'v option) \<Rightarrow> (string list \<times> cell_expr list) option
     \<Rightarrow> 'v table_row" where
  "inserted_row I dflt cells =
     assign_cells I dflt (case cells of None \<Rightarrow> [] | Some (cs, xs) \<Rightarrow> zip cs xs) dflt"

end
