(* ===== verification/Compiler_Meaning.thy ===== *)
theory Compiler_Meaning
  imports Compiler_Facts Compiler_Grammar Sql_Statements "HOL-Library.Multiset"
begin

text \<open>
  What a compiled find means.  The portable meaning of a condition and of find parameters is given
  on rows, in three-valued logic, from the fields and the mapping alone.  The emitted text,
  tokenized, parsed and evaluated as SQL with the bindings as arguments, has the same meaning, for
  every way of reading values: the comparisons, casts and collations are the server's and stay
  parameters.
\<close>

section \<open>The portable meaning\<close>

text \<open>How the server reads values: arguments, casts, collations and the relations of operators.\<close>

record 'v server =
  argument_meaning :: "argument \<Rightarrow> 'v option"
  casts :: "string \<Rightarrow> 'v \<Rightarrow> 'v"
  collates :: "string \<Rightarrow> 'v \<Rightarrow> 'v"
  relation :: "operator \<Rightarrow> 'v \<Rightarrow> 'v \<Rightarrow> bool"

text \<open>The value of a mapped column in a row: numbers as \<open>numeric\<close>, text in the \<open>C\<close> collation.\<close>

definition field_value :: "'v server \<Rightarrow> 'v table_row \<Rightarrow> pg_column \<Rightarrow> 'v option" where
  "field_value W row c =
     map_option
       (case scalar_kind c of
          Kind_Numeric \<Rightarrow> casts W ''numeric'' | Kind_Text \<Rightarrow> collates W ''C'' | _ \<Rightarrow> id)
       (row (ident_str (column_ident c)))"

text \<open>A value the application gives for a column, read as the column's type.\<close>

definition given_value :: "'v server \<Rightarrow> pg_scalar_kind \<Rightarrow> pg_bind_value \<Rightarrow> 'v option" where
  "given_value W k b =
     (case placeholder_cast k of
        Some w \<Rightarrow> map_option (casts W w) (argument_meaning W (argument_of b))
      | None \<Rightarrow> argument_meaning W (argument_of b))"

definition every3 :: "bool option list \<Rightarrow> bool option" where
  "every3 bs =
     (if Some False \<in> set bs then Some False else if None \<in> set bs then None else Some True)"

definition some3 :: "bool option list \<Rightarrow> bool option" where
  "some3 bs =
     (if Some True \<in> set bs then Some True else if None \<in> set bs then None else Some False)"

text \<open>Membership; nothing is a member of the empty set, and only a known value is known not to be.\<close>

definition member3 :: "'v server \<Rightarrow> 'v option \<Rightarrow> 'v option list \<Rightarrow> bool option" where
  "member3 W x ys =
     (if ys = [] then Some False
      else
        (case x of
           None \<Rightarrow> None
         | Some a \<Rightarrow>
             if \<exists>b. Some b \<in> set ys \<and> relation W Op_Eq a b then Some True
             else if None \<in> set ys then None else Some False))"

definition not_member3 :: "'v server \<Rightarrow> 'v option \<Rightarrow> 'v option list \<Rightarrow> bool option" where
  "not_member3 W x ys = (if ys = [] then Some (x \<noteq> None) else not3 (member3 W x ys))"

definition the_bindings ::
  "soaprs_api \<Rightarrow> pg_scalar_kind \<Rightarrow> scalar_value list \<Rightarrow> pg_bind_value list" where
  "the_bindings api k vs =
     concat (map (\<lambda>v. case normalize_binding api k v of Ok b \<Rightarrow> [b] | Err e \<Rightarrow> []) vs)"

definition operands :: "operator \<Rightarrow> scalar_value option \<Rightarrow> scalar_value list" where
  "operands op v =
     (case v of
        None \<Rightarrow> []
      | Some x \<Rightarrow>
          if op = Op_In \<or> op = Op_Not_In
          then (case x of Scalar_List vs \<Rightarrow> vs | _ \<Rightarrow> [])
          else [x])"

definition predicate_means ::
  "'v server \<Rightarrow> soaprs_api \<Rightarrow> 'v table_row \<Rightarrow> pg_column \<Rightarrow> operator \<Rightarrow> scalar_value option \<Rightarrow> bool option"
where
  "predicate_means W api row c op v =
     (let x = field_value W row c;
          ys = map (given_value W (scalar_kind c)) (the_bindings api (scalar_kind c) (operands op v))
      in
        case op of
          Op_Is_Null \<Rightarrow> Some (x = None)
        | Op_Is_Not_Null \<Rightarrow> Some (x \<noteq> None)
        | Op_In \<Rightarrow> member3 W x ys
        | Op_Not_In \<Rightarrow> not_member3 W x ys
        | _ \<Rightarrow> lift3 (relation W op) x (hd ys))"

fun means ::
  "'v server \<Rightarrow> soaprs_api \<Rightarrow> pg_field_map \<Rightarrow> 'v table_row \<Rightarrow> condition \<Rightarrow> bool option" where
  "means W api m row (Group And cs) = every3 (map (means W api m row) cs)"
| "means W api m row (Group Or cs) = some3 (map (means W api m row) cs)"
| "means W api m row (Predicate f op v) =
     (case resolve api m f of Ok c \<Rightarrow> predicate_means W api row c op v | Err e \<Rightarrow> None)"

text \<open>No group is empty, as the validation of conditions is relied on to ensure.\<close>

fun groups_inhabited :: "condition \<Rightarrow> bool" where
  "groups_inhabited (Group op cs) = (cs \<noteq> [] \<and> list_all groups_inhabited cs)"
| "groups_inhabited (Predicate f op v) = True"

section \<open>The meaning of a planned tree\<close>

fun tree_means :: "'v server \<Rightarrow> 'v table_row \<Rightarrow> where_tree \<Rightarrow> bool option" where
  "tree_means W row (W_Group And ts) = every3 (map (tree_means W row) ts)"
| "tree_means W row (W_Group Or ts) = some3 (map (tree_means W row) ts)"
| "tree_means W row (W_Null_Test c b) = Some ((field_value W row c = None) = b)"
| "tree_means W row W_False = Some False"
| "tree_means W row (W_Set c b bs) =
     (let r = member3 W (field_value W row c) (map (given_value W (scalar_kind c)) bs)
      in if b then r else not3 r)"
| "tree_means W row (W_Compare c op b) =
     lift3 (relation W op) (field_value W row c) (given_value W (scalar_kind c) b)"

lemma the_bindings_Ok:
  "try_map (normalize_binding api k) vs = Ok bs \<Longrightarrow> the_bindings api k vs = bs"
proof (induction vs arbitrary: bs)
  case (Cons v vs)
  then show ?case by (auto simp: the_bindings_def and_then_eq_Ok map_ok_eq_Ok)
qed (simp add: the_bindings_def)

lemma plan_set_means:
  assumes "plan_set api c b v = Ok t" and "op = (if b then Op_In else Op_Not_In)"
  shows "tree_means W row t = predicate_means W api row c op v \<and> inhabited t"
proof -
  from assms(1) obtain vs where v: "v = Some (Scalar_List vs)"
    by (auto simp: plan_set_def split: option.splits scalar_value.splits)
  show ?thesis
  proof (cases "vs = []")
    case True
    with v assms show ?thesis
      by (auto simp: plan_set_def predicate_means_def operands_def the_bindings_def member3_def
          not_member3_def)
  next
    case False
    with v assms(1) obtain bs where bs: "try_map (normalize_binding api (scalar_kind c)) vs = Ok bs"
      "t = W_Set c b bs" by (auto simp: plan_set_def map_ok_eq_Ok)
    with False have "bs \<noteq> []" by (auto simp: try_map_Ok_iff)
    with v bs assms(2) show ?thesis
      by (simp add: predicate_means_def operands_def the_bindings_Ok not_member3_def Let_def)
  qed
qed

lemma plan_predicate_means:
  assumes "plan_predicate api c op v = Ok t"
  shows "tree_means W row t = predicate_means W api row c op v \<and> inhabited t"
proof (cases "op = Op_In \<or> op = Op_Not_In")
  case True
  with assms plan_set_means [of api c "op = Op_In" v t op W row] show ?thesis
    by (auto simp: plan_predicate_def)
next
  case False
  have "the_bindings api (scalar_kind c) [x] = [b]" if "normalize_binding api (scalar_kind c) x = Ok b"
    for x b
    using that by (simp add: the_bindings_def)
  with False assms show ?thesis
    by (cases op)
      (auto simp: plan_predicate_def plan_comparison_def predicate_means_def operands_def
        map_ok_eq_Ok Let_def split: if_splits option.splits)
qed

lemma plan_means:
  "plan api m c = Ok t \<Longrightarrow> groups_inhabited c \<Longrightarrow>
     tree_means W row t = means W api m row c \<and> inhabited t"
proof (induction c arbitrary: t)
  case (Group op cs)
  from Group.prems obtain ts where t: "t = W_Group op ts" and "try_map (plan api m) cs = Ok ts"
    by (auto simp: map_ok_eq_Ok)
  then have ts: "list_all2 (\<lambda>c u. plan api m c = Ok u) cs ts" by (simp add: try_map_Ok_iff)
  have each: "list_all2 (\<lambda>c u. tree_means W row u = means W api m row c \<and> inhabited u) cs ts"
    by (rule list.rel_mono_strong [OF ts]) (use Group in \<open>simp add: list_all_iff\<close>)
  then have "map (tree_means W row) ts = map (means W api m row) cs"
    by (auto simp: list_all2_conv_all_nth intro!: nth_equalityI)
  moreover have "list_all inhabited ts"
    using each by (auto simp: list_all2_conv_all_nth list_all_length)
  moreover have "ts \<noteq> []" using ts Group.prems(2) by auto
  ultimately show ?case using t by (cases op) simp_all
next
  case (Predicate f op v)
  then obtain c where "resolve api m f = Ok c" "plan_predicate api c op v = Ok t"
    by (auto simp: and_then_eq_Ok)
  then show ?case using plan_predicate_means [of api c op v t W row] by simp
qed

section \<open>The meaning of the emitted text\<close>

definition sql_relation :: "'v server \<Rightarrow> string \<Rightarrow> 'v \<Rightarrow> 'v \<Rightarrow> bool" where
  "sql_relation W s =
     (if s = ''='' then relation W Op_Eq else if s = ''<>'' then relation W Op_Ne
      else if s = ''>'' then relation W Op_Gt else if s = ''>='' then relation W Op_Gte
      else if s = ''<'' then relation W Op_Lt else if s = ''<='' then relation W Op_Lte
      else (\<lambda>a b. False))"

text \<open>The arguments are counted from 1; \<open>LIKE\<close> is read without an escape character.\<close>

definition sql_interpretation ::
  "'v server \<Rightarrow> pg_arguments \<Rightarrow> 'v table_row \<Rightarrow> 'v interpretation_of" where
  "sql_interpretation W args row =
     \<lparr>row_value = row,
      arg_value = (\<lambda>n. if 0 < n \<and> n \<le> length args then argument_meaning W (args ! (n - 1)) else None),
      cast_value = casts W, collate_value = collates W, compare_values = sql_relation W,
      like_values = (\<lambda>s. if s = '''' then relation W Op_Like else (\<lambda>a b. False))\<rparr>"

lemma value_of_column: "value_of (sql_interpretation W args row) (column_value c) = field_value W row c"
  by (cases "scalar_kind c")
    (simp_all add: column_value_def field_value_def sql_interpretation_def option.map_id0)

lemma value_of_place:
  "i < length bs \<Longrightarrow>
     value_of (sql_interpretation W (map argument_of bs) row) (place_value (Suc i) k) = given_value W k (bs ! i)"
  by (simp add: place_value_def given_value_def sql_interpretation_def split: option.split)

lemma compare_symbol:
  "is_comparison op \<Longrightarrow> op \<noteq> Op_Like \<Longrightarrow>
     compare_values (sql_interpretation W args row) (symbol_of op) = relation W op"
  by (cases op)
    (simp_all add: is_comparison_def sql_interpretation_def sql_relation_def symbol_of_def
      comparison_token_def)

text \<open>The bindings of a tree are at its place in the list of arguments.\<close>

definition placed :: "pg_bind_value list \<Rightarrow> nat \<Rightarrow> pg_bind_value list \<Rightarrow> bool" where
  "placed bs n us \<longleftrightarrow> (\<exists>ws. drop n bs = us @ ws)"

lemma placed_append:
  "placed bs n (us @ ws) \<longleftrightarrow> placed bs n us \<and> placed bs (n + length us) ws"
proof -
  have "drop (n + length us) bs = drop (length us) (drop n bs)" by (simp add: add.commute)
  then show ?thesis by (auto simp: placed_def simp del: drop_drop)
qed

lemma placed_nth:
  assumes "placed bs n us" and "i < length us"
  shows "n + i < length bs" and "bs ! (n + i) = us ! i"
proof -
  from assms(1) obtain ws where drop: "drop n bs = us @ ws" by (auto simp: placed_def)
  then have "length bs - n = length us + length ws" by (metis length_append length_drop)
  with assms(2) show bound: "n + i < length bs" by simp
  have "drop n bs ! i = us ! i" using drop assms(2) by (simp add: nth_append)
  with bound show "bs ! (n + i) = us ! i" by simp
qed

lemma placed_values:
  assumes "placed bs n us"
  shows "map (\<lambda>i. value_of (sql_interpretation W (map argument_of bs) row) (place_value i k))
           [Suc n ..< Suc (n + length us)] = map (given_value W k) us"
  by (rule nth_equalityI) (simp_all add: value_of_place placed_nth [OF assms] del: upt_Suc)

lemma truth_in:
  "foldr or3 (map (lift3 (relation W Op_Eq) x) ys) (Some False) = member3 W x ys"
  unfolding or3_list
  by (cases x) (auto simp: member3_def lift3_def image_iff split: option.splits)

lemma truth_tree:
  "tree_ok t \<Longrightarrow> placed bs n (binds t) \<Longrightarrow>
     truth (sql_interpretation W (map argument_of bs) row) (tree_expr n t) = tree_means W row t"
proof (induction t arbitrary: n)
  case (W_Group op ts)
  have "map (truth (sql_interpretation W (map argument_of bs) row)) (list_exprs n ts) = map (tree_means W row) ts"
    using W_Group
  proof (induction ts arbitrary: n)
    case (Cons t ts)
    then show ?case by (simp add: placed_append)
  qed simp
  then show ?case
    by (cases op)
      (simp_all add: connect_def truth_all_of truth_any_of and3_list or3_list every3_def some3_def
        del: set_map)
next
  case (W_Set c b us)
  let ?I = "sql_interpretation W (map argument_of bs) row" and ?ns = "[Suc n ..< Suc (n + length us)]"
  have eq: "compare_values ?I ''='' = relation W Op_Eq"
    by (simp add: sql_interpretation_def sql_relation_def)
  have "map (\<lambda>x. lift3 (compare_values ?I ''='') (value_of ?I (column_value c)) (value_of ?I x))
      (map (\<lambda>i. place_value i (scalar_kind c)) ?ns) =
      map (lift3 (relation W Op_Eq) (field_value W row c))
        (map (\<lambda>i. value_of ?I (place_value i (scalar_kind c))) ?ns)"
    by (simp add: eq value_of_column del: upt_Suc)
  also have "\<dots> = map (lift3 (relation W Op_Eq) (field_value W row c))
        (map (given_value W (scalar_kind c)) us)"
    using W_Set.prems(2) by (simp only: placed_values binds.simps)
  finally show ?case
    by (simp only: tree_expr.simps truth.simps tree_means.simps truth_in)
next
  case (W_Compare c op b)
  then have "value_of (sql_interpretation W (map argument_of bs) row) (place_value (Suc n) (scalar_kind c)) =
      given_value W (scalar_kind c) b"
    using placed_nth [of bs n "[b]" 0] by (simp add: value_of_place)
  moreover have "is_comparison op" using W_Compare.prems(1) by simp
  moreover have "like_values (sql_interpretation W (map argument_of bs) row) '''' = relation W Op_Like"
    by (simp add: sql_interpretation_def)
  ultimately show ?case by (simp add: value_of_column compare_symbol)
qed (simp_all add: value_of_column)

section \<open>The answers of a find\<close>

text \<open>
  The possible answers over a table: some order of the kept rows that respects the sort keys (rows
  with equal keys in any order), then a window of it.
\<close>

definition answers ::
  "('r \<Rightarrow> bool) \<Rightarrow> ('r \<Rightarrow> 'r \<Rightarrow> bool) \<Rightarrow> nat option \<Rightarrow> nat \<Rightarrow> 'r list \<Rightarrow> 'r list \<Rightarrow> bool" where
  "answers keep before lim off rows out \<longleftrightarrow>
     (\<exists>arranged. mset arranged = mset (filter keep rows) \<and>
        sorted_wrt (\<lambda>a b. \<not> before b a) arranged \<and>
        out = (case lim of None \<Rightarrow> drop off arranged | Some k \<Rightarrow> take k (drop off arranged)))"

text \<open>The SQL side: nulls where the item puts them.\<close>

definition key_before :: "'v server \<Rightarrow> sort_item \<Rightarrow> 'v option \<Rightarrow> 'v option \<Rightarrow> bool" where
  "key_before W k x y =
     (case (x, y) of
        (None, None) \<Rightarrow> False
      | (None, Some b) \<Rightarrow> nulls_first k
      | (Some a, None) \<Rightarrow> \<not> nulls_first k
      | (Some a, Some b) \<Rightarrow>
          if ascending k then relation W Op_Lt a b else relation W Op_Lt b a)"

fun sql_before ::
  "'v server \<Rightarrow> pg_arguments \<Rightarrow> sort_item list \<Rightarrow> 'v table_row \<Rightarrow> 'v table_row \<Rightarrow> bool" where
  "sql_before W args [] a b = False"
| "sql_before W args (k # ks) a b =
     (let x = value_of (sql_interpretation W args a) (key_expr k);
          y = value_of (sql_interpretation W args b) (key_expr k)
      in key_before W k x y \<or> (\<not> key_before W k y x \<and> sql_before W args ks a b))"

definition sql_count :: "pg_arguments \<Rightarrow> nat \<Rightarrow> nat" where
  "sql_count args n = (case args ! (n - 1) of Add_I64 u \<Rightarrow> unat u | _ \<Rightarrow> 0)"

definition sql_answers ::
  "'v server \<Rightarrow> pg_arguments \<Rightarrow> query_tail \<Rightarrow> 'v table_row list \<Rightarrow> 'v table_row list \<Rightarrow> bool" where
  "sql_answers W args t rows out =
     answers
       (\<lambda>row. case where_of t of None \<Rightarrow> True | Some e \<Rightarrow> selected (sql_interpretation W args row) e)
       (sql_before W args (order_of t))
       (map_option (sql_count args) (limit_of t))
       (case offset_of t of None \<Rightarrow> 0 | Some n \<Rightarrow> sql_count args n) rows out"

text \<open>The portable side: null is below every value, and descending reverses the order.\<close>

definition null_below :: "'v server \<Rightarrow> 'v option \<Rightarrow> 'v option \<Rightarrow> bool" where
  "null_below W x y =
     (case (x, y) of
        (None, Some b) \<Rightarrow> True
      | (Some a, Some b) \<Rightarrow> relation W Op_Lt a b
      | _ \<Rightarrow> False)"

definition direction_before ::
  "'v server \<Rightarrow> sort_direction \<Rightarrow> 'v option \<Rightarrow> 'v option \<Rightarrow> bool" where
  "direction_before W d x y =
     (case d of Ascending \<Rightarrow> null_below W x y | Descending \<Rightarrow> null_below W y x)"

definition sort_value ::
  "'v server \<Rightarrow> soaprs_api \<Rightarrow> pg_field_map \<Rightarrow> field_name \<Rightarrow> 'v table_row \<Rightarrow> 'v option" where
  "sort_value W api m f row =
     (case resolve api m f of Ok c \<Rightarrow> field_value W row c | Err e \<Rightarrow> None)"

fun field_before ::
  "'v server \<Rightarrow> soaprs_api \<Rightarrow> pg_field_map \<Rightarrow> sort_key list \<Rightarrow> 'v table_row \<Rightarrow> 'v table_row \<Rightarrow> bool"
where
  "field_before W api m [] a b = False"
| "field_before W api m (s # ss) a b =
     (let x = sort_value W api m (sort_field s) a; y = sort_value W api m (sort_field s) b
      in direction_before W (direction s) x y \<or>
         (\<not> direction_before W (direction s) y x \<and> field_before W api m ss a b))"

definition find_answers ::
  "'v server \<Rightarrow> soaprs_api \<Rightarrow> pg_field_map \<Rightarrow> find_params \<Rightarrow> 'v table_row list \<Rightarrow> 'v table_row list
     \<Rightarrow> bool" where
  "find_answers W api m params rows out =
     answers
       (\<lambda>row. case condition_of params of None \<Rightarrow> True | Some c \<Rightarrow> means W api m row c = Some True)
       (field_before W api m (sort_keys params))
       (map_option unat (limit params)) (unat (offset params)) rows out"

lemma key_before_item: "key_before W (sort_item_of (c, d)) x y = direction_before W d x y"
  by (cases d; cases x; cases y)
    (simp_all add: key_before_def sort_item_of_def direction_before_def null_below_def)

lemma key_expr_item: "key_expr (sort_item_of (c, d)) = column_value c"
  by (simp add: sort_item_of_def)

lemma sql_before_items:
  "plan_order api m ks = Ok os \<Longrightarrow>
     sql_before W args (map sort_item_of os) a b = field_before W api m ks a b"
proof (induction ks arbitrary: os)
  case (Cons k ks)
  then obtain c ps where "resolve api m (sort_field k) = Ok c" "plan_order api m ks = Ok ps"
    "os = (c, direction k) # ps"
    by (auto simp: plan_order_def and_then_eq_Ok map_ok_eq_Ok)
  with Cons.IH [of ps] show ?case
    by (simp add: key_before_item sort_value_def value_of_column key_expr_item Let_def)
qed (simp add: plan_order_def)

lemma bindings_render_find:
  "bindings (render_find p) =
     (case p_where p of None \<Rightarrow> [] | Some t \<Rightarrow> binds t) @
     (case p_limit p of None \<Rightarrow> [] | Some u \<Rightarrow> [Bind_I64 u]) @
     (case p_offset p of None \<Rightarrow> [] | Some u \<Rightarrow> [Bind_I64 u])"
  by (simp add: render_find_def finish_def add_where_def add_order_def add_number_def
      split: option.split)

lemma sql_count_limit:
  "p_limit p = Some u \<Longrightarrow> sql_count (map argument_of (bindings (render_find p))) (Suc (where_size p)) = unat u"
  by (simp add: sql_count_def bindings_render_find where_size_def nth_append argument_of_def
      split: option.split)

lemma sql_count_offset:
  "p_offset p = Some u \<Longrightarrow>
     sql_count (map argument_of (bindings (render_find p)))
       (Suc (where_size p + (if p_limit p = None then 0 else 1))) = unat u"
  by (simp add: sql_count_def bindings_render_find where_size_def nth_append argument_of_def
      split: option.split)

lemma answers_plan:
  assumes plan: "plan_find api m params = Ok p"
    and tree: "\<And>t. p_where p = Some t \<Longrightarrow> tree_ok t"
    and inhabited: "\<And>c. condition_of params = Some c \<Longrightarrow> groups_inhabited c"
  shows "sql_answers W (map argument_of (bindings (render_find p))) (tail_of p) rows out =
     find_answers W api m params rows out"
proof -
  let ?bs = "bindings (render_find p)"
  let ?args = "map argument_of ?bs"
  note parts = plan_find_fields [OF plan]
  have keep: "(case where_of (tail_of p) of None \<Rightarrow> True
        | Some e \<Rightarrow> selected (sql_interpretation W ?args row) e) =
      (case condition_of params of None \<Rightarrow> True | Some c \<Rightarrow> means W api m row c = Some True)" for row
  proof (cases "condition_of params")
    case None
    with parts(1) show ?thesis by (simp add: plan_where_def tail_of_def)
  next
    case (Some c)
    with parts(1) obtain t where t: "p_where p = Some t" "plan api m c = Ok t"
      by (auto simp: plan_where_def map_ok_eq_Ok)
    then have "placed ?bs 0 (binds t)" by (simp add: placed_def bindings_render_find)
    from truth_tree [OF tree [OF t(1)] this, of W row]
      plan_means [OF t(2) inhabited [OF Some], of W row]
    show ?thesis using Some t(1) by (simp add: tail_of_def selected_def)
  qed
  have before: "sql_before W ?args (order_of (tail_of p)) = field_before W api m (sort_keys params)"
    using sql_before_items [OF parts(2), of W ?args] by (simp add: fun_eq_iff tail_of_def)
  have lim: "map_option (sql_count ?args) (limit_of (tail_of p)) = map_option unat (limit params)"
  proof (cases "limit params")
    case None
    with parts(3) show ?thesis by (simp add: tail_of_def)
  next
    case (Some u)
    with parts(3) sql_count_limit [of p u] show ?thesis by (simp add: tail_of_def)
  qed
  have off: "(case offset_of (tail_of p) of None \<Rightarrow> 0 | Some n \<Rightarrow> sql_count ?args n) =
      unat (offset params)"
    using parts(5) sql_count_offset [of p]
    by (cases "offset params = 0") (simp_all add: tail_of_def word_gt_0)
  show ?thesis
    unfolding sql_answers_def find_answers_def by (simp only: keep before lim off)
qed

lemma plan_find_tree:
  assumes "field_map_ok m" and "plan_find api m params = Ok p" and "p_where p = Some t"
  shows "tree_ok t"
proof -
  from plan_find_fields(1) [OF assms(2)] assms(3) obtain c where "plan api m c = Ok t"
    by (auto simp: plan_where_def map_ok_eq_Ok split: option.splits)
  with plan_tree [OF assms(1)] show ?thesis by blast
qed

lemma plan_find_ok: "field_map_ok m \<Longrightarrow> plan_find api m params = Ok p \<Longrightarrow> plan_ok p"
  using plan_find_tree plan_order_columns plan_find_fields(2) by (fastforce simp: plan_ok_def)

lemma plan_find_inhabited:
  assumes "plan_find api m params = Ok p"
    and "\<And>c. condition_of params = Some c \<Longrightarrow> groups_inhabited c" and "p_where p = Some t"
  shows "inhabited t"
proof -
  from plan_find_fields(1) [OF assms(1)] assms(3) obtain c where
    "condition_of params = Some c" "plan api m c = Ok t"
    by (auto simp: plan_where_def map_ok_eq_Ok split: option.splits)
  with plan_means assms(2) show ?thesis by blast
qed

section \<open>Properties\<close>

text \<open>A find over the sample map: a nested condition, a sort key and a window.\<close>

definition sample_find :: find_params where
  "sample_find =
     \<lparr>condition_of = Some (sample_condition True 18 ''x''),
      sort_keys = [\<lparr>sort_field = Field_Name ''age'', direction = Descending\<rparr>],
      limit = Some 20, offset = 40\<rparr>"

definition sample_tree :: where_tree where
  "sample_tree =
     W_Group And
       [W_Compare (column_new (Pg_Identifier ''is_active'') Kind_Bool PERSISTED) Op_Eq (Bind_Bool True),
        W_Group Or
          [W_Compare (column_new (Pg_Identifier ''age'') Kind_Numeric PERSISTED) Op_Gte
             (Bind_Numeric ''18''),
           W_Compare (column_new (Pg_Identifier ''display_name'') Kind_Text PERSISTED) Op_Like
             (Bind_Text ''x'')]]"

lemma params_validate_sample: "params_validate sample_api p = Ok ()"
  by (simp add: sample_api_def)

lemma sample_plan:
  "plan_find sample_api sample_fields sample_find =
     Ok \<lparr>p_where = Some sample_tree,
         p_order = [(column_new (Pg_Identifier ''age'') Kind_Numeric PERSISTED, Descending)],
         p_limit = Some 20, p_offset = Some 40\<rparr>"
  by (simp add: plan_find_def plan_where_def plan_order_def plan_number_def sample_find_def
      sample_tree_def sample_condition_def sample_defs plan_predicate_def plan_comparison_def
      normalize_binding_def bind_scalar_def resolve_def show_nat.simps digit_char_simps)

lemma sample_find_inhabited: "condition_of sample_find = Some c \<Longrightarrow> groups_inhabited c"
  by (auto simp: sample_find_def sample_condition_def)

lemma sample_compiles:
  "\<exists>q. compile_find sample_api sample_fields (sample_find\<lparr>offset := n\<rparr>) = Ok q \<or> 2 ^ 63 \<le> unat n"
  using sample_plan
  by (cases "2 ^ 63 \<le> unat n")
    (auto simp: compile_find_eq plan_find_def and_then_eq_Ok plan_number_def sample_find_def
      params_validate_sample)

lemma sample_tail:
  "tail_of \<lparr>p_where = Some sample_tree,
      p_order = [(column_new (Pg_Identifier ''age'') Kind_Numeric PERSISTED, Descending)],
      p_limit = Some 20, p_offset = Some 40\<rparr> =
     \<lparr>where_of = Some (B_All
        [B_Compare (V_Column ''is_active'') ''='' (V_Param 1),
         B_Any
           [B_Compare (V_Cast (V_Column ''age'') ''numeric'') ''>='' (V_Cast (V_Param 2) ''numeric''),
            B_Like (V_Collate (V_Column ''display_name'') ''C'') (V_Param 3) '''']]),
      order_of = [\<lparr>key_expr = V_Cast (V_Column ''age'') ''numeric'', ascending = False,
        nulls_first = False\<rparr>],
      limit_of = Some 4, offset_of = Some 5\<rparr>"
  by (simp add: tail_of_def sample_tree_def where_size_def connect_def all_of_def any_of_def
      column_value_def place_value_def placeholder_cast_def symbol_of_def comparison_token_def
      sort_item_of_def column_new_def)

text \<open>
  C4: the emitted text is parsed back to what was compiled.  The text of every compiled find is a
  complete sequence of clauses of the reference grammar: the parser recovers the condition with its
  groups, tests, columns and parameter numbers, the sort keys with their directions and null
  placements, and the parameters of limit and offset, all as computed from the plan.  No
  precedence rule of SQL regroups anything.  Groups are not empty, which the validation of
  conditions is relied on to ensure.
\<close>

theorem compiled_find_parses_back:
  assumes "field_map_ok m" and "compile_find api m params = Ok q"
    and "\<And>c. condition_of params = Some c \<Longrightarrow> groups_inhabited c"
  shows "\<exists>p ts. plan_find api m params = Ok p \<and> tokenize (sql q) = Some ts \<and>
           parse_tail ts = Some (tail_of p)"
proof -
  from assms(2) obtain p where p: "plan_find api m params = Ok p" and q: "q = render_find p"
    by (auto simp: compile_find_eq and_then_eq_Ok map_ok_eq_Ok)
  note tree = plan_find_tree [OF assms(1) p] and inhabited = plan_find_inhabited [OF p assms(3)]
  from reads_lex [OF reads_render_find [OF plan_find_ok [OF assms(1) p]]] parse_tail_tokens [of p] tree inhabited
  show ?thesis using p q by blast
qed

theorem compiled_find_parses_back_witness:
  "\<exists>q ts. compile_find sample_api sample_fields sample_find = Ok q \<and> tokenize (sql q) = Some ts \<and>
     parse_tail ts = Some
       \<lparr>where_of = Some (B_All
          [B_Compare (V_Column ''is_active'') ''='' (V_Param 1),
           B_Any
             [B_Compare (V_Cast (V_Column ''age'') ''numeric'') ''>='' (V_Cast (V_Param 2) ''numeric''),
              B_Like (V_Collate (V_Column ''display_name'') ''C'') (V_Param 3) '''']]),
        order_of = [\<lparr>key_expr = V_Cast (V_Column ''age'') ''numeric'', ascending = False,
          nulls_first = False\<rparr>],
        limit_of = Some 4, offset_of = Some 5\<rparr>"
proof -
  obtain q where q: "compile_find sample_api sample_fields sample_find = Ok q"
    using sample_plan by (simp add: compile_find_eq params_validate_sample)
  from compiled_find_parses_back [OF field_map_ok_sample q sample_find_inhabited] obtain p ts where
    p: "plan_find sample_api sample_fields sample_find = Ok p" and
    ts: "tokenize (sql q) = Some ts" "parse_tail ts = Some (tail_of p)" by blast
  from p have "p = \<lparr>p_where = Some sample_tree,
      p_order = [(column_new (Pg_Identifier ''age'') Kind_Numeric PERSISTED, Descending)],
      p_limit = Some 20, p_offset = Some 40\<rparr>" by (simp add: sample_plan)
  with q ts sample_tail show ?thesis by metis
qed

text \<open>
  C3: a compiled find means its parameters.  Take any reading of values, casts, collations and
  operators.  Tokenize the emitted text, parse it, and run its clauses on any rows as SQL does, in
  three-valued logic and with the bindings as arguments: the possible answers are exactly the
  portable ones.  A row is kept when the condition holds of its mapped fields, nulls sort below
  all values, and the window is the requested one.
\<close>

theorem compiled_find_means_its_parameters:
  assumes "field_map_ok m" and "compile_find api m params = Ok q"
    and "into_sqlx_parts enc q = Ok (stmt, args)"
    and "\<And>c. condition_of params = Some c \<Longrightarrow> groups_inhabited c"
  shows "\<exists>ts tail. tokenize stmt = Some ts \<and> parse_tail ts = Some tail \<and>
           (\<forall>rows out. sql_answers W args tail rows out \<longleftrightarrow> find_answers W api m params rows out)"
proof -
  from assms(2) obtain p where p: "plan_find api m params = Ok p" and q: "q = render_find p"
    by (auto simp: compile_find_eq and_then_eq_Ok map_ok_eq_Ok)
  from assms(3) have sent: "stmt = sql q" "args = map argument_of (bindings q)"
    by (auto simp: into_sqlx_parts_def and_then_eq_Ok into_arguments_eq_Ok)
  note tree = plan_find_tree [OF assms(1) p] and inhabited = plan_find_inhabited [OF p assms(4)]
  have "tokenize (sql q) = Some (tail_tokens p)" "parse_tail (tail_tokens p) = Some (tail_of p)"
    using reads_lex [OF reads_render_find [OF plan_find_ok [OF assms(1) p]]] parse_tail_tokens [of p] tree
      inhabited q by blast+
  with answers_plan [OF p tree assms(4)] q sent show ?thesis by blast
qed

text \<open>A server of numbers that reads every argument but \<open>18\<close> as zero, and a row of it.\<close>

definition sample_server :: "nat server" where
  "sample_server =
     \<lparr>argument_meaning = (\<lambda>a. if a = Add_String ''18'' then Some 18 else Some 0),
      casts = (\<lambda>_. id), collates = (\<lambda>_. id),
      relation = (\<lambda>op a b. case op of Op_Gte \<Rightarrow> b \<le> a | Op_Lt \<Rightarrow> a < b | _ \<Rightarrow> a = b)\<rparr>"

definition sample_row :: "nat table_row" where
  "sample_row = (\<lambda>c. Some (if c = ''age'' then 20 else 0))"

lemma sample_means:
  "means sample_server sample_api sample_fields sample_row (sample_condition True 18 ''x'') = Some True"
  by (simp add: sample_condition_def resolve_def sample_defs predicate_means_def every3_def some3_def
      field_value_def operands_def the_bindings_def normalize_binding_def bind_scalar_def
      given_value_def placeholder_cast_def argument_of_def sample_server_def sample_row_def lift3_def show_nat.simps
      digit_char_simps)

theorem compiled_find_means_its_parameters_witness:
  "\<exists>q stmt args ts tail. compile_find sample_api sample_fields (sample_find\<lparr>offset := 0\<rparr>) = Ok q \<and>
     into_sqlx_parts (\<lambda>_. None) q = Ok (stmt, args) \<and>
     tokenize stmt = Some ts \<and> parse_tail ts = Some tail \<and>
     sql_answers sample_server args tail [sample_row] [sample_row]"
proof -
  let ?p = "sample_find\<lparr>offset := 0\<rparr>"
  have inhabited: "groups_inhabited c" if "condition_of ?p = Some c" for c
    using that sample_find_inhabited by simp
  obtain q where q: "compile_find sample_api sample_fields ?p = Ok q"
    using sample_compiles [of 0] by auto
  have parts: "into_sqlx_parts (\<lambda>_. None) q = Ok (sql q, map argument_of (bindings q))"
    by (simp add: into_sqlx_parts_def and_then_eq_Ok into_arguments_eq_Ok)
  have "find_answers sample_server sample_api sample_fields ?p [sample_row] [sample_row]"
    using sample_means
    by (auto simp: find_answers_def answers_def sample_find_def intro!: exI [of _ "[sample_row]"])
  with q parts compiled_find_means_its_parameters
    [OF field_map_ok_sample q parts inhabited, where W = sample_server]
  show ?thesis by blast
qed

end
