(* ===== verification/Repository_Meaning.thy ===== *)
theory Repository_Meaning
  imports Repository_Properties Compiler_Meaning
begin

text \<open>
  The statements of the repository, parsed back by the reference grammar: each operation's text is
  the statement computed from the mapping, the plan of the find, the identity or the cells, and its
  arguments are the bindings of that plan.
\<close>

section \<open>Statements, parsed\<close>

abbreviation column_name :: "pg_column \<Rightarrow> string" where
  "column_name c \<equiv> ident_str (column_ident c)"

definition path_of :: "pg_table \<Rightarrow> table_path" where
  "path_of t = (map_option ident_str (schema t), ident_str (table_name t))"

lemma parse_table_tokens:
  "\<not> starts_with T_Dot ts \<Longrightarrow> parse_table (table_tokens t @ ts) = Some (path_of t, ts)"
  by (cases "schema t") (simp_all add: parse_table_def table_tokens_def path_of_def)

lemma parse_names_tokens:
  assumes "cs \<noteq> []" and "plain ts" and "\<not> starts_with T_Comma ts"
  shows "parse_items parse_name (commas (map name_tokens cs) @ ts) = Some (map column_name cs, ts)"
  by (rule parse_items_commas [OF _ assms(1) _ assms(2,3)]) (simp_all add: name_tokens_def)

lemma skip_names: "skip count_words (commas (map name_tokens cs) @ T_Word ''FROM'' # ts) = None"
  by (induction cs rule: induct_list012) (simp_all add: name_tokens_def count_words_def)

text \<open>A column equal to a parameter, up to the end or a clause that follows.\<close>

definition equality :: "pg_column \<Rightarrow> nat \<Rightarrow> bool_expr" where
  "equality c n = B_Compare (V_Column (column_name c)) ''='' (place_value n (scalar_kind c))"

lemma parse_equality:
  assumes "plain ts" and "\<not> starts_word ''AND'' ts" and "\<not> starts_word ''OR'' ts"
  shows "parse_expr (assignment_tokens c (place_tokens n (scalar_kind c)) @ ts) = Some (equality c n, ts)"
  using assms
  by (simp add: parse_expr_def parse_fuel_def eval_nat_numeral assignment_tokens_def name_tokens_def
      parse_leaf_def parse_place equality_def all_of_def any_of_def)

section \<open>Cells, numbered\<close>

fun number_cells :: "nat \<Rightarrow> cell list \<Rightarrow> (pg_column \<times> nat option) list" where
  "number_cells n [] = []"
| "number_cells n ((c, None) # cells) = (c, None) # number_cells n cells"
| "number_cells n ((c, Some b) # cells) = (c, Some (Suc n)) # number_cells (Suc n) cells"

definition slot_tokens :: "pg_column \<times> nat option \<Rightarrow> token list" where
  "slot_tokens p =
     (case snd p of None \<Rightarrow> [T_Word ''DEFAULT''] | Some i \<Rightarrow> place_tokens i (scalar_kind (fst p)))"

definition slot_expr :: "pg_column \<times> nat option \<Rightarrow> cell_expr" where
  "slot_expr p =
     (case snd p of None \<Rightarrow> X_Default | Some i \<Rightarrow> X_Value (place_value i (scalar_kind (fst p))))"

lemma cell_tokens_eq: "cell_tokens n cells = map (\<lambda>p. (fst p, slot_tokens p)) (number_cells n cells)"
  by (induction n cells rule: number_cells.induct) (simp_all add: slot_tokens_def)

lemma fst_number_cells: "map fst (number_cells n cells) = map fst cells"
  by (induction n cells rule: number_cells.induct) simp_all

lemma number_cells_Nil [simp]: "number_cells n cells = [] \<longleftrightarrow> cells = []"
  using fst_number_cells [of n cells] by (metis map_is_Nil_conv)

lemma parse_slot: "plain ts \<Longrightarrow> parse_cell (slot_tokens p @ ts) = Some (slot_expr p, ts)"
  by (auto simp: parse_cell_def slot_tokens_def slot_expr_def parse_place
      split: option.split)

lemma slot_tokens_not_Nil [simp]: "slot_tokens p \<noteq> []"
  by (simp add: slot_tokens_def split: option.split)

section \<open>The statements of the repository\<close>

definition returned :: "soaprs_api \<Rightarrow> pg_entity_mapping \<Rightarrow> bool \<Rightarrow> string list option" where
  "returned api m returning =
     (if returning then Some (map column_name (matching_columns api m selectable)) else None)"

lemma parse_returning_tokens:
  assumes "returning \<longrightarrow> matching_columns api m selectable \<noteq> []"
  shows "parse_returning (returning_tokens api m returning) = Some (returned api m returning)"
  using assms parse_names_tokens [of "matching_columns api m selectable" "[]"]
  by (simp add: parse_returning_def returning_tokens_def returned_def)

lemma returning_rest:
  "plain (returning_tokens api m b)" "\<not> starts_with T_Dot (returning_tokens api m b)"
  "\<not> starts_word ''AND'' (returning_tokens api m b)" "\<not> starts_word ''OR'' (returning_tokens api m b)"
  by (simp_all add: returning_tokens_def)

lemma parse_select_tokens:
  assumes "matching_columns api m selectable \<noteq> []" and "parse_tail ts = Some t"
    and "\<not> starts_with T_Dot ts"
  shows "parse_statement (select_tokens api m @ ts) =
     Some (S_Select (map column_name (matching_columns api m selectable)) (path_of (table m)) t)"
proof -
  let ?cs = "matching_columns api m selectable"
  have "parse_items parse_name (commas (map name_tokens ?cs) @ T_Word ''FROM'' # table_tokens (table m) @ ts) =
      Some (map column_name ?cs, T_Word ''FROM'' # table_tokens (table m) @ ts)"
    by (rule parse_names_tokens [OF assms(1)]) simp_all
  then show ?thesis
    using assms(2) parse_table_tokens [OF assms(3), of "table m"]
    by (simp add: parse_statement_def parse_select_def select_tokens_def skip_names)
qed

lemma parse_count_statement:
  assumes "parse_tail ts = Some t" and "\<not> starts_with T_Dot ts"
  shows "parse_statement (count_tokens m @ ts) = Some (S_Count (path_of (table m)) t)"
  using assms parse_table_tokens [OF assms(2), of "table m"]
  by (simp add: parse_statement_def parse_select_def count_tokens_def count_words_def)

lemma parse_insert_tokens:
  assumes "returning \<longrightarrow> matching_columns api m selectable \<noteq> []"
  shows "parse_statement (insert_tokens api m cells returning) =
     Some (S_Insert (path_of (table m))
       (if cells = [] then None
        else Some (map (column_name \<circ> fst) cells, map slot_expr (number_cells 0 cells)))
       (returned api m returning))"
proof (cases "cells = []")
  case True
  then show ?thesis
    by (simp add: parse_statement_def parse_insert_def insert_tokens_def parse_table_tokens
        parse_returning_tokens [OF assms])
next
  case False
  let ?rest = "returning_tokens api m returning" and ?ps = "number_cells 0 cells"
  let ?slots = "T_Open # commas (map slot_tokens ?ps) @ T_Close # ?rest"
  have names: "parse_group parse_name (T_Open # commas (map (\<lambda>p. name_tokens (fst p)) cells) @
      T_Close # T_Word ''VALUES'' # ?slots) =
      Some (map (column_name \<circ> fst) cells, T_Word ''VALUES'' # ?slots)"
    by (rule parse_group_commas) (simp_all add: name_tokens_def False)
  have cells: "parse_group parse_cell ?slots = Some (map slot_expr ?ps, ?rest)"
    by (rule parse_group_commas) (simp_all add: False parse_slot)
  have snd: "map snd (cell_tokens 0 cells) = map slot_tokens ?ps"
    by (simp add: cell_tokens_eq comp_def)
  show ?thesis
    using False names cells
    by (simp add: parse_statement_def parse_insert_def insert_tokens_def parse_table_tokens snd
        parse_returning_tokens [OF assms])
qed

lemma parse_replace_tokens:
  assumes "returning \<longrightarrow> matching_columns api m selectable \<noteq> []" and "cells \<noteq> []"
  shows "parse_statement (replace_tokens api m cells idc returning) =
     Some (S_Update (path_of (table m))
       (map (\<lambda>p. (column_name (fst p), slot_expr p)) (number_cells 0 cells))
       (equality idc (Suc (length (cell_binds cells)))) (returned api m returning))"
proof -
  let ?ps = "number_cells 0 cells" and ?n = "Suc (length (cell_binds cells))"
  let ?rest = "assignment_tokens idc (place_tokens ?n (scalar_kind idc)) @ returning_tokens api m returning"
  have "parse_assignment (assignment_tokens (fst p) (slot_tokens p) @ ts) =
      Some ((column_name (fst p), slot_expr p), ts)" if "plain ts" for p ts
    using that by (simp add: parse_assignment_def assignment_tokens_def name_tokens_def parse_slot)
  then have "parse_items parse_assignment
      (commas (map (\<lambda>p. assignment_tokens (fst p) (slot_tokens p)) ?ps) @ T_Word ''WHERE'' # ?rest) =
      Some (map (\<lambda>p. (column_name (fst p), slot_expr p)) ?ps, T_Word ''WHERE'' # ?rest)"
    by (intro parse_items_commas) (simp_all add: assms(2) assignment_tokens_def)
  moreover have "map (\<lambda>(c, ts). assignment_tokens c ts) (cell_tokens 0 cells) =
      map (\<lambda>p. assignment_tokens (fst p) (slot_tokens p)) ?ps"
    by (simp add: cell_tokens_eq)
  ultimately show ?thesis
    by (simp add: parse_statement_def parse_update_def replace_tokens_def parse_table_tokens
        parse_equality returning_rest parse_returning_tokens [OF assms(1)])
qed

lemma parse_delete_tokens:
  "parse_statement (delete_tokens m @ identity_tokens c) =
     Some (S_Delete (path_of (table m)) (equality c 1))"
  using parse_equality [of "[]" c 1]
  by (simp add: parse_statement_def parse_delete_def delete_tokens_def identity_tokens_def
      parse_table_tokens)

section \<open>Statements read back, from their preparation\<close>

lemma send_Ok:
  "send prepared call operation handle s = (Ok v, s') \<longleftrightarrow>
     (\<exists>stmt args reply. prepared = Ok (stmt, args) \<and> call stmt args s = (Ok reply, s') \<and>
        handle reply = Ok v)"
proof (cases prepared)
  case (Ok p)
  obtain stmt args where p: "p = (stmt, args)" by fastforce
  show ?thesis
    by (cases "call stmt args s"; cases "fst (call stmt args s)") (auto simp: Ok p)
qed simp

lemma issue_Ok:
  "issue ev run w = (Ok r, w') \<Longrightarrow> run (db w) = (Ok r, db w')"
  by (auto simp: issue_def split: prod.splits)

lemma selectable_not_Nil:
  assumes "repository_new api src cdc = Ok r" and "mapping_ok (mapping cdc)"
  shows "matching_columns api (mapping cdc) selectable \<noteq> []"
proof -
  from assms(1) have "mapping_validate api (mapping cdc) = Ok ()"
    using repository_new_fields by blast
  then obtain c where "columns (field_map (mapping cdc)) (id_field (mapping cdc)) = Some c"
    "selectable (permissions c)" by (auto simp: mapping_validate_eq_Ok)
  with mapping_okD(3) [OF assms(2)]
  have "id_field (mapping cdc) \<in> set (fields_matching api (mapping cdc) selectable)"
    by (auto simp: set_fields_matching)
  then show ?thesis by (auto simp: matching_columns_def)
qed

lemma read_statementI: "reads stmt ts \<Longrightarrow> parse_statement ts = Some s \<Longrightarrow> read_statement stmt = Some s"
  by (simp add: read_statement_def reads_lex)

text \<open>The tail of a find does not begin with a dot.\<close>

lemma tail_tokens_no_dot: "\<not> starts_with T_Dot (tail_tokens p)"
  by (auto simp: tail_tokens_def where_tokens_def order_clause_tokens_def number_tokens_def
      split: option.split)

lemma prepared_find:
  assumes "repository_new api src cdc = Ok r" and "mapping_ok (mapping cdc)"
    and "prepare_find api enc r params = Ok (stmt, args)"
    and "\<And>c. condition_of params = Some c \<Longrightarrow> groups_inhabited c"
  shows "\<exists>p. plan_find api (field_map (mapping cdc)) params = Ok p \<and>
     args = map argument_of (bindings (render_find p)) \<and>
     read_statement stmt = Some (S_Select (map column_name (matching_columns api (mapping cdc) selectable))
       (path_of (table (mapping cdc))) (tail_of p))"
proof -
  let ?m = "mapping cdc"
  note r = repository_new_fields [OF assms(1)]
  from assms(3) r obtain q start where q: "compile_find api (field_map ?m) params = Ok q"
    and parts: "into_sqlx_parts enc q = Ok (sql q, args)"
    and start: "select_prefix api r = Ok start" and stmt: "stmt = append_fragment start (sql q)"
    by (auto simp: prepare_find_def and_then_eq_Ok into_sqlx_parts_def)
  from q obtain p where p: "plan_find api (field_map ?m) params = Ok p" and qp: "q = render_find p"
    by (auto simp: compile_find_eq and_then_eq_Ok map_ok_eq_Ok)
  note ok = mapping_okD(2) [OF assms(2)]
  have "reads start (select_tokens api ?m)" using reads_select [OF _ start] r assms(2) by simp
  from reads_fragment [OF this reads_render_find [OF plan_find_ok [OF ok p]]]
  have "reads stmt (select_tokens api ?m @ tail_tokens p)" using stmt qp by simp
  moreover have "parse_tail (tail_tokens p) = Some (tail_of p)"
    using parse_tail_tokens [of p] plan_find_tree [OF ok p] plan_find_inhabited [OF p assms(4)] by blast
  ultimately have "read_statement stmt = Some (S_Select (map column_name (matching_columns api ?m selectable))
      (path_of (table ?m)) (tail_of p))"
    using read_statementI parse_select_tokens [OF selectable_not_Nil [OF assms(1,2)] _ tail_tokens_no_dot]
    by blast
  moreover have "args = map argument_of (bindings q)"
    using parts by (auto simp: into_sqlx_parts_def and_then_eq_Ok into_arguments_eq_Ok)
  ultimately show ?thesis using p qp by blast
qed

text \<open>A count is a find that only filters, and is planned like one.\<close>

definition only_filter :: "find_params \<Rightarrow> find_params" where
  "only_filter params = params\<lparr>sort_keys := [], limit := None, offset := 0\<rparr>"

lemma plan_find_only_filter:
  "plan_find api m (only_filter params) =
     map_ok (\<lambda>w. \<lparr>p_where = w, p_order = [], p_limit = None, p_offset = None\<rparr>)
       (plan_where api m (condition_of params))"
  by (cases "plan_where api m (condition_of params)")
    (simp_all add: plan_find_def only_filter_def plan_order_def plan_number_def)

lemma render_only_filter:
  "render_find \<lparr>p_where = w, p_order = [], p_limit = None, p_offset = None\<rparr> =
     finish (add_where w output_default)"
  by (simp add: render_find_def add_order_def add_number_def)

lemma prepared_count:
  assumes "repository_new api src cdc = Ok r" and "mapping_ok (mapping cdc)"
    and "prepare_count api enc r params = Ok (stmt, args)"
    and "\<And>c. condition_of params = Some c \<Longrightarrow> groups_inhabited c"
  shows "\<exists>p. plan_find api (field_map (mapping cdc)) (only_filter params) = Ok p \<and>
     args = map argument_of (bindings (render_find p)) \<and>
     read_statement stmt = Some (S_Count (path_of (table (mapping cdc))) (tail_of p)) \<and>
     order_of (tail_of p) = [] \<and> limit_of (tail_of p) = None \<and> offset_of (tail_of p) = None"
proof -
  let ?m = "mapping cdc"
  note r = repository_new_fields [OF assms(1)]
  from assms(3) r obtain q where q: "compile_count api (field_map ?m) params = Ok q"
    and parts: "into_sqlx_parts enc q = Ok (sql q, args)"
    and stmt: "stmt = append_fragment (''SELECT COUNT(*) AS count FROM '' @ table_quoted (table ?m)) (sql q)"
    by (auto simp: prepare_count_def and_then_eq_Ok into_sqlx_parts_def)
  from q obtain w where w: "plan_where api (field_map ?m) (condition_of params) = Ok w"
    and qw: "q = finish (add_where w output_default)"
    by (auto simp: compile_count_eq and_then_eq_Ok map_ok_eq_Ok)
  define p where "p = \<lparr>p_where = w, p_order = [], p_limit = None, p_offset = None\<rparr>"
  from w have p: "plan_find api (field_map ?m) (only_filter params) = Ok p"
    by (simp add: plan_find_only_filter p_def)
  have qp: "q = render_find p" by (simp add: qw p_def render_only_filter)
  note ok = mapping_okD(2) [OF assms(2)]
  have inhabited: "groups_inhabited c" if "condition_of (only_filter params) = Some c" for c
    using that assms(4) by (simp add: only_filter_def)
  from reads_fragment [OF reads_count_start [OF assms(2)] reads_render_find [OF plan_find_ok [OF ok p]]]
  have "reads stmt (count_tokens ?m @ tail_tokens p)" using stmt qp by simp
  moreover have "parse_tail (tail_tokens p) = Some (tail_of p)"
    using parse_tail_tokens [of p] plan_find_tree [OF ok p] plan_find_inhabited [OF p inhabited] by blast
  ultimately have "read_statement stmt = Some (S_Count (path_of (table ?m)) (tail_of p))"
    using read_statementI parse_count_statement [OF _ tail_tokens_no_dot] by blast
  moreover have "args = map argument_of (bindings q)"
    using parts by (auto simp: into_sqlx_parts_def and_then_eq_Ok into_arguments_eq_Ok)
  moreover have "order_of (tail_of p) = [] \<and> limit_of (tail_of p) = None \<and> offset_of (tail_of p) = None"
    by (simp add: tail_of_def p_def)
  ultimately show ?thesis using p qp by blast
qed

text \<open>The clause that selects by identity.\<close>

definition identity_tail :: "pg_column \<Rightarrow> query_tail" where
  "identity_tail c =
     \<lparr>where_of = Some (equality c 1), order_of = [], limit_of = None, offset_of = None\<rparr>"

lemma parse_identity_tail: "parse_tail (identity_tokens c) = Some (identity_tail c)"
  using parse_equality [of "[]" c 1]
  by (simp add: parse_tail_def parse_where_def parse_order_def parse_count_def identity_tokens_def
      identity_tail_def)

lemma compiled_id_Ok:
  "compiled_id api enc r i = Ok (cond, args) \<longleftrightarrow>
     (\<exists>c b. plan_identity api r i = Ok (c, b) \<and> cond = assignment c (place 1 (scalar_kind c)) \<and>
        args = [argument_of b] \<and> enc (argument_of b) = None)"
  by (auto simp: compiled_id_eq and_then_eq_Ok map_ok_eq_Ok compiled_arguments_eq_Ok)

lemma plan_identity_column:
  "plan_identity api r i = Ok (c, b) \<Longrightarrow>
     columns (field_map (mapping (codec r))) (id_field (mapping (codec r))) = Some c"
  by (auto simp: plan_identity_def Let_def and_then_eq_Ok map_ok_eq_Ok resolve_eq_Ok split: if_splits)

lemma plan_identity_ident_ok:
  assumes "mapping_ok (mapping (codec r))" and "plan_identity api r i = Ok (c, b)"
  shows "ident_ok (column_ident c)"
  using field_map_okD [OF mapping_okD(2) [OF assms(1)]] plan_identity_column [OF assms(2)] by blast

lemma prepared_get:
  assumes "repository_new api src cdc = Ok r" and "mapping_ok (mapping cdc)"
    and "prepare_get api enc r i = Ok (stmt, args)"
  shows "\<exists>c b. plan_identity api r i = Ok (c, b) \<and> args = map argument_of [b] \<and>
     read_statement stmt = Some (S_Select (map column_name (matching_columns api (mapping cdc) selectable))
       (path_of (table (mapping cdc))) (identity_tail c))"
proof -
  note r = repository_new_fields [OF assms(1)]
  from assms(3) obtain c b start where id: "plan_identity api r i = Ok (c, b)"
    and args: "args = [argument_of b]" and start: "select_prefix api r = Ok start"
    and stmt: "stmt = start @ '' WHERE '' @ assignment c (place 1 (scalar_kind c))"
    by (auto simp: prepare_get_def and_then_eq_Ok compiled_id_Ok)
  have m: "mapping (codec r) = mapping cdc" using r by simp
  have "reads start (select_tokens api (mapping cdc))"
    using reads_select [OF _ start] m assms(2) by simp
  from reads_identity [OF this plan_identity_ident_ok [OF _ id]] m assms(2) stmt
  have "reads stmt (select_tokens api (mapping cdc) @ identity_tokens c)" by simp
  moreover have "\<not> starts_with T_Dot (identity_tokens c)" by (simp add: identity_tokens_def)
  ultimately show ?thesis
    using id args parse_select_tokens [OF selectable_not_Nil [OF assms(1,2)] parse_identity_tail]
    by (auto intro: read_statementI)
qed

lemma prepared_remove:
  assumes "repository_new api src cdc = Ok r" and "mapping_ok (mapping cdc)"
    and "prepare_remove api enc r i = Ok (stmt, args)"
  shows "\<exists>c b. plan_identity api r i = Ok (c, b) \<and> args = map argument_of [b] \<and>
     read_statement stmt = Some (S_Delete (path_of (table (mapping cdc))) (equality c 1))"
proof -
  note r = repository_new_fields [OF assms(1)]
  have m: "mapping (codec r) = mapping cdc" using r by simp
  from assms(3) m obtain c b where id: "plan_identity api r i = Ok (c, b)"
    and args: "args = [argument_of b]"
    and stmt: "stmt = (''DELETE FROM '' @ table_quoted (table (mapping cdc))) @ '' WHERE '' @
      assignment c (place 1 (scalar_kind c))"
    by (auto simp: prepare_remove_def and_then_eq_Ok compiled_id_Ok)
  have "reads (''DELETE FROM '' @ table_quoted (table (mapping cdc))) (delete_tokens (mapping cdc))"
    unfolding delete_tokens_def
    by (rule reads_any_append [OF reads_statement_words(4) reads_table [OF mapping_okD(1) [OF assms(2)]]])
  from reads_identity [OF this plan_identity_ident_ok [OF _ id]] m assms(2) stmt
  have "reads stmt (delete_tokens (mapping cdc) @ identity_tokens c)" by simp
  with id args parse_delete_tokens [of "mapping cdc" c] show ?thesis by (auto intro: read_statementI)
qed

text \<open>The write statements.\<close>

lemma planned_cells_ident_ok:
  assumes "mapping_ok (mapping (codec r))" and "try_map (plan_cell api r e) fs = Ok cells"
    and "p \<in> set cells"
  shows "ident_ok (column_ident (fst p))"
  using try_map_member [OF assms(2,3)]
  by (auto dest!: plan_cell_column intro: field_map_okD [OF mapping_okD(2) [OF assms(1)]])

lemma prepared_insert:
  assumes "repository_new api src cdc = Ok r" and "mapping_ok (mapping cdc)"
    and "compile_insert api enc r e returning = Ok (stmt, args)"
  shows "\<exists>cells. try_map (plan_cell api r e) (insertable_fields api (mapping cdc)) = Ok cells \<and>
     args = map argument_of (cell_binds cells) \<and>
     read_statement stmt = Some (S_Insert (path_of (table (mapping cdc)))
       (if cells = [] then None
        else Some (map (column_name \<circ> fst) cells, map slot_expr (number_cells 0 cells)))
       (returned api (mapping cdc) returning))"
proof -
  have m: "mapping (codec r) = mapping cdc" using repository_new_fields [OF assms(1)] by simp
  from assms(3) m obtain cells where
    cells: "try_map (plan_cell api r e) (insertable_fields api (mapping cdc)) = Ok cells" and
    stmt: "stmt = insert_text api (mapping cdc) cells returning" and
    args: "args = map argument_of (cell_binds cells)"
    by (auto simp: compile_insert_eq and_then_eq_Ok map_ok_eq_Ok compiled_arguments_eq_Ok)
  have "reads stmt (insert_tokens api (mapping cdc) cells returning)"
    unfolding stmt using m assms(2) by (intro reads_insert planned_cells_ident_ok [OF _ cells]) simp_all
  moreover have "returning \<longrightarrow> matching_columns api (mapping cdc) selectable \<noteq> []"
    using selectable_not_Nil [OF assms(1,2)] by blast
  ultimately show ?thesis
    using cells args parse_insert_tokens read_statementI by blast
qed

lemma prepared_replace:
  assumes "repository_new api src cdc = Ok r" and "mapping_ok (mapping cdc)"
    and "compile_replace api enc r e returning = Ok (stmt, args)"
  shows "\<exists>cells c b. try_map (plan_cell api r e) (replaced_fields api r) = Ok cells \<and>
     plan_identity api r (entity_id cdc e) = Ok (c, b) \<and>
     args = map argument_of (cell_binds cells @ [b]) \<and>
     read_statement stmt = Some (S_Update (path_of (table (mapping cdc)))
       (map (\<lambda>p. (column_name (fst p), slot_expr p)) (number_cells 0 cells))
       (equality c (Suc (length (cell_binds cells)))) (returned api (mapping cdc) returning))"
proof -
  have r: "codec r = cdc" using repository_new_fields [OF assms(1)] by simp
  from assms(3) obtain cells c b where some: "replaced_fields api r \<noteq> []" and
    cells: "try_map (plan_cell api r e) (replaced_fields api r) = Ok cells" and
    id: "plan_identity api r (entity_id cdc e) = Ok (c, b)" and
    stmt: "stmt = replace_text api (mapping cdc) cells c returning" and
    args: "args = map argument_of (cell_binds cells @ [b])"
    by (auto simp: compile_replace_eq and_then_eq_Ok map_ok_eq_Ok compiled_arguments_eq_Ok r
        split: if_splits)
  have "reads stmt (replace_tokens api (mapping cdc) cells c returning)"
    unfolding stmt
    using r assms(2)
    by (intro reads_replace planned_cells_ident_ok [OF _ cells] plan_identity_ident_ok [OF _ id]) simp_all
  moreover have "cells \<noteq> []" using some try_map_length [OF cells] by auto
  moreover have "returning \<longrightarrow> matching_columns api (mapping cdc) selectable \<noteq> []"
    using selectable_not_Nil [OF assms(1,2)] by blast
  ultimately show ?thesis
    using cells id args parse_replace_tokens read_statementI by blast
qed

end
