(* ===== verification/Sql_Database.thy ===== *)
theory Sql_Database
  imports Compiler_Meaning Source
begin

text \<open>
  A database behind a driver, as far as statements of the reference grammar go: the outcome of a
  statement by its SQL meaning, what is relied on in a driver (\<open>serves\<close>), and a reference server
  that has it.
\<close>

section \<open>A database that executes statements\<close>

text \<open>
  The outcome of a statement by its SQL meaning: the rows it returns, the number of rows it read or
  changed, and the new contents.  \<open>dflt\<close> are the columns' default values, \<open>present\<close> is how the
  driver hands out a row with the named columns, \<open>tally\<close> how it hands out a count.
\<close>

type_synonym 'v database = "table_path \<Rightarrow> 'v table_row list"

definition give_back :: "(string list \<Rightarrow> 'v table_row \<Rightarrow> 'row) \<Rightarrow> string list option \<Rightarrow> 'v table_row list \<Rightarrow> 'row list"
where
  "give_back present cols rows = (case cols of None \<Rightarrow> [] | Some cs \<Rightarrow> map (present cs) rows)"

record ('v, 'row) sql_engine =
  reading :: "'v server"
  defaults :: "table_path \<Rightarrow> string \<Rightarrow> 'v option"
  present :: "string list \<Rightarrow> 'v table_row \<Rightarrow> 'row"
  tally :: "nat \<Rightarrow> 'row"

fun outcome ::
  "('v, 'row) sql_engine \<Rightarrow> pg_arguments \<Rightarrow> sql_statement \<Rightarrow> 'v database
     \<Rightarrow> 'row list \<Rightarrow> nat \<Rightarrow> 'v database \<Rightarrow> bool" where
  "outcome E args (S_Select cols t tail) d out n d' \<longleftrightarrow>
     d' = d \<and> (\<exists>rows. sql_answers (reading E) args tail (d t) rows \<and>
                 out = map (present E cols) rows \<and> n = length rows)"
| "outcome E args (S_Count t tail) d out n d' \<longleftrightarrow>
     d' = d \<and> (order_of tail = [] \<longrightarrow> limit_of tail = None \<longrightarrow> offset_of tail = None \<longrightarrow>
                 (\<exists>rows. sql_answers (reading E) args tail (d t) rows \<and> out = [tally E (length rows)]))"
| "outcome E args (S_Insert t cells ret) d out n d' \<longleftrightarrow>
     (let row = inserted_row (sql_interpretation (reading E) args (\<lambda>_. None)) (defaults E t) cells in
      d' = d(t := d t @ [row]) \<and> out = give_back (present E) ret [row] \<and> n = 1)"
| "outcome E args (S_Update t xs e ret) d out n d' \<longleftrightarrow>
     (let hit = (\<lambda>row. selected (sql_interpretation (reading E) args row) e);
          new = (\<lambda>row. assign_cells (sql_interpretation (reading E) args row) (defaults E t) xs row) in
      d' = d(t := map (\<lambda>row. if hit row then new row else row) (d t)) \<and>
      out = give_back (present E) ret (map new (filter hit (d t))) \<and> n = length (filter hit (d t)))"
| "outcome E args (S_Delete t e) d out n d' \<longleftrightarrow>
     (let hit = (\<lambda>row. selected (sql_interpretation (reading E) args row) e) in
      d' = d(t := filter (\<lambda>row. \<not> hit row) (d t)) \<and> out = [] \<and> n = length (filter hit (d t)))"

text \<open>
  What is relied on in the driver and the server behind it: a successful reply to a statement of the
  grammar is the outcome of that statement.  Failures, and other statements, are not restricted.
\<close>

definition serves ::
  "('v, 'row) sql_engine \<Rightarrow> ('w \<Rightarrow> 'v database) \<Rightarrow> ('w, 'row) executor \<Rightarrow> bool" where
  "serves E contents exec \<longleftrightarrow>
     (\<forall>stmt s args w. read_statement stmt = Some s \<longrightarrow>
        (\<forall>rows w'. run_fetch_all exec stmt args w = (Ok rows, w') \<longrightarrow>
           (\<exists>n. outcome E args s (contents w) rows n (contents w'))) \<and>
        (\<forall>row w'. run_fetch_optional exec stmt args w = (Ok row, w') \<longrightarrow>
           (\<exists>rows n. outcome E args s (contents w) rows n (contents w') \<and>
              row = (case rows of [] \<Rightarrow> None | x # xs \<Rightarrow> Some x))) \<and>
        (\<forall>row w'. run_fetch_one exec stmt args w = (Ok row, w') \<longrightarrow>
           (\<exists>rows n. outcome E args s (contents w) (row # rows) n (contents w'))) \<and>
        (\<forall>reply w'. run_execute exec stmt args w = (Ok reply, w') \<longrightarrow>
           (\<exists>rows n. outcome E args s (contents w) rows n (contents w') \<and>
              rows_affected reply = word_of_nat n)))"

section \<open>A reference server\<close>

text \<open>
  What is relied on can be had: a server that reads a statement with the reference grammar and
  carries out its outcome.  It refuses what it cannot read, and sorting, which it leaves out.
\<close>

definition window :: "pg_arguments \<Rightarrow> query_tail \<Rightarrow> 'r list \<Rightarrow> 'r list" where
  "window args tail rows =
     (let rest = drop (case offset_of tail of None \<Rightarrow> 0 | Some n \<Rightarrow> sql_count args n) rows in
      case limit_of tail of None \<Rightarrow> rest | Some n \<Rightarrow> take (sql_count args n) rest)"

definition filtered :: "'v server \<Rightarrow> pg_arguments \<Rightarrow> query_tail \<Rightarrow> 'v table_row list \<Rightarrow> 'v table_row list" where
  "filtered W args tail =
     filter (\<lambda>row. case where_of tail of None \<Rightarrow> True
                    | Some e \<Rightarrow> selected (sql_interpretation W args row) e)"

fun run_statement ::
  "('v, 'row) sql_engine \<Rightarrow> pg_arguments \<Rightarrow> sql_statement \<Rightarrow> 'v database
     \<Rightarrow> ('row list \<times> nat \<times> 'v database) option" where
  "run_statement E args (S_Select cols t tail) d =
     (if order_of tail = [] then
        (let rows = window args tail (filtered (reading E) args tail (d t))
         in Some (map (present E cols) rows, length rows, d))
      else None)"
| "run_statement E args (S_Count t tail) d =
     (if order_of tail = [] \<and> limit_of tail = None \<and> offset_of tail = None then
        Some ([tally E (length (filtered (reading E) args tail (d t)))], 1, d)
      else None)"
| "run_statement E args (S_Insert t cells ret) d =
     (let row = inserted_row (sql_interpretation (reading E) args (\<lambda>_. None)) (defaults E t) cells in
      Some (give_back (present E) ret [row], 1, d(t := d t @ [row])))"
| "run_statement E args (S_Update t xs e ret) d =
     (let hit = (\<lambda>row. selected (sql_interpretation (reading E) args row) e);
          new = (\<lambda>row. assign_cells (sql_interpretation (reading E) args row) (defaults E t) xs row) in
      Some (give_back (present E) ret (map new (filter hit (d t))), length (filter hit (d t)),
            d(t := map (\<lambda>row. if hit row then new row else row) (d t))))"
| "run_statement E args (S_Delete t e) d =
     (let hit = (\<lambda>row. selected (sql_interpretation (reading E) args row) e) in
      Some ([], length (filter hit (d t)), d(t := filter (\<lambda>row. \<not> hit row) (d t))))"

definition run_text ::
  "('v, 'row) sql_engine \<Rightarrow> string \<Rightarrow> pg_arguments \<Rightarrow> 'v database
     \<Rightarrow> ('row list \<times> nat \<times> 'v database) option" where
  "run_text E stmt args d = Option.bind (read_statement stmt) (\<lambda>s. run_statement E args s d)"

definition refuse :: "'d \<Rightarrow> ('a, sqlx_error) result \<times> 'd" where
  "refuse d = (Err (Sqlx_Other ''refused''), d)"

definition reference_executor :: "('v, 'row) sql_engine \<Rightarrow> ('v database, 'row) executor" where
  "reference_executor E =
     \<lparr>run_fetch_all = (\<lambda>stmt args d.
        case run_text E stmt args d of Some (rows, n, d') \<Rightarrow> (Ok rows, d') | None \<Rightarrow> refuse d),
      run_fetch_optional = (\<lambda>stmt args d.
        case run_text E stmt args d of
          Some (rows, n, d') \<Rightarrow> (Ok (case rows of [] \<Rightarrow> None | x # xs \<Rightarrow> Some x), d')
        | None \<Rightarrow> refuse d),
      run_fetch_one = (\<lambda>stmt args d.
        case run_text E stmt args d of
          Some (x # xs, n, d') \<Rightarrow> (Ok x, d')
        | Some ([], n, d') \<Rightarrow> (Err Sqlx_Row_Not_Found, d')
        | None \<Rightarrow> refuse d),
      run_execute = (\<lambda>stmt args d.
        case run_text E stmt args d of
          Some (rows, n, d') \<Rightarrow> (Ok \<lparr>rows_affected = word_of_nat n\<rparr>, d')
        | None \<Rightarrow> refuse d)\<rparr>"

lemma sql_answers_unsorted:
  "order_of tail = [] \<Longrightarrow> sql_answers W args tail rows (window args tail (filtered W args tail rows))"
  by (auto simp: sql_answers_def answers_def window_def filtered_def Let_def sorted_wrt_iff_nth_less
      intro!: exI [of _ "filtered W args tail rows"] split: option.split)

lemma sql_answers_whole:
  "order_of tail = [] \<Longrightarrow> limit_of tail = None \<Longrightarrow> offset_of tail = None \<Longrightarrow>
     sql_answers W args tail rows (filtered W args tail rows)"
  using sql_answers_unsorted [of tail W args rows] by (simp add: window_def)

lemma run_statement_outcome:
  assumes "run_statement E args s d = Some (rows, n, d')"
  shows "outcome E args s d rows n d'"
proof (cases s)
  case (S_Select cols t tail)
  with assms have "order_of tail = []" by (simp split: if_splits)
  from sql_answers_unsorted [OF this, of "reading E" args "d t"] S_Select assms show ?thesis
    by (auto simp: Let_def split: if_splits)
next
  case (S_Count t tail)
  with assms have "order_of tail = []" "limit_of tail = None" "offset_of tail = None"
    by (simp_all split: if_splits)
  from sql_answers_whole [OF this, of "reading E" args "d t"] S_Count assms show ?thesis
    by (auto split: if_splits)
qed (use assms in \<open>auto simp: Let_def\<close>)

lemma run_text_outcome:
  "read_statement stmt = Some s \<Longrightarrow> run_text E stmt args d = Some (rows, n, d') \<Longrightarrow>
     outcome E args s d rows n d'"
  by (simp add: run_text_def run_statement_outcome)

lemma serves_reference: "serves E (\<lambda>d. d) (reference_executor E)"
  unfolding serves_def
proof (intro allI impI conjI)
  fix stmt s args d d'
  assume s: "read_statement stmt = Some s"
  note out = run_text_outcome [OF s]
  show "\<exists>n. outcome E args s d rows n d'"
    if ok: "run_fetch_all (reference_executor E) stmt args d = (Ok rows, d')" for rows
  proof -
    from ok obtain n where "run_text E stmt args d = Some (rows, n, d')"
      by (auto simp: reference_executor_def refuse_def split: option.splits)
    then show ?thesis using out by blast
  qed
  show "\<exists>rows n. outcome E args s d rows n d' \<and> row = (case rows of [] \<Rightarrow> None | x # xs \<Rightarrow> Some x)"
    if ok: "run_fetch_optional (reference_executor E) stmt args d = (Ok row, d')" for row
  proof -
    from ok obtain rows n where "run_text E stmt args d = Some (rows, n, d')"
      "row = (case rows of [] \<Rightarrow> None | x # xs \<Rightarrow> Some x)"
      by (auto simp: reference_executor_def refuse_def split: option.splits)
    then show ?thesis using out by blast
  qed
  show "\<exists>rows n. outcome E args s d (row # rows) n d'"
    if ok: "run_fetch_one (reference_executor E) stmt args d = (Ok row, d')" for row
  proof -
    from ok obtain rows n where "run_text E stmt args d = Some (row # rows, n, d')"
      by (auto simp: reference_executor_def refuse_def split: option.splits prod.splits list.splits)
    then show ?thesis using out by blast
  qed
  show "\<exists>rows n. outcome E args s d rows n d' \<and> rows_affected reply = word_of_nat n"
    if ok: "run_execute (reference_executor E) stmt args d = (Ok reply, d')" for reply
  proof -
    from ok obtain rows n where "run_text E stmt args d = Some (rows, n, d')"
      "rows_affected reply = word_of_nat n"
      by (auto simp: reference_executor_def refuse_def split: option.splits)
    then show ?thesis using out by blast
  qed
qed

end
