(* ===== verification/Table_Source.thy ===== *)
theory Table_Source
  imports Sql_Database Router Transaction
begin

text \<open>
  Sources that execute statements by their SQL meaning, whatever stands between the repository and
  the server: a pool, the primary/replica router over such sources, a transaction.  The contract is
  stated for a source with a view of the data its state stands for.
\<close>

section \<open>The contract\<close>

locale table_source =
  fixes E :: "('v, 'row) sql_engine"
    and view :: "'s \<Rightarrow> 'v database"
    and src :: "('s, 'row) pg_source"
  assumes fetch_all_outcome: "read_statement stmt = Some p \<Longrightarrow> fetch_all src stmt args s = (Ok rows, s') \<Longrightarrow>
      \<exists>n. outcome E args p (view s) rows n (view s')"
    and fetch_optional_outcome:
      "read_statement stmt = Some p \<Longrightarrow> fetch_optional src stmt args s = (Ok found, s') \<Longrightarrow>
      \<exists>rows n. outcome E args p (view s) rows n (view s') \<and>
        found = (case rows of [] \<Rightarrow> None | x # xs \<Rightarrow> Some x)"
    and fetch_one_outcome: "read_statement stmt = Some p \<Longrightarrow> fetch_one src stmt args s = (Ok row, s') \<Longrightarrow>
      \<exists>rows n. outcome E args p (view s) (row # rows) n (view s')"
    and apply_outcome: "read_statement stmt = Some p \<Longrightarrow> apply_sql src stmt args s = (Ok reply, s') \<Longrightarrow>
      \<exists>rows n. outcome E args p (view s) rows n (view s') \<and> rows_affected reply = word_of_nat n"
    and apply_one_outcome: "read_statement stmt = Some p \<Longrightarrow> apply_one src stmt args s = (Ok row, s') \<Longrightarrow>
      \<exists>rows n. outcome E args p (view s) (row # rows) n (view s')"
begin

lemmas outcomes = fetch_all_outcome fetch_optional_outcome fetch_one_outcome apply_outcome apply_one_outcome

end

section \<open>A pool\<close>

lemma issue_Ok_db: "issue ev run w = (r, w') \<Longrightarrow> run (db w) = (r, db w')"
  by (auto simp: issue_def split: prod.splits)

lemma pool_serves:
  assumes "serves E contents exec"
  shows "table_source E (\<lambda>w. contents (db w)) (pool_source k exec)"
  using assms unfolding serves_def
  by unfold_locales (fastforce simp: pool_source_def dest!: issue_Ok_db)+

interpretation reference_pool: table_source E db "pool_source k (reference_executor E)" for E k
  by (rule pool_serves [OF serves_reference])

section \<open>The router\<close>

text \<open>The replicas are up to date: every member shows the same data.\<close>

locale routed_tables =
  fixes E :: "('v, 'row) sql_engine"
    and view :: "'s \<Rightarrow> 'v database"
    and router :: "('s, 'row) pg_router"
  assumes primary_table: "table_source E view (primary router)"
    and replica_table: "src \<in> set (replicas router) \<Longrightarrow> table_source E view src"
begin

lemma chosen_table: "table_source E view (fst (read_source router c))"
  using read_source_member [of router c] primary_table replica_table by auto

lemma through_readE:
  assumes "through_read router op st = (r, st')"
  obtains src where "table_source E view src" and "op src (inner st) = (r, inner st')"
  using assms that [OF chosen_table [of "next_replica st"]]
  by (auto simp: through_read_def split: prod.splits)

lemma through_primaryE:
  assumes "through_primary router op st = (r, st')"
  obtains "op (primary router) (inner st) = (r, inner st')"
  using assms that by (auto simp: through_primary_def split: prod.splits)

end

lemma router_source_selectors:
  "fetch_all (router_source router) q a = through_read router (\<lambda>src. fetch_all src q a)"
  "fetch_optional (router_source router) q a = through_read router (\<lambda>src. fetch_optional src q a)"
  "fetch_one (router_source router) q a = through_read router (\<lambda>src. fetch_one src q a)"
  "apply_sql (router_source router) q a = through_primary router (\<lambda>src. apply_sql src q a)"
  "apply_one (router_source router) q a = through_primary router (\<lambda>src. apply_one src q a)"
  by (simp_all add: router_source_def)

sublocale routed_tables \<subseteq> routed: table_source E "\<lambda>st. view (inner st)" "router_source router"
  by unfold_locales
    (unfold router_source_selectors,
      (elim through_readE through_primaryE,
        rule table_source.outcomes table_source.outcomes [OF primary_table], assumption+)+)

interpretation reference_router:
  routed_tables E db "pool_router (reference_executor E) (replicate n (reference_executor E))" for E n
  by (rule routed_tables.intro)
    (auto simp: pool_router_def set_zip enumerate_eq_zip reference_pool.table_source_axioms)

context routed_tables
begin

lemmas routed_table_source = routed.table_source_axioms

end

section \<open>A transaction\<close>

text \<open>What the state of a transaction source shows: an active transaction's own view of the data.\<close>

definition tx_view ::
  "('t \<Rightarrow> 'w \<Rightarrow> 'v database) \<Rightarrow> ('w \<Rightarrow> 'v database) \<Rightarrow> ('t, 'w) tx_source \<Rightarrow> 'v database" where
  "tx_view inside outside st =
     (case tx_state st of
        Active t \<Rightarrow> inside t (db (tx_world st)) | Completed \<Rightarrow> outside (db (tx_world st)))"

lemma in_transactionE:
  assumes "in_transaction ev run st = (Ok v, st')"
  obtains t where "tx_state st = Active t" and "tx_state st' = Active t"
    and "run t (db (tx_world st)) = (Ok v, db (tx_world st'))"
  using assms by (auto simp: in_transaction_def active_def dest!: issue_Ok_db
      split: transaction_state.splits prod.splits)

lemma transaction_serves:
  assumes "\<And>t. serves E (inside t) (tx_executor drv t)"
  shows "table_source E (tx_view inside outside) (transaction_source conn drv)"
  using assms unfolding serves_def
  by unfold_locales (fastforce simp: transaction_source_def tx_view_def elim!: in_transactionE)+

section \<open>Every source of the crate keeps it\<close>

text \<open>
  C22: every source executes statements by their meaning when the server does.  If the servers behind
  the pools carry out the statements they accept, on the same data, and a driver's transactions do
  so on their own view, then a pool, the router over a primary and up-to-date replicas, and a
  transaction source answer each operation with the outcome of its statement.
\<close>

theorem sources_execute_by_meaning:
  assumes "serves E contents main" and "\<And>ex. ex \<in> set others \<Longrightarrow> serves E contents ex"
    and "\<And>t. serves E (inside t) (tx_executor drv t)"
  shows "table_source E (\<lambda>w. contents (db w)) (pool_source k main) \<and>
     table_source E (\<lambda>st. contents (db (inner st))) (router_source (pool_router main others)) \<and>
     table_source E (tx_view inside outside) (transaction_source conn drv)"
proof -
  have "routed_tables E (\<lambda>w. contents (db w)) (pool_router main others)"
  proof (rule routed_tables.intro)
    show "table_source E (\<lambda>w. contents (db w)) (primary (pool_router main others))"
      by (simp add: pool_router_def pool_serves assms(1))
    show "table_source E (\<lambda>w. contents (db w)) src" if "src \<in> set (replicas (pool_router main others))" for src
      using that by (auto simp: pool_router_def enumerate_eq_zip pool_serves assms(2) dest: set_zip_rightD)
  qed
  note router = routed_tables.routed_table_source [OF this]
  show ?thesis
    using pool_serves [OF assms(1)] router transaction_serves [OF assms(3)] by blast
qed

theorem sources_execute_by_meaning_witness:
  "\<forall>E :: (nat, nat) sql_engine. table_source E (\<lambda>st. db (inner st))
     (router_source (pool_router (reference_executor E) [reference_executor E]))"
proof
  fix E :: "(nat, nat) sql_engine"
  let ?drv = "\<lparr>tx_begin = (\<lambda>d. (Ok (), d)), tx_executor = (\<lambda>_. reference_executor E),
      tx_commit = (\<lambda>_ d. (Ok (), d)), tx_rollback = (\<lambda>_ d. (Ok (), d))\<rparr>"
  have "serves E (\<lambda>d. d) (tx_executor ?drv t)" for t :: unit by (simp add: serves_reference)
  from sources_execute_by_meaning [OF serves_reference _ this, where others = "[reference_executor E]"]
  show "table_source E (\<lambda>st. db (inner st))
     (router_source (pool_router (reference_executor E) [reference_executor E]))"
    by (simp add: serves_reference)
qed

end
