(* ===== verification/Repository_Store.thy ===== *)
theory Repository_Store
  imports Repository_Meaning Table_Source
begin

text \<open>
  On a source that executes statements by their SQL meaning, the operations of the repository
  are those of a store of rows: finding and counting by condition, reading, replacing and removing
  by identity, inserting.
\<close>

section \<open>The store of rows\<close>

text \<open>The row of an identity, and the cells written to a row.\<close>

definition has_identity :: "'v server \<Rightarrow> pg_column \<Rightarrow> pg_bind_value \<Rightarrow> 'v table_row \<Rightarrow> bool" where
  "has_identity W c b row \<longleftrightarrow>
     lift3 (relation W Op_Eq) (row (column_name c)) (given_value W (scalar_kind c) b) = Some True"

definition cell_meaning :: "'v server \<Rightarrow> (string \<Rightarrow> 'v option) \<Rightarrow> cell \<Rightarrow> 'v option" where
  "cell_meaning W dflt p =
     (case snd p of None \<Rightarrow> dflt (column_name (fst p)) | Some b \<Rightarrow> given_value W (scalar_kind (fst p)) b)"

definition store_cells ::
  "'v server \<Rightarrow> (string \<Rightarrow> 'v option) \<Rightarrow> cell list \<Rightarrow> 'v table_row \<Rightarrow> 'v table_row" where
  "store_cells W dflt cells row =
     (\<lambda>name. case map_of (map (\<lambda>p. (column_name (fst p), cell_meaning W dflt p)) cells) name of
        Some v \<Rightarrow> v | None \<Rightarrow> row name)"

lemma selected_equality:
  assumes "n < length bs" and "bs ! n = b"
  shows "selected (sql_interpretation W (map argument_of bs) row) (equality c (Suc n)) \<longleftrightarrow>
     has_identity W c b row"
proof -
  have "compare_values (sql_interpretation W (map argument_of bs) row) ''='' = relation W Op_Eq"
    by (simp add: sql_interpretation_def sql_relation_def)
  moreover have "value_of (sql_interpretation W (map argument_of bs) row) (V_Column (column_name c)) =
      row (column_name c)" by (simp add: sql_interpretation_def)
  ultimately show ?thesis
    by (simp only: selected_def equality_def truth.simps value_of_place [OF assms(1)] assms(2)
        has_identity_def)
qed

lemma cell_values:
  "placed bs n (cell_binds cells) \<Longrightarrow>
     map (\<lambda>p. cell_value (sql_interpretation W (map argument_of bs) row) dflt (column_name (fst p))
            (slot_expr p)) (number_cells n cells) =
     map (cell_meaning W dflt) cells"
proof (induction n cells rule: number_cells.induct)
  case (3 n c b cells)
  have "cell_binds ((c, Some b) # cells) = [b] @ cell_binds cells" by simp
  then have "placed bs n [b]" "placed bs (Suc n) (cell_binds cells)"
    using 3(2) placed_append [of bs n "[b]" "cell_binds cells"] by simp_all
  with 3(1) placed_nth [of bs n "[b]" 0] show ?case
    by (simp add: slot_expr_def cell_meaning_def value_of_place)
qed (simp_all add: slot_expr_def cell_meaning_def)

lemma assign_cells_eq:
  assumes "placed bs n (cell_binds cells)"
  shows "assign_cells (sql_interpretation W (map argument_of bs) row) dflt
           (map (\<lambda>p. (column_name (fst p), slot_expr p)) (number_cells n cells)) base =
     store_cells W dflt cells base"
proof
  fix name
  let ?I = "sql_interpretation W (map argument_of bs) row"
  have value_map: "(case map_of (map (\<lambda>p. (column_name (fst p), slot_expr p)) ps) name of
        Some x \<Rightarrow> cell_value ?I dflt name x | None \<Rightarrow> base name) =
      (case map_of (zip (map (column_name \<circ> fst) ps)
          (map (\<lambda>p. cell_value ?I dflt (column_name (fst p)) (slot_expr p)) ps)) name of
        Some v \<Rightarrow> v | None \<Rightarrow> base name)" for ps :: "(pg_column \<times> nat option) list"
    by (induction ps) simp_all
  have names: "map (column_name \<circ> fst) (number_cells n cells) = map (column_name \<circ> fst) cells"
    using arg_cong [OF fst_number_cells [of n cells], of "map column_name"] by simp
  show "assign_cells ?I dflt (map (\<lambda>p. (column_name (fst p), slot_expr p)) (number_cells n cells)) base name =
      store_cells W dflt cells base name"
    unfolding assign_cells_def store_cells_def value_map names cell_values [OF assms]
    by (simp add: zip_map_map zip_same_conv_map comp_def case_prod_beta)
qed

section \<open>Outcomes, in terms of the store\<close>

lemma outcome_identity_select:
  assumes "outcome E (map argument_of [b]) (S_Select cols t (identity_tail c)) d out n d'"
  shows "d' = d \<and> mset out = mset (map (present E cols) (filter (has_identity (reading E) c b) (d t)))"
proof -
  let ?keep = "\<lambda>row. selected (sql_interpretation (reading E) (map argument_of [b]) row) (equality c 1)"
  have "?keep = has_identity (reading E) c b"
    using selected_equality [of 0 "[b]" b "reading E" _ c] by (simp add: fun_eq_iff)
  with assms show ?thesis
    by (auto simp: sql_answers_def answers_def identity_tail_def)
qed

lemma outcome_identity_delete:
  "outcome E (map argument_of [b]) (S_Delete t (equality c 1)) d out n d' \<longleftrightarrow>
     d' = d(t := filter (\<lambda>row. \<not> has_identity (reading E) c b row) (d t)) \<and> out = [] \<and>
     n = length (filter (has_identity (reading E) c b) (d t))"
  using selected_equality [of 0 "[b]" b "reading E" _ c] by (simp add: Let_def)

lemma outcome_update:
  fixes E :: "('v, 'row) sql_engine" and c :: pg_column and b :: pg_bind_value
    and t :: table_path and cells :: "cell list"
  defines "hit \<equiv> has_identity (reading E) c b" and "new \<equiv> store_cells (reading E) (defaults E t) cells"
  shows "outcome E (map argument_of (cell_binds cells @ [b]))
       (S_Update t (map (\<lambda>p. (column_name (fst p), slot_expr p)) (number_cells 0 cells))
         (equality c (Suc (length (cell_binds cells)))) ret) d out n d' \<longleftrightarrow>
     d' = d(t := map (\<lambda>row. if hit row then new row else row) (d t)) \<and>
     out = give_back (present E) ret (map new (filter hit (d t))) \<and> n = length (filter hit (d t))"
proof -
  let ?bs = "cell_binds cells @ [b]"
  have "placed ?bs 0 (cell_binds cells)" by (simp add: placed_def)
  note assign = assign_cells_eq [OF this]
  have "selected (sql_interpretation (reading E) (map argument_of ?bs) row)
      (equality c (Suc (length (cell_binds cells)))) = hit row" for row
    unfolding hit_def by (rule selected_equality) simp_all
  then show ?thesis
    unfolding outcome.simps Let_def assign new_def [symmetric] by simp
qed

lemma outcome_insert:
  "outcome E (map argument_of (cell_binds cells)) (S_Insert t
       (if cells = [] then None
        else Some (map (column_name \<circ> fst) cells, map slot_expr (number_cells 0 cells))) ret) d out n d' \<longleftrightarrow>
     (let row = store_cells (reading E) (defaults E t) cells (defaults E t) in
      d' = d(t := d t @ [row]) \<and> out = give_back (present E) ret [row] \<and> n = 1)"
proof -
  let ?cells = "if cells = [] then None
    else Some (map (column_name \<circ> fst) cells, map slot_expr (number_cells 0 cells))"
  have names: "map (column_name \<circ> fst) cells = map (column_name \<circ> fst) (number_cells 0 cells)"
    using arg_cong [OF fst_number_cells [of 0 cells], of "map column_name"] by simp
  have pairs: "(case ?cells of None \<Rightarrow> [] | Some (cs, xs) \<Rightarrow> zip cs xs) =
      map (\<lambda>p. (column_name (fst p), slot_expr p)) (number_cells 0 cells)"
    unfolding names by (auto simp: zip_map_map zip_same_conv_map)
  have "placed (cell_binds cells) 0 (cell_binds cells)" by (simp add: placed_def)
  note assign = assign_cells_eq [OF this]
  show ?thesis unfolding outcome.simps inserted_row_def pairs assign ..
qed

section \<open>The repository is a store of rows\<close>

definition kept ::
  "'v server \<Rightarrow> soaprs_api \<Rightarrow> pg_field_map \<Rightarrow> find_params \<Rightarrow> 'v table_row \<Rightarrow> bool" where
  "kept W api m params row =
     (case condition_of params of None \<Rightarrow> True | Some c \<Rightarrow> means W api m row c = Some True)"

definition selected_names :: "soaprs_api \<Rightarrow> pg_entity_mapping \<Rightarrow> string list" where
  "selected_names api m = map column_name (matching_columns api m selectable)"

abbreviation table_rows ::
  "('s \<Rightarrow> 'v database) \<Rightarrow> ('e, 'id, 'row) pg_entity_codec \<Rightarrow> 's \<Rightarrow> 'v table_row list" where
  "table_rows view cdc w \<equiv> view w (path_of (table (mapping cdc)))"

lemma length_only_filter:
  assumes "find_answers W api m (only_filter params) rows out"
  shows "length out = length (filter (kept W api m params) rows)"
proof -
  from assms have "mset out = mset (filter (kept W api m params) rows)"
    by (auto simp: find_answers_def answers_def only_filter_def kept_def [abs_def])
  then show ?thesis by (rule mset_eq_length)
qed

lemma count_of_tally:
  assumes "get_count row = Ok (word_of_nat n)" and "n < 2 ^ 63" and "count_of_row get_count row = Ok k"
  shows "unat k = n"
proof -
  have "unat (word_of_nat n :: 64 word) = n"
    using assms(2) by (intro unat_word_of_nat_64) simp
  with assms show ?thesis
    by (auto simp: count_of_row_def u64_try_from_i64_def split: if_splits)
qed

lemma find_from_table:
  assumes "repository_new api src cdc = Ok r" and "mapping_ok (mapping cdc)"
    and "table_source E view src"
    and "\<And>c. condition_of params = Some c \<Longrightarrow> groups_inhabited c"
    and "repository_find api enc r params w = (Ok es, w')"
  shows "view w' = view w \<and>
     (\<exists>rows. find_answers (reading E) api (field_map (mapping cdc)) params (table_rows view cdc w) rows \<and>
        list_all2 (\<lambda>row e. decode cdc (present E (selected_names api (mapping cdc)) row) = Ok e) rows es)"
proof -
  note r = repository_new_fields [OF assms(1)]
  note tree = plan_find_tree [OF mapping_okD(2) [OF assms(2)]]
  from assms(5) obtain stmt args rows where p: "prepare_find api enc r params = Ok (stmt, args)"
    and f: "fetch_all src stmt args w = (Ok rows, w')"
    and d: "try_map (decode cdc) rows = Ok es"
    using r by (auto simp: repository_find_def send_Ok)
  from prepared_find [OF assms(1,2) p assms(4)] obtain q where
    q: "plan_find api (field_map (mapping cdc)) params = Ok q"
      "args = map argument_of (bindings (render_find q))" and
    s: "read_statement stmt = Some (S_Select (selected_names api (mapping cdc))
       (path_of (table (mapping cdc))) (tail_of q))"
    by (auto simp: selected_names_def)
  note sql = answers_plan [OF q(1) tree [OF q(1)] assms(4), where W = "reading E", folded q(2)]
  from table_source.fetch_all_outcome [OF assms(3) s f] d show ?thesis
    by (auto simp: try_map_Ok_iff list_all2_map1 sql)
qed

lemma count_from_table:
  assumes "repository_new api src cdc = Ok r" and "mapping_ok (mapping cdc)"
    and "table_source E view src"
    and "\<And>c. condition_of params = Some c \<Longrightarrow> groups_inhabited c"
    and "\<And>k. get_count (tally E k) = Ok (word_of_nat k)" and "length (table_rows view cdc w) < 2 ^ 63"
    and "repository_count api enc get_count r params w = (Ok k, w')"
  shows "view w' = view w \<and>
     unat k = length (filter (kept (reading E) api (field_map (mapping cdc)) params) (table_rows view cdc w))"
proof -
  note r = repository_new_fields [OF assms(1)]
  note tree = plan_find_tree [OF mapping_okD(2) [OF assms(2)]]
  from assms(7) obtain stmt args row where p: "prepare_count api enc r params = Ok (stmt, args)"
    and f: "fetch_one src stmt args w = (Ok row, w')"
    and d: "count_of_row get_count row = Ok k"
    using r by (auto simp: repository_count_def send_Ok)
  from prepared_count [OF assms(1,2) p assms(4)] obtain q where
    q: "plan_find api (field_map (mapping cdc)) (only_filter params) = Ok q"
      "args = map argument_of (bindings (render_find q))" and
    s: "read_statement stmt = Some (S_Count (path_of (table (mapping cdc))) (tail_of q))" and
    tail: "order_of (tail_of q) = []" "limit_of (tail_of q) = None" "offset_of (tail_of q) = None"
    by blast
  have inhabited: "groups_inhabited c" if "condition_of (only_filter params) = Some c" for c
    using that assms(4) by (simp add: only_filter_def)
  from table_source.fetch_one_outcome [OF assms(3) s f] tail obtain rows where
    same: "view w' = view w" and row: "row = tally E (length rows)" and
    rows: "sql_answers (reading E) args (tail_of q) (table_rows view cdc w) rows" by auto
  have "find_answers (reading E) api (field_map (mapping cdc)) (only_filter params) (table_rows view cdc w) rows"
    using rows answers_plan [OF q(1) tree [OF q(1)] inhabited, where W = "reading E"] q(2) by simp
  from length_only_filter [OF this] have len: "length rows =
      length (filter (kept (reading E) api (field_map (mapping cdc)) params) (table_rows view cdc w))" .
  then have "length rows < 2 ^ 63"
    using le_less_trans [OF length_filter_le assms(6)] by simp
  from count_of_tally [OF assms(5) this d [unfolded row]] len same show ?thesis by simp
qed

lemma get_from_table:
  assumes "repository_new api src cdc = Ok r" and "mapping_ok (mapping cdc)"
    and "table_source E view src" and "repository_get api enc r i w = (Ok e, w')"
  shows "view w' = view w \<and>
     (\<exists>c b. plan_identity api r i = Ok (c, b) \<and>
        (case e of
           None \<Rightarrow> \<forall>row \<in> set (table_rows view cdc w). \<not> has_identity (reading E) c b row
         | Some x \<Rightarrow> \<exists>row \<in> set (table_rows view cdc w). has_identity (reading E) c b row \<and>
             decode cdc (present E (selected_names api (mapping cdc)) row) = Ok x))"
proof -
  note r = repository_new_fields [OF assms(1)]
  let ?show = "present E (selected_names api (mapping cdc))"
  from assms(4) obtain stmt args row where p: "prepare_get api enc r i = Ok (stmt, args)"
    and f: "fetch_optional src stmt args w = (Ok row, w')"
    and d: "(case row of None \<Rightarrow> Ok None | Some x \<Rightarrow> map_ok Some (decode cdc x)) = Ok e"
    using r by (auto simp: repository_get_def send_Ok)
  from prepared_get [OF assms(1,2) p] obtain c b where
    id: "plan_identity api r i = Ok (c, b)" "args = map argument_of [b]" and
    s: "read_statement stmt = Some (S_Select (selected_names api (mapping cdc))
       (path_of (table (mapping cdc))) (identity_tail c))"
    by (auto simp: selected_names_def)
  from table_source.fetch_optional_outcome [OF assms(3) s f] obtain out n where
    out: "outcome E (map argument_of [b]) (S_Select (selected_names api (mapping cdc))
       (path_of (table (mapping cdc))) (identity_tail c)) (view w) out n (view w')" and
    row: "row = (case out of [] \<Rightarrow> None | x # xs \<Rightarrow> Some x)" unfolding id(2) by blast
  note result = outcome_identity_select [OF out]
  then have members: "set out =
      ?show ` {y \<in> set (table_rows view cdc w). has_identity (reading E) c b y}"
    by (metis mset_eq_setD set_map set_filter)
  have "case e of
      None \<Rightarrow> \<forall>y \<in> set (table_rows view cdc w). \<not> has_identity (reading E) c b y
    | Some x \<Rightarrow> \<exists>y \<in> set (table_rows view cdc w). has_identity (reading E) c b y \<and>
        decode cdc (?show y) = Ok x"
  proof (cases out)
    case Nil
    with members row d show ?thesis by auto
  next
    case (Cons x xs)
    then have "x \<in> set out" by simp
    with members obtain y where "y \<in> set (table_rows view cdc w)" "has_identity (reading E) c b y"
      "x = ?show y" by auto
    with Cons row d show ?thesis by (auto simp: map_ok_eq_Ok)
  qed
  with result id(1) show ?thesis by blast
qed

text \<open>
  C9: reads answer from the table.  On a source that executes statements by their
  meaning, a find returns the decoded rows of a possible answer to its parameters over the
  mapped table; a count returns the number of rows its condition holds of; a get returns a row
  with the given identity, decoded, or nothing when there is none.  None of them changes the data.
\<close>

theorem reads_answer_from_the_table:
  assumes "repository_new api src cdc = Ok r" and "mapping_ok (mapping cdc)"
    and "table_source E view src"
    and "\<And>c. condition_of params = Some c \<Longrightarrow> groups_inhabited c"
    and "\<And>k. get_count (tally E k) = Ok (word_of_nat k)" and "length (table_rows view cdc w) < 2 ^ 63"
  shows "(\<forall>es w'. repository_find api enc r params w = (Ok es, w') \<longrightarrow>
            view w' = view w \<and>
            (\<exists>rows. find_answers (reading E) api (field_map (mapping cdc)) params (table_rows view cdc w) rows \<and>
               list_all2 (\<lambda>row e. decode cdc (present E (selected_names api (mapping cdc)) row) = Ok e) rows es)) \<and>
         (\<forall>k w'. repository_count api enc get_count r params w = (Ok k, w') \<longrightarrow>
            view w' = view w \<and>
            unat k = length (filter (kept (reading E) api (field_map (mapping cdc)) params) (table_rows view cdc w))) \<and>
         (\<forall>e w'. repository_get api enc r i w = (Ok e, w') \<longrightarrow>
            view w' = view w \<and>
            (\<exists>c b. plan_identity api r i = Ok (c, b) \<and>
               (case e of
                  None \<Rightarrow> \<forall>row \<in> set (table_rows view cdc w). \<not> has_identity (reading E) c b row
                | Some x \<Rightarrow> \<exists>row \<in> set (table_rows view cdc w). has_identity (reading E) c b row \<and>
                    decode cdc (present E (selected_names api (mapping cdc)) row) = Ok x)))"
  using find_from_table [OF assms(1-4)] count_from_table [OF assms(1-6)] get_from_table [OF assms(1-3)]
  by blast

lemma insert_into_table:
  assumes "repository_new api src cdc = Ok r" and "mapping_ok (mapping cdc)"
    and "table_source E view src" and "repository_insert api enc r e w = (Ok (), w')"
  shows "\<exists>cells. try_map (plan_cell api r e) (insertable_fields api (mapping cdc)) = Ok cells \<and>
     view w' = (view w)(path_of (table (mapping cdc)) := table_rows view cdc w @
       [let dflt = defaults E (path_of (table (mapping cdc))) in store_cells (reading E) dflt cells dflt])"
proof -
  note r = repository_new_fields [OF assms(1)]
  from assms(4) obtain stmt args reply where p: "compile_insert api enc r e False = Ok (stmt, args)"
    and f: "apply_sql src stmt args w = (Ok reply, w')"
    using r by (auto simp: repository_insert_def send_Ok)
  from prepared_insert [OF assms(1,2) p] obtain cells where
    cells: "try_map (plan_cell api r e) (insertable_fields api (mapping cdc)) = Ok cells"
      "args = map argument_of (cell_binds cells)" and
    s: "read_statement stmt = Some (S_Insert (path_of (table (mapping cdc)))
       (if cells = [] then None
        else Some (map (column_name \<circ> fst) cells, map slot_expr (number_cells 0 cells)))
       (returned api (mapping cdc) False))" by blast
  from table_source.apply_outcome [OF assms(3) s f] show ?thesis
    unfolding cells(2) outcome_insert using cells(1) by (auto simp: Let_def)
qed

text \<open>A count of at most \<open>2 ^ 63\<close> rows survives the 64-bit reply.\<close>

lemma rows_affected_zero:
  "n < 2 ^ 63 \<Longrightarrow> rows_affected reply = word_of_nat n \<Longrightarrow> rows_affected reply = 0 \<longleftrightarrow> n = 0"
  using unat_word_of_nat_64 [of n] by (auto simp: unat_eq_0 [symmetric])

text \<open>What the statement of a replacement does, whatever the repository makes of the reply.\<close>

lemma replace_outcome:
  assumes "repository_new api src cdc = Ok r" and "mapping_ok (mapping cdc)"
    and "table_source E view src" and "length (table_rows view cdc w) < 2 ^ 63"
    and "compile_replace api enc r e False = Ok (stmt, args)"
    and "apply_sql src stmt args w = (Ok reply, w')"
  shows "\<exists>cells c b. try_map (plan_cell api r e) (replaced_fields api r) = Ok cells \<and>
     plan_identity api r (entity_id cdc e) = Ok (c, b) \<and>
     (rows_affected reply \<noteq> 0 \<longleftrightarrow> (\<exists>row \<in> set (table_rows view cdc w). has_identity (reading E) c b row)) \<and>
     view w' = (view w)(path_of (table (mapping cdc)) :=
       map (\<lambda>row. if has_identity (reading E) c b row
              then store_cells (reading E) (defaults E (path_of (table (mapping cdc)))) cells row else row)
         (table_rows view cdc w))"
proof -
  from prepared_replace [OF assms(1,2,5)] obtain cells c b where
    plan: "try_map (plan_cell api r e) (replaced_fields api r) = Ok cells"
      "plan_identity api r (entity_id cdc e) = Ok (c, b)" and
    args: "args = map argument_of (cell_binds cells @ [b])" and
    s: "read_statement stmt = Some (S_Update (path_of (table (mapping cdc)))
       (map (\<lambda>p. (column_name (fst p), slot_expr p)) (number_cells 0 cells))
       (equality c (Suc (length (cell_binds cells)))) (returned api (mapping cdc) False))" by blast
  from table_source.apply_outcome [OF assms(3) s assms(6)] obtain n where
    n: "n = length (filter (has_identity (reading E) c b) (table_rows view cdc w))"
      "rows_affected reply = word_of_nat n" and
    change: "view w' = (view w)(path_of (table (mapping cdc)) :=
       map (\<lambda>row. if has_identity (reading E) c b row
              then store_cells (reading E) (defaults E (path_of (table (mapping cdc)))) cells row else row)
         (table_rows view cdc w))"
    unfolding args outcome_update by blast
  have "n < 2 ^ 63" unfolding n(1) by (rule le_less_trans [OF length_filter_le assms(4)])
  from rows_affected_zero [OF this n(2)] n(1)
  have "rows_affected reply \<noteq> 0 \<longleftrightarrow> (\<exists>row \<in> set (table_rows view cdc w). has_identity (reading E) c b row)"
    by (auto simp: filter_empty_conv)
  with plan change show ?thesis by blast
qed

lemma replace_in_table:
  assumes "repository_new api src cdc = Ok r" and "mapping_ok (mapping cdc)"
    and "table_source E view src" and "length (table_rows view cdc w) < 2 ^ 63"
    and "repository_replace api enc r e w = (Ok (), w')"
  shows "\<exists>cells c b. try_map (plan_cell api r e) (replaced_fields api r) = Ok cells \<and>
     plan_identity api r (entity_id cdc e) = Ok (c, b) \<and>
     (\<exists>row \<in> set (table_rows view cdc w). has_identity (reading E) c b row) \<and>
     view w' = (view w)(path_of (table (mapping cdc)) :=
       map (\<lambda>row. if has_identity (reading E) c b row
              then store_cells (reading E) (defaults E (path_of (table (mapping cdc)))) cells row else row)
         (table_rows view cdc w))"
proof -
  note r = repository_new_fields [OF assms(1)]
  from assms(5) obtain stmt args reply where p: "compile_replace api enc r e False = Ok (stmt, args)"
    and f: "apply_sql src stmt args w = (Ok reply, w')" and some: "rows_affected reply \<noteq> 0"
    using r by (auto simp: repository_replace_def send_Ok split: if_splits)
  from replace_outcome [OF assms(1-4) p f] some show ?thesis by blast
qed

lemma remove_from_table:
  assumes "repository_new api src cdc = Ok r" and "mapping_ok (mapping cdc)"
    and "table_source E view src" and "length (table_rows view cdc w) < 2 ^ 63"
    and "repository_remove api enc r i w = (Ok found, w')"
  shows "\<exists>c b. plan_identity api r i = Ok (c, b) \<and>
     (found \<longleftrightarrow> (\<exists>row \<in> set (table_rows view cdc w). has_identity (reading E) c b row)) \<and>
     view w' = (view w)(path_of (table (mapping cdc)) :=
       filter (\<lambda>row. \<not> has_identity (reading E) c b row) (table_rows view cdc w))"
proof -
  note r = repository_new_fields [OF assms(1)]
  from assms(5) obtain stmt args reply where p: "prepare_remove api enc r i = Ok (stmt, args)"
    and f: "apply_sql src stmt args w = (Ok reply, w')"
    and found: "found \<longleftrightarrow> rows_affected reply > 0"
    using r by (auto simp: repository_remove_def send_Ok)
  from prepared_remove [OF assms(1,2) p] obtain c b where
    id: "plan_identity api r i = Ok (c, b)" and args: "args = map argument_of [b]" and
    s: "read_statement stmt = Some (S_Delete (path_of (table (mapping cdc))) (equality c 1))" by blast
  from table_source.apply_outcome [OF assms(3) s f] obtain n where
    n: "n = length (filter (has_identity (reading E) c b) (table_rows view cdc w))"
      "rows_affected reply = word_of_nat n" and
    change: "view w' = (view w)(path_of (table (mapping cdc)) :=
       filter (\<lambda>row. \<not> has_identity (reading E) c b row) (table_rows view cdc w))"
    unfolding args outcome_identity_delete by blast
  have "n < 2 ^ 63" unfolding n(1) by (rule le_less_trans [OF length_filter_le assms(4)])
  from rows_affected_zero [OF this n(2)] found n(1)
  have "found \<longleftrightarrow> (\<exists>row \<in> set (table_rows view cdc w). has_identity (reading E) c b row)"
    by (auto simp: filter_empty_conv word_gt_0)
  with id change show ?thesis by blast
qed

text \<open>
  C10: writes change the table as the entity says.  On such a source an insert that succeeds adds one
  row: the planned cells of the insertable fields, every other column at its default.  A replacement
  that succeeds found rows with the entity's identity and overwrote in them the planned cells of
  the updatable fields, and nothing else.  A removal deletes exactly the rows with the identity and
  answers whether there were any.  No other table changes.
\<close>

theorem writes_change_the_table:
  assumes "repository_new api src cdc = Ok r" and "mapping_ok (mapping cdc)"
    and "table_source E view src" and "length (table_rows view cdc w) < 2 ^ 63"
  shows "(\<forall>w'. repository_insert api enc r e w = (Ok (), w') \<longrightarrow>
            (\<exists>cells. try_map (plan_cell api r e) (insertable_fields api (mapping cdc)) = Ok cells \<and>
               view w' = (view w)(path_of (table (mapping cdc)) :=
                 table_rows view cdc w @
                 [let dflt = defaults E (path_of (table (mapping cdc)))
                  in store_cells (reading E) dflt cells dflt]))) \<and>
         (\<forall>w'. repository_replace api enc r e w = (Ok (), w') \<longrightarrow>
            (\<exists>cells c b. try_map (plan_cell api r e) (replaced_fields api r) = Ok cells \<and>
               plan_identity api r (entity_id cdc e) = Ok (c, b) \<and>
               (\<exists>row \<in> set (table_rows view cdc w). has_identity (reading E) c b row) \<and>
               view w' = (view w)(path_of (table (mapping cdc)) :=
                 map (\<lambda>row. if has_identity (reading E) c b row
                        then store_cells (reading E) (defaults E (path_of (table (mapping cdc)))) cells row
                        else row) (table_rows view cdc w)))) \<and>
         (\<forall>found w'. repository_remove api enc r i w = (Ok found, w') \<longrightarrow>
            (\<exists>c b. plan_identity api r i = Ok (c, b) \<and>
               (found \<longleftrightarrow> (\<exists>row \<in> set (table_rows view cdc w). has_identity (reading E) c b row)) \<and>
               view w' = (view w)(path_of (table (mapping cdc)) :=
                 filter (\<lambda>row. \<not> has_identity (reading E) c b row) (table_rows view cdc w))))"
  using insert_into_table [OF assms(1-3)] replace_in_table [OF assms] remove_from_table [OF assms]
  by blast

section \<open>Writes that return the row\<close>

lemma give_back_returned:
  "give_back shown (returned api m True) rows = map (shown (selected_names api m)) rows"
  by (simp add: give_back_def returned_def selected_names_def)

lemma insert_one_outcome:
  assumes "repository_new api src cdc = Ok r" and "mapping_ok (mapping cdc)"
    and "table_source E view src" and "compile_insert api enc r e True = Ok (stmt, args)"
    and "apply_one src stmt args w = (Ok y, w')"
  shows "\<exists>cells row. try_map (plan_cell api r e) (insertable_fields api (mapping cdc)) = Ok cells \<and>
     row = store_cells (reading E) (defaults E (path_of (table (mapping cdc)))) cells
             (defaults E (path_of (table (mapping cdc)))) \<and>
     view w' = (view w)(path_of (table (mapping cdc)) := table_rows view cdc w @ [row]) \<and>
     y = present E (selected_names api (mapping cdc)) row"
proof -
  from prepared_insert [OF assms(1,2,4)] obtain cells where
    cells: "try_map (plan_cell api r e) (insertable_fields api (mapping cdc)) = Ok cells"
      "args = map argument_of (cell_binds cells)" and
    s: "read_statement stmt = Some (S_Insert (path_of (table (mapping cdc)))
       (if cells = [] then None
        else Some (map (column_name \<circ> fst) cells, map slot_expr (number_cells 0 cells)))
       (returned api (mapping cdc) True))" by blast
  from table_source.apply_one_outcome [OF assms(3) s assms(5)] show ?thesis
    unfolding cells(2) outcome_insert give_back_returned using cells(1) by (auto simp: Let_def)
qed

lemma replace_one_outcome:
  assumes "repository_new api src cdc = Ok r" and "mapping_ok (mapping cdc)"
    and "table_source E view src" and "compile_replace api enc r e True = Ok (stmt, args)"
    and "apply_one src stmt args w = (Ok y, w')"
  shows "\<exists>cells c b. try_map (plan_cell api r e) (replaced_fields api r) = Ok cells \<and>
     plan_identity api r (entity_id cdc e) = Ok (c, b) \<and>
     view w' = (view w)(path_of (table (mapping cdc)) :=
       map (\<lambda>row. if has_identity (reading E) c b row
              then store_cells (reading E) (defaults E (path_of (table (mapping cdc)))) cells row else row)
         (table_rows view cdc w)) \<and>
     (\<exists>row \<in> set (table_rows view cdc w). has_identity (reading E) c b row \<and>
        y = present E (selected_names api (mapping cdc))
          (store_cells (reading E) (defaults E (path_of (table (mapping cdc)))) cells row))"
proof -
  from prepared_replace [OF assms(1,2,4)] obtain cells c b where
    plan: "try_map (plan_cell api r e) (replaced_fields api r) = Ok cells"
      "plan_identity api r (entity_id cdc e) = Ok (c, b)" and
    args: "args = map argument_of (cell_binds cells @ [b])" and
    s: "read_statement stmt = Some (S_Update (path_of (table (mapping cdc)))
       (map (\<lambda>p. (column_name (fst p), slot_expr p)) (number_cells 0 cells))
       (equality c (Suc (length (cell_binds cells)))) (returned api (mapping cdc) True))" by blast
  let ?new = "store_cells (reading E) (defaults E (path_of (table (mapping cdc)))) cells"
  let ?hit = "has_identity (reading E) c b"
  from table_source.apply_one_outcome [OF assms(3) s assms(5)] obtain rows where
    out: "y # rows = map (present E (selected_names api (mapping cdc)))
        (map ?new (filter ?hit (table_rows view cdc w)))" and
    change: "view w' = (view w)(path_of (table (mapping cdc)) :=
       map (\<lambda>row. if ?hit row then ?new row else row) (table_rows view cdc w))"
    unfolding args outcome_update give_back_returned by (elim exE conjE) (rule that)
  have "y \<in> set (map (present E (selected_names api (mapping cdc)))
      (map ?new (filter ?hit (table_rows view cdc w))))"
    unfolding out [symmetric] by simp
  then obtain row where "row \<in> set (table_rows view cdc w)" "?hit row"
    "y = present E (selected_names api (mapping cdc)) (?new row)" by auto
  with plan change show ?thesis by blast
qed

lemma insert_returning_from_table:
  assumes "repository_new api src cdc = Ok r" and "mapping_ok (mapping cdc)"
    and "table_source E view src" and "repository_insert_returning api enc r e w = (Ok x, w')"
  shows "\<exists>cells row. try_map (plan_cell api r e) (insertable_fields api (mapping cdc)) = Ok cells \<and>
     row = store_cells (reading E) (defaults E (path_of (table (mapping cdc)))) cells
             (defaults E (path_of (table (mapping cdc)))) \<and>
     view w' = (view w)(path_of (table (mapping cdc)) := table_rows view cdc w @ [row]) \<and>
     decode cdc (present E (selected_names api (mapping cdc)) row) = Ok x"
proof -
  from assms(4) obtain stmt args y where "compile_insert api enc r e True = Ok (stmt, args)"
    "apply_one src stmt args w = (Ok y, w')" "decode cdc y = Ok x"
    using repository_new_fields [OF assms(1)] by (auto simp: repository_insert_returning_def send_Ok)
  with insert_one_outcome [OF assms(1-3)] show ?thesis by blast
qed

lemma replace_returning_from_table:
  assumes "repository_new api src cdc = Ok r" and "mapping_ok (mapping cdc)"
    and "table_source E view src" and "repository_replace_returning api enc r e w = (Ok x, w')"
  shows "\<exists>cells c b. try_map (plan_cell api r e) (replaced_fields api r) = Ok cells \<and>
     plan_identity api r (entity_id cdc e) = Ok (c, b) \<and>
     view w' = (view w)(path_of (table (mapping cdc)) :=
       map (\<lambda>row. if has_identity (reading E) c b row
              then store_cells (reading E) (defaults E (path_of (table (mapping cdc)))) cells row else row)
         (table_rows view cdc w)) \<and>
     (\<exists>row \<in> set (table_rows view cdc w). has_identity (reading E) c b row \<and>
        decode cdc (present E (selected_names api (mapping cdc))
          (store_cells (reading E) (defaults E (path_of (table (mapping cdc)))) cells row)) = Ok x)"
proof -
  from assms(4) obtain stmt args y where p: "compile_replace api enc r e True = Ok (stmt, args)"
    and f: "apply_one src stmt args w = (Ok y, w')" and d: "decode cdc y = Ok x"
    using repository_new_fields [OF assms(1)] by (auto simp: repository_replace_returning_def send_Ok)
  from replace_one_outcome [OF assms(1-3) p f] d show ?thesis by blast
qed

text \<open>
  C11: a write that returns its entity returns what it has written.  On such a source, the entity a
  returning insert gives back is the decoded form of the row it has added; the entity a returning
  replacement gives back is the decoded form of a row with the entity's identity after the planned
  cells were written to it.  The effect on the data is that of the plain operations.
\<close>

theorem returning_writes_decode_what_they_wrote:
  assumes "repository_new api src cdc = Ok r" and "mapping_ok (mapping cdc)"
    and "table_source E view src"
  shows "(\<forall>x w'. repository_insert_returning api enc r e w = (Ok x, w') \<longrightarrow>
            (\<exists>cells row. try_map (plan_cell api r e) (insertable_fields api (mapping cdc)) = Ok cells \<and>
               row = store_cells (reading E) (defaults E (path_of (table (mapping cdc)))) cells
                       (defaults E (path_of (table (mapping cdc)))) \<and>
               view w' = (view w)(path_of (table (mapping cdc)) :=
                 table_rows view cdc w @ [row]) \<and>
               decode cdc (present E (selected_names api (mapping cdc)) row) = Ok x)) \<and>
         (\<forall>x w'. repository_replace_returning api enc r e w = (Ok x, w') \<longrightarrow>
            (\<exists>cells c b. try_map (plan_cell api r e) (replaced_fields api r) = Ok cells \<and>
               plan_identity api r (entity_id cdc e) = Ok (c, b) \<and>
               view w' = (view w)(path_of (table (mapping cdc)) :=
                 map (\<lambda>row. if has_identity (reading E) c b row
                        then store_cells (reading E) (defaults E (path_of (table (mapping cdc)))) cells row
                        else row) (table_rows view cdc w)) \<and>
               (\<exists>row \<in> set (table_rows view cdc w). has_identity (reading E) c b row \<and>
                  decode cdc (present E (selected_names api (mapping cdc))
                    (store_cells (reading E) (defaults E (path_of (table (mapping cdc)))) cells row)) = Ok x)))"
  using insert_returning_from_table [OF assms] replace_returning_from_table [OF assms] by blast

section \<open>A store that can be run\<close>

text \<open>Values are texts, compared by equality; a row is handed out as the length of its identity.\<close>

definition store_engine :: "(string, nat) sql_engine" where
  "store_engine =
     \<lparr>reading = \<lparr>argument_meaning = (\<lambda>a. case a of Add_String s \<Rightarrow> Some s | _ \<Rightarrow> None),
        casts = (\<lambda>_ v. v), collates = (\<lambda>_ v. v), relation = (\<lambda>_. (=))\<rparr>,
      defaults = (\<lambda>_ _. None),
      present = (\<lambda>_ row. case row ''id'' of Some s \<Rightarrow> length s | None \<Rightarrow> 0), tally = (\<lambda>n. n)\<rparr>"

definition store_repository :: "(string database world, 64 word \<times> string, 64 word, nat) pg_repository" where
  "store_repository =
     \<lparr>repo_source = pool_source 0 (reference_executor store_engine), codec = sample_codec,
      compiler = field_map sample_mapping\<rparr>"

definition store_of :: "string table_row list \<Rightarrow> string database world" where
  "store_of rows = \<lparr>db = (\<lambda>t. if t = (Some ''app'', ''users'') then rows else []), issued = []\<rparr>"

abbreviation user_row :: "string \<Rightarrow> string \<Rightarrow> string table_row" where
  "user_row i n \<equiv> [''id'' \<mapsto> i, ''display_name'' \<mapsto> n]"

definition store_tally :: "nat \<Rightarrow> (64 word, sqlx_error) result" where
  "store_tally n = Ok (word_of_nat n)"

lemma store_tally: "store_tally (tally store_engine k) = Ok (word_of_nat k)"
  by (simp add: store_tally_def store_engine_def)

lemma store_repository_simps [simp]:
  "repo_source store_repository = pool_source 0 (reference_executor store_engine)"
  "codec store_repository = sample_codec" "compiler store_repository = field_map sample_mapping"
  "path_of (table sample_mapping) = (Some ''app'', ''users'')"
  by (simp_all add: store_repository_def path_of_def sample_mapping_def)

lemma store_repository_new:
  "repository_new sample_api (pool_source 0 (reference_executor store_engine)) sample_codec = Ok store_repository"
  using sample_repository_new by (simp add: repository_new_def and_then_eq_Ok store_repository_def)

lemma store_plans:
  "plan_cell api store_repository e f = plan_cell api sample_repository e f"
  "plan_identity api store_repository i = plan_identity api sample_repository i"
  by (simp_all add: plan_cell_def plan_identity_def entity_value_def)

lemma store_identity:
  assumes "plan_identity api store_repository 9 = Ok (c, b)"
  shows "has_identity (reading store_engine) c b row \<longleftrightarrow> row ''id'' = Some ''9''"
proof -
  have "show_nat 9 = ''9''" by (simp add: show_nat.simps)
  with assms have "c = sample_column ''id'' Kind_Numeric IMMUTABLE" "b = Bind_Numeric ''9''"
    by (auto simp: store_plans sample_plans)
  then show ?thesis
    by (auto simp: has_identity_def given_value_def placeholder_cast_def argument_of_def store_engine_def
        lift3_def split: option.splits)
qed

lemma store_get_returns:
  "\<exists>e w'. repository_get sample_api encodes_all store_repository 9 w = (Ok e, w')"
proof -
  obtain stmt args where p: "prepare_get sample_api encodes_all store_repository 9 = Ok (stmt, args)"
    by (simp add: prepare_get_def compiled_id_eq store_plans sample_plans compiled_arguments_def
        into_arguments_def from_bindings_def arguments_add_def select_prefix_eq)
  from prepared_get [OF store_repository_new _ p] obtain c where
    "read_statement stmt = Some (S_Select (map column_name (matching_columns sample_api sample_mapping selectable))
       (path_of (table sample_mapping)) (identity_tail c))" by auto
  then show ?thesis
    by (auto simp: repository_get_def p pool_source_def issue_def reference_executor_def run_text_def
        identity_tail_def sample_codec_def Let_def split: list.split)
qed

lemma store_insert_compiles:
  "\<exists>stmt args x. compile_insert sample_api encodes_all store_repository (9, ''Ada'') returning = Ok (stmt, args) \<and>
     read_statement stmt = Some (S_Insert (path_of (table sample_mapping)) x (returned sample_api sample_mapping returning))"
proof -
  obtain stmt args where
    p: "compile_insert sample_api encodes_all store_repository (9, ''Ada'') returning = Ok (stmt, args)"
    by (auto simp: compile_insert_eq store_plans sample_plans compiled_arguments_def into_arguments_def
        from_bindings_def arguments_add_def)
  from prepared_insert [OF store_repository_new _ p] p show ?thesis by auto
qed

lemma store_insert_returns:
  "\<exists>w'. repository_insert sample_api encodes_all store_repository (9, ''Ada'') w = (Ok (), w')"
  using store_insert_compiles [of False]
  by (auto simp: repository_insert_def pool_source_def issue_def reference_executor_def run_text_def Let_def)

lemma store_insert_gives_back:
  "\<exists>x w'. repository_insert_returning sample_api encodes_all store_repository (9, ''Ada'') w = (Ok x, w')"
  using store_insert_compiles [of True]
  by (auto simp: repository_insert_returning_def pool_source_def issue_def reference_executor_def run_text_def
      Let_def give_back_returned sample_codec_def)

lemma store_cells_inserted:
  assumes "try_map (plan_cell sample_api store_repository (9, ''Ada'')) [Field_Name ''id'', Field_Name ''name''] = Ok cells"
  shows "store_cells (reading store_engine) (defaults store_engine t) cells (defaults store_engine t) = user_row ''9'' ''Ada''"
proof -
  have "show_nat 9 = ''9''" by (simp add: show_nat.simps)
  with assms have "cells = [(sample_column ''id'' Kind_Numeric IMMUTABLE, Some (Bind_Numeric ''9'')),
      (sample_column ''display_name'' Kind_Text PERSISTED, Some (Bind_Text ''Ada''))]"
    by (auto simp: store_plans sample_plans)
  then show ?thesis
    by (auto simp: store_cells_def cell_meaning_def given_value_def placeholder_cast_def argument_of_def
        store_engine_def fun_eq_iff)
qed

theorem reads_answer_from_the_table_witness:
  "\<exists>x w'. repository_get sample_api encodes_all store_repository 9
       (store_of [user_row ''7'' ''Bob'', user_row ''9'' ''Ada'']) = (Ok (Some x), w') \<and>
     db w' = db (store_of [user_row ''7'' ''Bob'', user_row ''9'' ''Ada''])"
proof -
  let ?w = "store_of [user_row ''7'' ''Bob'', user_row ''9'' ''Ada'']"
  let ?p = "\<lparr>condition_of = None, sort_keys = [], limit = None, offset = 0\<rparr>"
  obtain e w' where get: "repository_get sample_api encodes_all store_repository 9 ?w = (Ok e, w')"
    using store_get_returns by blast
  have rows: "table_rows db sample_codec ?w = [user_row ''7'' ''Bob'', user_row ''9'' ''Ada'']"
    by (simp add: store_of_def)
  have few: "length (table_rows db sample_codec ?w) < 2 ^ 63" unfolding rows by simp
  have none: "\<And>c. condition_of ?p = Some c \<Longrightarrow> groups_inhabited c" by simp
  have ok: "mapping_ok (mapping sample_codec)" by simp
  note reads = reads_answer_from_the_table
    [OF store_repository_new ok reference_pool.table_source_axioms, where enc = encodes_all and i = 9, OF none store_tally few]
  let ?found = "\<lambda>c b. case e of
      None \<Rightarrow> \<forall>row \<in> set (table_rows db sample_codec ?w).
        \<not> has_identity (reading store_engine) c b row
    | Some x \<Rightarrow> \<exists>row \<in> set (table_rows db sample_codec ?w).
        has_identity (reading store_engine) c b row \<and>
        decode sample_codec (present store_engine
          (selected_names sample_api (mapping sample_codec)) row) = Ok x"
  have "db w' = db ?w \<and> (\<exists>c b. plan_identity sample_api store_repository 9 = Ok (c, b) \<and> ?found c b)"
    by (rule reads [THEN conjunct2, THEN conjunct2, THEN spec, THEN spec, THEN mp, OF _ get])
  then obtain c b where
    same: "db w' = db ?w" and id: "plan_identity sample_api store_repository 9 = Ok (c, b)" and
    found: "?found c b" by blast
  have "e \<noteq> None"
  proof
    assume "e = None"
    with found show False by (simp add: store_of_def store_identity [OF id])
  qed
  with get same show ?thesis by auto
qed

theorem writes_change_the_table_witness:
  "\<exists>w'. repository_insert sample_api encodes_all store_repository (9, ''Ada'')
       (store_of [user_row ''7'' ''Bob'']) = (Ok (), w') \<and>
     db w' = db (store_of [user_row ''7'' ''Bob'', user_row ''9'' ''Ada''])"
proof -
  let ?w = "store_of [user_row ''7'' ''Bob'']"
  obtain w' where insert: "repository_insert sample_api encodes_all store_repository (9, ''Ada'') ?w = (Ok (), w')"
    using store_insert_returns by blast
  have few: "length (table_rows db sample_codec ?w) < 2 ^ 63" by (simp add: store_of_def)
  have ok: "mapping_ok (mapping sample_codec)" by simp
  note writes = writes_change_the_table
    [OF store_repository_new ok reference_pool.table_source_axioms, where enc = encodes_all and e = "(9, ''Ada'')", OF few]
  from writes [THEN conjunct1, rule_format, OF insert] obtain cells where
    cells: "try_map (plan_cell sample_api store_repository (9, ''Ada'')) [Field_Name ''id'', Field_Name ''name''] = Ok cells"
    and db: "db w' = (db ?w)((Some ''app'', ''users'') := db ?w (Some ''app'', ''users'') @
       [store_cells (reading store_engine) (defaults store_engine (Some ''app'', ''users'')) cells
          (defaults store_engine (Some ''app'', ''users''))])"
    unfolding Let_def store_repository_simps sample_repository_simps sample_selections by blast
  show ?thesis
    using insert db [unfolded store_cells_inserted [OF cells]] by (auto simp: store_of_def fun_eq_iff)
qed

theorem returning_writes_decode_what_they_wrote_witness:
  "\<exists>w'. repository_insert_returning sample_api encodes_all store_repository (9, ''Ada'')
       (store_of [user_row ''7'' ''Bob'']) = (Ok (1, ''row''), w') \<and>
     db w' = db (store_of [user_row ''7'' ''Bob'', user_row ''9'' ''Ada''])"
proof -
  let ?w = "store_of [user_row ''7'' ''Bob'']"
  obtain x w' where
    insert: "repository_insert_returning sample_api encodes_all store_repository (9, ''Ada'') ?w = (Ok x, w')"
    using store_insert_gives_back by blast
  have ok: "mapping_ok (mapping sample_codec)" by simp
  note writes = returning_writes_decode_what_they_wrote
    [OF store_repository_new ok reference_pool.table_source_axioms, where enc = encodes_all and e = "(9, ''Ada'')"]
  from writes [THEN conjunct1, rule_format, OF insert] obtain cells row where
    cells: "try_map (plan_cell sample_api store_repository (9, ''Ada'')) [Field_Name ''id'', Field_Name ''name''] = Ok cells"
    and row: "row = store_cells (reading store_engine) (defaults store_engine (Some ''app'', ''users'')) cells
        (defaults store_engine (Some ''app'', ''users''))"
    and db: "db w' = (db ?w)((Some ''app'', ''users'') := db ?w (Some ''app'', ''users'') @ [row])"
    and x: "decode sample_codec (present store_engine (selected_names sample_api sample_mapping) row) = Ok x"
    by auto
  have "row = user_row ''9'' ''Ada''" unfolding row by (rule store_cells_inserted [OF cells])
  moreover from this x have "x = (1, ''row'')" by (simp add: store_engine_def sample_codec_def)
  ultimately show ?thesis using insert db by (auto simp: store_of_def fun_eq_iff)
qed

end
