(* ===== verification/Map_Store.thy ===== *)
theory Map_Store
  imports Repository_Systems Compiler_Meaning
begin

text \<open>
  What an application expects of a repository: a map from identities to entities.  The answers of
  the operations over such a map are the specification, and a locale lifts it from single
  operations to sequences of them.
\<close>

section \<open>Operations and their replies\<close>

datatype 'e repo_reply =
  Entities "'e list" | Found "'e option" | Number "64 word" | Written | Removed bool | Stored 'e

fun repo_do ::
  "soaprs_api \<Rightarrow> encoder \<Rightarrow> ('row \<Rightarrow> (64 word, sqlx_error) result)
     \<Rightarrow> ('s, 'e, 'id, 'row) pg_repository \<Rightarrow> ('e, 'id) repo_operation \<Rightarrow> 's
     \<Rightarrow> 'e repo_reply soap_result \<times> 's" where
  "repo_do api enc gc r (R_Find params) s = apfst (map_ok Entities) (repository_find api enc r params s)"
| "repo_do api enc gc r (R_Get i) s = apfst (map_ok Found) (repository_get api enc r i s)"
| "repo_do api enc gc r (R_Count params) s = apfst (map_ok Number) (repository_count api enc gc r params s)"
| "repo_do api enc gc r (R_Insert e) s = apfst (map_ok (\<lambda>_. Written)) (repository_insert api enc r e s)"
| "repo_do api enc gc r (R_Replace e) s = apfst (map_ok (\<lambda>_. Written)) (repository_replace api enc r e s)"
| "repo_do api enc gc r (R_Remove i) s = apfst (map_ok Removed) (repository_remove api enc r i s)"
| "repo_do api enc gc r (R_Insert_Returning e) s =
     apfst (map_ok Stored) (repository_insert_returning api enc r e s)"
| "repo_do api enc gc r (R_Replace_Returning e) s =
     apfst (map_ok Stored) (repository_replace_returning api enc r e s)"

lemma apfst_map_ok_Err [simp]: "apfst (map_ok f) x = (Err e, s) \<longleftrightarrow> x = (Err e, s)"
  by (cases x; cases "fst x") auto

lemma apfst_map_ok_Ok [simp]: "apfst (map_ok f) x = (Ok y, s) \<longleftrightarrow> (\<exists>v. x = (Ok v, s) \<and> y = f v)"
  by (cases x; cases "fst x") auto

text \<open>A sequence of operations, up to the first that fails.\<close>

fun do_all :: "('op \<Rightarrow> 's \<Rightarrow> 'a soap_result \<times> 's) \<Rightarrow> 'op list \<Rightarrow> 's \<Rightarrow> 'a list soap_result \<times> 's" where
  "do_all f [] s = (Ok [], s)"
| "do_all f (p # ps) s =
     (case f p s of
        (Err e, s1) \<Rightarrow> (Err e, s1)
      | (Ok x, s1) \<Rightarrow> (case do_all f ps s1 of (r, s2) \<Rightarrow> (map_ok (Cons x) r, s2)))"

lemma snd_repo_do: "snd (repo_do api enc gc r p s) = repo_step api enc gc r p s"
  by (cases p) simp_all

section \<open>The specification\<close>

text \<open>
  What parameters say of entities: which ones satisfy the condition and which come before which, as
  far as entities tell (\<open>None\<close> where a field is not part of the entity).
\<close>

record 'e judgement =
  keeps :: "find_params \<Rightarrow> ('e \<Rightarrow> bool) option"
  precedes :: "find_params \<Rightarrow> ('e \<Rightarrow> 'e \<Rightarrow> bool) option"

text \<open>
  A find over a map: entities of the map, each once.  If the condition can be told from entities,
  they are a page of those that satisfy it, in an order that respects the sort keys if these can be
  told too.
\<close>

definition finds :: "'e judgement \<Rightarrow> ('e \<Rightarrow> 'id) \<Rightarrow> find_params \<Rightarrow> ('id \<rightharpoonup> 'e) \<Rightarrow> 'e list \<Rightarrow> bool" where
  "finds J key params M es \<longleftrightarrow> distinct (map key es) \<and> set es \<subseteq> ran M \<and>
     (\<forall>keep. keeps J params = Some keep \<longrightarrow>
        (\<exists>before. (\<forall>b. precedes J params = Some b \<longrightarrow> before = b) \<and>
           (\<exists>xs. distinct xs \<and> set xs = ran M \<and>
              answers keep before (map_option unat (limit params)) (unat (offset params)) xs es)))"

text \<open>
  One operation over a map: the reply it may give and the map after it.  A count counts the
  entities that satisfy the condition.  A replacement merges the given entity into the present one,
  whose immutable fields stay.
\<close>

fun map_answer ::
  "'e judgement \<Rightarrow> ('e \<Rightarrow> 'id) \<Rightarrow> ('e \<Rightarrow> 'e \<Rightarrow> 'e) \<Rightarrow> ('e, 'id) repo_operation \<Rightarrow> ('id \<rightharpoonup> 'e) \<Rightarrow> 'e repo_reply \<Rightarrow> ('id \<rightharpoonup> 'e) \<Rightarrow> bool" where
  "map_answer J key merge (R_Find params) M x M' \<longleftrightarrow> M' = M \<and> (\<exists>es. x = Entities es \<and> finds J key params M es)"
| "map_answer J key merge (R_Get i) M x M' \<longleftrightarrow> M' = M \<and> x = Found (M i)"
| "map_answer J key merge (R_Count params) M x M' \<longleftrightarrow> M' = M \<and>
     (\<exists>k. x = Number k \<and> unat k \<le> card (dom M) \<and>
        (\<forall>keep. keeps J params = Some keep \<longrightarrow> unat k = card {e \<in> ran M. keep e}))"
| "map_answer J key merge (R_Insert e) M x M' \<longleftrightarrow> x = Written \<and> M (key e) = None \<and> M' = M(key e \<mapsto> e)"
| "map_answer J key merge (R_Replace e) M x M' \<longleftrightarrow>
     (\<exists>old. M (key e) = Some old \<and> x = Written \<and> M' = M(key e \<mapsto> merge old e))"
| "map_answer J key merge (R_Remove i) M x M' \<longleftrightarrow> x = Removed (M i \<noteq> None) \<and> M' = M(i := None)"
| "map_answer J key merge (R_Insert_Returning e) M x M' \<longleftrightarrow>
     x = Stored e \<and> M (key e) = None \<and> M' = M(key e \<mapsto> e)"
| "map_answer J key merge (R_Replace_Returning e) M x M' \<longleftrightarrow>
     (\<exists>old. M (key e) = Some old \<and> x = Stored (merge old e) \<and> M' = M(key e \<mapsto> merge old e))"

fun map_answers ::
  "'e judgement \<Rightarrow> ('e \<Rightarrow> 'id) \<Rightarrow> ('e \<Rightarrow> 'e \<Rightarrow> 'e) \<Rightarrow> ('e, 'id) repo_operation list \<Rightarrow> ('id \<rightharpoonup> 'e) \<Rightarrow> 'e repo_reply list \<Rightarrow> ('id \<rightharpoonup> 'e) \<Rightarrow> bool"
where
  "map_answers J key merge [] M xs M' \<longleftrightarrow> xs = [] \<and> M' = M"
| "map_answers J key merge (p # ps) M xs M' \<longleftrightarrow>
     (\<exists>x ys M1. xs = x # ys \<and> map_answer J key merge p M x M1 \<and> map_answers J key merge ps M1 ys M')"

fun admissible :: "('e, 'id) repo_operation \<Rightarrow> bool" where
  "admissible (R_Find params) = (case condition_of params of None \<Rightarrow> True | Some c \<Rightarrow> groups_inhabited c)"
| "admissible (R_Count params) = (case condition_of params of None \<Rightarrow> True | Some c \<Rightarrow> groups_inhabited c)"
| "admissible _ = True"

lemma card_map_answer:
  assumes "map_answer J key merge p M x M'" and "finite (dom M)"
  shows "finite (dom M')" and "card (dom M') \<le> Suc (card (dom M))"
proof -
  have "card (insert k (dom M)) \<le> Suc (card (dom M))" for k
    using assms(2) by (simp add: card_insert_if)
  moreover have "card (dom M - {k}) \<le> Suc (card (dom M))" for k
    using card_Diff1_le [of "dom M" k] by simp
  ultimately show "finite (dom M')" "card (dom M') \<le> Suc (card (dom M))"
    using assms by (cases p; auto)+
qed

section \<open>Lists of entities as maps\<close>

definition entity_map :: "('e \<Rightarrow> 'id) \<Rightarrow> 'e list \<Rightarrow> 'id \<rightharpoonup> 'e" where
  "entity_map key es = map_of (map (\<lambda>e. (key e, e)) es)"

lemma entity_map_simps [simp]:
  "entity_map key [] = Map.empty"
  "entity_map key (e # es) = (entity_map key es)(key e \<mapsto> e)"
  by (simp_all add: entity_map_def)

lemma dom_entity_map [simp]: "dom (entity_map key es) = key ` set es"
  by (simp add: entity_map_def dom_map_of_conv_image_fst image_image)

lemma entity_map_Some:
  "distinct (map key es) \<Longrightarrow> entity_map key es i = Some e \<longleftrightarrow> e \<in> set es \<and> key e = i"
  by (auto simp: entity_map_def map_of_eq_Some_iff comp_def)

lemma entity_map_None: "entity_map key es i = None \<longleftrightarrow> i \<notin> key ` set es"
  using dom_entity_map [of key es] by (metis domIff)

lemma ran_entity_map: "distinct (map key es) \<Longrightarrow> ran (entity_map key es) = set es"
  by (auto simp: ran_def entity_map_Some)

lemma card_entity_map: "distinct (map key es) \<Longrightarrow> card (dom (entity_map key es)) = length es"
  using distinct_card [of "map key es"] by simp

lemma entity_map_snoc:
  "key e \<notin> key ` set es \<Longrightarrow> entity_map key (es @ [e]) = (entity_map key es)(key e \<mapsto> e)"
  by (induction es) auto

lemma entity_map_replace:
  assumes "distinct (map key es)" and "old \<in> set es" and "key (merge old e) = key old"
  shows "entity_map key (map (\<lambda>x. if key x = key old then merge x e else x) es) =
     (entity_map key es)(key old \<mapsto> merge old e)"
  using assms(1,2)
proof (induction es)
  case (Cons x es)
  show ?case
  proof (cases "x = old")
    case True
    with Cons.prems(1) have "key old \<notin> key ` set es" by simp
    then have "map (\<lambda>x. if key x = key old then merge x e else x) es = es"
      by (intro map_idI) (metis imageI)
    with True assms(3) show ?thesis by (simp add: fun_eq_iff)
  next
    case False
    with Cons.prems have "old \<in> set es" "key x \<noteq> key old" by auto
    with Cons show ?thesis by (auto simp: fun_eq_iff)
  qed
qed simp

lemma entity_map_remove:
  "entity_map key (filter (\<lambda>x. key x \<noteq> i) es) = (entity_map key es)(i := None)"
  by (induction es) (auto simp: fun_eq_iff)

lemma keys_replace:
  "(\<And>x. key (merge x e) = key x) \<Longrightarrow> map key (map (\<lambda>x. if key x = k then merge x e else x) es) = map key es"
  by simp

section \<open>Sequences of operations\<close>

text \<open>
  A store that keeps the specification operation by operation, as long as it has fewer than
  \<open>capacity\<close> entries, keeps it for sequences of operations.
\<close>

locale map_store =
  fixes J :: "'e judgement"
    and key :: "'e \<Rightarrow> 'id"
    and merge :: "'e \<Rightarrow> 'e \<Rightarrow> 'e"
    and shows_map :: "'s \<Rightarrow> ('id \<rightharpoonup> 'e) \<Rightarrow> bool"
    and run :: "('e, 'id) repo_operation \<Rightarrow> 's \<Rightarrow> 'e repo_reply soap_result \<times> 's"
    and capacity :: nat
  assumes finite_map: "shows_map s M \<Longrightarrow> finite (dom M)"
    and answers_map: "shows_map s M \<Longrightarrow> card (dom M) < capacity \<Longrightarrow> admissible p \<Longrightarrow>
      run p s = (Ok x, s') \<Longrightarrow> \<exists>M'. map_answer J key merge p M x M' \<and> shows_map s' M'"
begin

lemma sequence_answers_map:
  assumes "shows_map s M" and "card (dom M) + length ps \<le> capacity" and "list_all admissible ps"
    and "do_all run ps s = (Ok xs, s')"
  shows "\<exists>M'. map_answers J key merge ps M xs M' \<and> shows_map s' M'"
  using assms
proof (induction ps arbitrary: s M xs)
  case (Cons p ps)
  from Cons.prems(4) obtain x s1 ys where run: "run p s = (Ok x, s1)" and
    rest: "do_all run ps s1 = (Ok ys, s')" and xs: "xs = x # ys"
    by (auto simp: map_ok_eq_Ok split: prod.splits result.splits)
  from Cons.prems(2,3) have "card (dom M) < capacity" "admissible p" by simp_all
  from answers_map [OF Cons.prems(1) this run] obtain M1 where
    M1: "map_answer J key merge p M x M1" "shows_map s1 M1" by blast
  from card_map_answer(2) [OF M1(1) finite_map [OF Cons.prems(1)]] Cons.prems(2)
  have "card (dom M1) + length ps \<le> capacity" by simp
  from Cons.IH [OF M1(2) this _ rest] Cons.prems(3) M1(1) xs show ?case by auto
qed simp

end

end
