(* ===== verification/Repository_Map.thy ===== *)
theory Repository_Map
  imports Repository_Store Map_Store
begin

text \<open>
  The repository as a map from identities to entities.  For a mapping whose identity is written
  with the entity and is the primary key of the table, and a codec that reads back what it writes,
  every operation answers as the map does.  \<open>merge\<close> is what a replacement makes of the stored entity
  and the given one: the replaced fields of the given one, every other field of the stored one.
\<close>

section \<open>Rows that hold an entity\<close>

definition cell_held ::
  "('v, 'row) sql_engine \<Rightarrow> soaprs_api \<Rightarrow> ('s, 'e, 'id, 'row) pg_repository \<Rightarrow> 'e \<Rightarrow> 'v table_row
     \<Rightarrow> field_name \<Rightarrow> bool" where
  "cell_held E api r e row f =
     (case plan_cell api r e f of
        Err _ \<Rightarrow> False
      | Ok p \<Rightarrow> row (column_name (fst p)) =
          cell_meaning (reading E) (defaults E (path_of (table (mapping (codec r))))) p)"

definition row_holds ::
  "('v, 'row) sql_engine \<Rightarrow> soaprs_api \<Rightarrow> ('s, 'e, 'id, 'row) pg_repository \<Rightarrow> 'e \<Rightarrow> 'v table_row \<Rightarrow> bool" where
  "row_holds E api r e row \<longleftrightarrow>
     (\<forall>f \<in> set (insertable_fields api (mapping (codec r))). cell_held E api r e row f)"

text \<open>The values of the identity column are pairwise different.\<close>

definition keys_apart :: "('s, 'e, 'id, 'row) pg_repository \<Rightarrow> 'v database \<Rightarrow> bool" where
  "keys_apart r d \<longleftrightarrow>
     (\<forall>c. columns (field_map (mapping (codec r))) (id_field (mapping (codec r))) = Some c \<longrightarrow>
        distinct (map (\<lambda>row. row (column_name c)) (d (path_of (table (mapping (codec r)))))))"

lemma map_of_only:
  "(k, v) \<in> set xs \<Longrightarrow> (\<And>v'. (k, v') \<in> set xs \<Longrightarrow> v' = v) \<Longrightarrow> map_of xs k = Some v"
  using weak_map_of_SomeI [of k v xs] map_of_SomeD [of xs k] by blast

lemma try_map_at: "try_map g xs = Ok ys \<Longrightarrow> x \<in> set xs \<Longrightarrow> \<exists>y \<in> set ys. g x = Ok y"
  by (induction xs arbitrary: ys) (auto simp: result_simps)

section \<open>The table as a map\<close>

definition represents ::
  "('v, 'row) sql_engine \<Rightarrow> ('s \<Rightarrow> 'v database) \<Rightarrow> soaprs_api \<Rightarrow> ('s, 'e, 'id, 'row) pg_repository
     \<Rightarrow> 's \<Rightarrow> ('id \<rightharpoonup> 'e) \<Rightarrow> bool" where
  "represents E view api r s M \<longleftrightarrow>
     (\<exists>es. list_all2 (row_holds E api r) es (table_rows view (codec r) s) \<and>
        distinct (map (entity_id (codec r)) es) \<and> M = entity_map (entity_id (codec r)) es)"

lemma mset_take_part: "mset (take n xs) \<subseteq># mset xs"
  by (metis append_take_drop_id mset_append mset_subset_eq_add_left)

lemma mset_drop_part: "mset (drop n xs) \<subseteq># mset xs"
  by (metis append_take_drop_id mset_append mset_subset_eq_add_right)

lemma distinct_submset:
  assumes "distinct ys" and "mset xs \<subseteq># mset ys"
  shows "distinct xs"
proof -
  from assms(2) obtain zs where "mset ys = mset (xs @ zs)"
    by (metis ex_mset mset_append mset_subset_eq_exists_conv)
  from mset_eq_imp_distinct_iff [OF this] assms(1) show ?thesis by simp
qed

lemma answers_subset: "answers keep before lim off rows out \<Longrightarrow> mset out \<subseteq># mset rows"
proof -
  assume "answers keep before lim off rows out"
  then obtain xs where xs: "mset xs = mset (filter keep rows)"
    and out: "out = (case lim of None \<Rightarrow> drop off xs | Some k \<Rightarrow> take k (drop off xs))"
    unfolding answers_def by blast
  have "mset out \<subseteq># mset (drop off xs)"
    unfolding out by (cases lim) (simp_all add: mset_take_part)
  also have "\<dots> \<subseteq># mset xs" by (rule mset_drop_part)
  also have "\<dots> \<subseteq># mset rows" by (simp add: xs)
  finally show ?thesis .
qed

lemma answers_any_order: "answers keep before lim off rows out \<Longrightarrow> answers keep (\<lambda>_ _. False) lim off rows out"
  by (auto simp: answers_def sorted_wrt_iff_nth_less)

section \<open>What entities tell\<close>

definition filter_fields :: "find_params \<Rightarrow> field_name set" where
  "filter_fields params = (case condition_of params of None \<Rightarrow> {} | Some c \<Rightarrow> condition_fields c)"

text \<open>The row an entity is written as; fields that are not inserted are null in it.\<close>

definition entity_row ::
  "('v, 'row) sql_engine \<Rightarrow> soaprs_api \<Rightarrow> ('s, 'e, 'id, 'row) pg_repository \<Rightarrow> 'e \<Rightarrow> 'v table_row" where
  "entity_row E api r e =
     (case try_map (plan_cell api r e) (insertable_fields api (mapping (codec r))) of
        Err _ \<Rightarrow> (\<lambda>_. None)
      | Ok cells \<Rightarrow>
          store_cells (reading E) (defaults E (path_of (table (mapping (codec r))))) cells (\<lambda>_. None))"

definition written_fields :: "soaprs_api \<Rightarrow> ('s, 'e, 'id, 'row) pg_repository \<Rightarrow> field_name set \<Rightarrow> bool" where
  "written_fields api r F \<longleftrightarrow> F \<subseteq> set (insertable_fields api (mapping (codec r)))"

text \<open>Conditions and sort keys over the written fields are decided on the entity.\<close>

definition entity_judgement ::
  "('v, 'row) sql_engine \<Rightarrow> soaprs_api \<Rightarrow> ('s, 'e, 'id, 'row) pg_repository \<Rightarrow> 'e judgement" where
  "entity_judgement E api r =
     \<lparr>keeps = (\<lambda>params.
        if written_fields api r (filter_fields params)
        then Some (\<lambda>e. kept (reading E) api (field_map (mapping (codec r))) params (entity_row E api r e))
        else None),
      precedes = (\<lambda>params.
        if written_fields api r (sort_field ` set (sort_keys params))
        then Some (\<lambda>d e. field_before (reading E) api (field_map (mapping (codec r))) (sort_keys params)
          (entity_row E api r d) (entity_row E api r e))
        else None)\<rparr>"

text \<open>Rows that agree on the fields of a condition agree on the condition.\<close>

definition agree_on :: "soaprs_api \<Rightarrow> pg_field_map \<Rightarrow> field_name set \<Rightarrow> 'v table_row \<Rightarrow> 'v table_row \<Rightarrow> bool" where
  "agree_on api m F a b \<longleftrightarrow>
     (\<forall>f \<in> F. \<forall>c. resolve api m f = Ok c \<longrightarrow> a (column_name c) = b (column_name c))"

lemma agree_on_field_value:
  "agree_on api m F a b \<Longrightarrow> f \<in> F \<Longrightarrow> resolve api m f = Ok c \<Longrightarrow>
     field_value W a c = field_value W b c"
  by (simp add: agree_on_def field_value_def)

lemma agree_on_subset: "agree_on api m F a b \<Longrightarrow> G \<subseteq> F \<Longrightarrow> agree_on api m G a b"
  by (auto simp: agree_on_def)

lemma agree_on_means:
  "agree_on api m (condition_fields c) a b \<Longrightarrow> means W api m a c = means W api m b c"
proof (induction c)
  case (Group op cs)
  have "map (means W api m a) cs = map (means W api m b) cs"
  proof (intro map_cong refl)
    fix c assume c: "c \<in> set cs"
    from Group.prems c have "agree_on api m (condition_fields c) a b" by (auto intro: agree_on_subset)
    from Group.IH [OF c this] show "means W api m a c = means W api m b c" .
  qed
  then show ?case by (cases op) (simp_all only: means.simps)
next
  case (Predicate f op v)
  then show ?case by (auto simp: predicate_means_def agree_on_field_value split: result.splits)
qed

lemma agree_on_kept:
  "agree_on api m (filter_fields params) a b \<Longrightarrow> kept W api m params a = kept W api m params b"
  by (auto simp: kept_def filter_fields_def agree_on_means split: option.splits)

lemma agree_on_sort_value:
  "agree_on api m F a b \<Longrightarrow> f \<in> F \<Longrightarrow> sort_value W api m f a = sort_value W api m f b"
  by (auto simp: sort_value_def agree_on_field_value split: result.splits)

lemma agree_on_field_before:
  "agree_on api m (sort_field ` set ss) a c \<Longrightarrow> agree_on api m (sort_field ` set ss) b d \<Longrightarrow>
     field_before W api m ss a b = field_before W api m ss c d"
proof (induction ss)
  case (Cons s ss)
  from Cons.prems have "agree_on api m (sort_field ` set ss) a c" "agree_on api m (sort_field ` set ss) b d"
    by (auto intro: agree_on_subset)
  from Cons.IH [OF this] show ?case
    using agree_on_sort_value [OF Cons.prems(1), of "sort_field s"]
      agree_on_sort_value [OF Cons.prems(2), of "sort_field s"]
    by simp
qed simp

text \<open>Answers over decoded rows.\<close>

lemma answers_map:
  assumes "answers keep before lim off rows out"
    and "\<And>x. x \<in> set rows \<Longrightarrow> keep' (f x) = keep x"
    and "\<And>x y. x \<in> set rows \<Longrightarrow> y \<in> set rows \<Longrightarrow> before' (f x) (f y) = before x y"
  shows "answers keep' before' lim off (map f rows) (map f out)"
proof -
  from assms(1) obtain xs where xs: "mset xs = mset (filter keep rows)"
    and sorted: "sorted_wrt (\<lambda>a b. \<not> before b a) xs"
    and out: "out = (case lim of None \<Rightarrow> drop off xs | Some k \<Rightarrow> take k (drop off xs))"
    unfolding answers_def by blast
  have "filter keep' (map f rows) = map f (filter keep rows)"
    using assms(2) by (simp add: filter_map comp_def cong: filter_cong)
  then have "mset (map f xs) = mset (filter keep' (map f rows))" using xs by simp
  moreover have "set xs \<subseteq> set rows" using mset_eq_setD [OF xs] by auto
  then have "sorted_wrt (\<lambda>a b. \<not> before' b a) (map f xs)"
    unfolding sorted_wrt_map using sorted assms(3)
    by (elim sorted_wrt_mono_rel [rotated]) (auto dest: subsetD)
  moreover have "map f out = (case lim of None \<Rightarrow> drop off (map f xs) | Some k \<Rightarrow> take k (drop off (map f xs)))"
    unfolding out by (cases lim) (simp_all add: take_map drop_map)
  ultimately show ?thesis unfolding answers_def by blast
qed

section \<open>The hypotheses on the mapping, the codec and the server\<close>

locale entity_table = table_source E view "repo_source r"
  for E :: "('v, 'row) sql_engine" and view :: "'s \<Rightarrow> 'v database"
    and r :: "('s, 'e, 'id, 'row) pg_repository" +
  fixes api :: soaprs_api
    and enc :: encoder
    and gc :: "'row \<Rightarrow> (64 word, sqlx_error) result"
    and merge :: "'e \<Rightarrow> 'e \<Rightarrow> 'e"
  assumes built: "repository_new api (repo_source r) (codec r) = Ok r"
    and mapping_built: "mapping_ok (mapping (codec r))"
    and tallied: "gc (tally E k) = Ok (word_of_nat k)"
    and equality: "relation (reading E) Op_Eq = (=)"
    and columns_apart: "columns (field_map (mapping (codec r))) f = Some c \<Longrightarrow>
      columns (field_map (mapping (codec r))) g = Some d \<Longrightarrow> column_name c = column_name d \<Longrightarrow> f = g"
    and identity_inserted: "id_field (mapping (codec r)) \<in> set (insertable_fields api (mapping (codec r)))"
    and merged_cells: "f \<in> set (insertable_fields api (mapping (codec r))) \<Longrightarrow>
      plan_cell api r (merge old e) f = plan_cell api r (if f \<in> set (replaced_fields api r) then e else old) f"
    and merged_identity: "entity_id (codec r) (merge old e) = entity_id (codec r) old"
    and identity_cell: "plan_cell api r e (id_field (mapping (codec r))) = Ok p \<longleftrightarrow>
      (\<exists>c b. plan_identity api r (entity_id (codec r) e) = Ok (c, b) \<and> p = (c, Some b))"
    and key_given: "plan_identity api r i = Ok (c, b) \<Longrightarrow> given_value (reading E) (scalar_kind c) b \<noteq> None"
    and key_inj: "plan_identity api r i = Ok (c, b) \<Longrightarrow> plan_identity api r j = Ok (c, b') \<Longrightarrow>
      given_value (reading E) (scalar_kind c) b = given_value (reading E) (scalar_kind c) b' \<Longrightarrow> i = j"
    and reads_back: "row_holds E api r e row \<Longrightarrow>
      decode (codec r) (present E (selected_names api (mapping (codec r))) row) = Ok e"
    and primary_key: "apply_sql (repo_source r) q a s = (Ok reply, s') \<Longrightarrow>
      keys_apart r (view s) \<Longrightarrow> keys_apart r (view s')"
    and primary_key_one: "apply_one (repo_source r) q a s = (Ok given, s') \<Longrightarrow>
      keys_apart r (view s) \<Longrightarrow> keys_apart r (view s')"
begin

lemma planned_cell_held:
  assumes "try_map (plan_cell api r e) fs = Ok cells" and "f \<in> set fs"
  shows "cell_held E api r e
     (store_cells (reading E) (defaults E (path_of (table (mapping (codec r))))) cells row) f"
proof -
  let ?dflt = "defaults E (path_of (table (mapping (codec r))))"
  let ?ps = "map (\<lambda>p. (column_name (fst p), cell_meaning (reading E) ?dflt p)) cells"
  from assms obtain p where p: "plan_cell api r e f = Ok p" "p \<in> set cells"
    using try_map_at by metis
  have "q = p" if "q \<in> set cells" "column_name (fst q) = column_name (fst p)" for q
  proof -
    from try_map_member [OF assms(1) that(1)] obtain g where "plan_cell api r e g = Ok q" by blast
    moreover from this p(1) have "g = f"
      using columns_apart [OF plan_cell_column plan_cell_column that(2)] by blast
    ultimately show ?thesis using p(1) by simp
  qed
  with p(2) have "map_of ?ps (column_name (fst p)) = Some (cell_meaning (reading E) ?dflt p)"
    by (intro map_of_only) auto
  with p(1) show ?thesis by (simp add: cell_held_def store_cells_def)
qed

lemma other_cell_kept:
  assumes "try_map (plan_cell api r e) fs = Ok cells" and "g \<notin> set fs"
    and "columns (field_map (mapping (codec r))) g = Some c"
  shows "store_cells W dflt cells row (column_name c) = row (column_name c)"
proof -
  have "column_name (fst q) \<noteq> column_name c" if "q \<in> set cells" for q
  proof
    assume same: "column_name (fst q) = column_name c"
    from try_map_member [OF assms(1) that] obtain f where "f \<in> set fs" "plan_cell api r e f = Ok q" by blast
    with columns_apart [OF plan_cell_column assms(3) same] assms(2) show False by blast
  qed
  then have "map_of (map (\<lambda>p. (column_name (fst p), cell_meaning W dflt p)) cells) (column_name c) = None"
    by (force simp: map_of_eq_None_iff)
  then show ?thesis by (simp add: store_cells_def)
qed

lemma inserted_row_holds:
  assumes "try_map (plan_cell api r e) (insertable_fields api (mapping (codec r))) = Ok cells"
  shows "row_holds E api r e
     (store_cells (reading E) (defaults E (path_of (table (mapping (codec r))))) cells row)"
  using planned_cell_held [OF assms] by (simp add: row_holds_def)

lemma identity_held:
  assumes "row_holds E api r e row"
  obtains c b where "plan_identity api r (entity_id (codec r) e) = Ok (c, b)"
    and "row (column_name c) = given_value (reading E) (scalar_kind c) b"
proof -
  from assms identity_inserted have held: "cell_held E api r e row (id_field (mapping (codec r)))"
    by (simp add: row_holds_def)
  then obtain p where p: "plan_cell api r e (id_field (mapping (codec r))) = Ok p"
    by (auto simp: cell_held_def split: result.splits)
  then obtain c b where "plan_identity api r (entity_id (codec r) e) = Ok (c, b)" "p = (c, Some b)"
    using identity_cell by blast
  with held p that show ?thesis by (simp add: cell_held_def cell_meaning_def)
qed

lemma has_identity_held:
  assumes "row_holds E api r e row" and "plan_identity api r i = Ok (c, b)"
  shows "has_identity (reading E) c b row \<longleftrightarrow> entity_id (codec r) e = i"
proof -
  from identity_held [OF assms(1)] obtain c' b' where
    id: "plan_identity api r (entity_id (codec r) e) = Ok (c', b')" and
    row: "row (column_name c') = given_value (reading E) (scalar_kind c') b'" .
  have "c' = c" using plan_identity_column [OF id] plan_identity_column [OF assms(2)] by simp
  with id have id': "plan_identity api r (entity_id (codec r) e) = Ok (c, b')" by simp
  have "has_identity (reading E) c b row \<longleftrightarrow>
      given_value (reading E) (scalar_kind c) b' = given_value (reading E) (scalar_kind c) b"
    using key_given [OF assms(2)] key_given [OF id'] row \<open>c' = c\<close>
    by (auto simp: has_identity_def equality lift3_def)
  also have "\<dots> \<longleftrightarrow> entity_id (codec r) e = i"
    using key_inj [OF id' assms(2)] id' assms(2) by auto
  finally show ?thesis .
qed

lemma replaced_row_holds:
  assumes "try_map (plan_cell api r e) (replaced_fields api r) = Ok cells" and "row_holds E api r old row"
  shows "row_holds E api r (merge old e)
     (store_cells (reading E) (defaults E (path_of (table (mapping (codec r))))) cells row)"
  unfolding row_holds_def
proof
  fix f assume f: "f \<in> set (insertable_fields api (mapping (codec r)))"
  show "cell_held E api r (merge old e)
     (store_cells (reading E) (defaults E (path_of (table (mapping (codec r))))) cells row) f"
  proof (cases "f \<in> set (replaced_fields api r)")
    case True
    with planned_cell_held [OF assms(1) True] merged_cells [OF f] show ?thesis by (simp add: cell_held_def)
  next
    case False
    from assms(2) f have held: "cell_held E api r old row f" by (simp add: row_holds_def)
    then obtain p where p: "plan_cell api r old f = Ok p" by (auto simp: cell_held_def split: result.splits)
    from other_cell_kept [OF assms(1) False plan_cell_column [OF p], where W = "reading E"] held merged_cells [OF f] False p
    show ?thesis by (simp add: cell_held_def)
  qed
qed

text \<open>What a statement does to the list of entities the rows hold.\<close>

abbreviation hold_all :: "'e list \<Rightarrow> 'v table_row list \<Rightarrow> bool" where
  "hold_all \<equiv> list_all2 (row_holds E api r)"

lemma hold_all_remove:
  assumes "hold_all es rows" and "plan_identity api r i = Ok (c, b)"
  shows "hold_all (filter (\<lambda>e. entity_id (codec r) e \<noteq> i) es)
     (filter (\<lambda>row. \<not> has_identity (reading E) c b row) rows)"
  using assms(1) by induction (simp_all add: has_identity_held [OF _ assms(2)])

lemma hold_all_replace:
  assumes "hold_all es rows" and "plan_identity api r i = Ok (c, b)"
    and "try_map (plan_cell api r e) (replaced_fields api r) = Ok cells"
  shows "hold_all (map (\<lambda>x. if entity_id (codec r) x = i then merge x e else x) es)
     (map (\<lambda>row. if has_identity (reading E) c b row
        then store_cells (reading E) (defaults E (path_of (table (mapping (codec r))))) cells row else row) rows)"
  using assms(1)
  by induction (auto simp: has_identity_held [OF _ assms(2)] intro: replaced_row_holds [OF assms(3)])

lemma hold_all_identity:
  assumes "hold_all es rows" and "plan_identity api r i = Ok (c, b)"
  shows "(\<exists>row \<in> set rows. has_identity (reading E) c b row) \<longleftrightarrow> i \<in> entity_id (codec r) ` set es"
  using assms(1) by induction (auto simp: has_identity_held [OF _ assms(2)])

lemma hold_all_member: "hold_all es rows \<Longrightarrow> row \<in> set rows \<Longrightarrow> \<exists>e \<in> set es. row_holds E api r e row"
  by (induction rule: list_all2_induct) auto

lemma hold_all_decode:
  "hold_all es rows \<Longrightarrow> list_all2 (\<lambda>row e.
     decode (codec r) (present E (selected_names api (mapping (codec r))) row) = Ok e) rows es"
  by (induction rule: list_all2_induct) (simp_all add: reads_back)

lemma hold_all_keys:
  assumes "hold_all es rows"
    and "columns (field_map (mapping (codec r))) (id_field (mapping (codec r))) = Some c"
    and "distinct (map (\<lambda>row. row (column_name c)) rows)"
  shows "distinct (map (entity_id (codec r)) es)"
proof -
  have same: "x (column_name c) = y (column_name c)"
    if "row_holds E api r d x" "row_holds E api r e y" "entity_id (codec r) d = entity_id (codec r) e"
    for d e x y
    using identity_held [OF that(1)] identity_held [OF that(2)] that(3) assms(2) plan_identity_column
    by (metis Pair_inject option.inject result.inject(1))
  have "entity_id (codec r) (es ! i) \<noteq> entity_id (codec r) (es ! j)" if "i < length es" "j < length es" "i \<noteq> j" for i j
    using assms(1,3) that same [of "es ! i" "rows ! i" "es ! j" "rows ! j"]
    by (auto simp: list_all2_conv_all_nth distinct_conv_nth)
  then show ?thesis by (simp add: distinct_conv_nth)
qed

lemma keys_of_hold_all:
  assumes "hold_all es (table_rows view (codec r) s)" and "distinct (map (entity_id (codec r)) es)"
  shows "keys_apart r (view s)"
  unfolding keys_apart_def
proof (intro allI impI)
  fix c assume c: "columns (field_map (mapping (codec r))) (id_field (mapping (codec r))) = Some c"
  let ?rows = "table_rows view (codec r) s"
  have cell: "\<exists>b. plan_identity api r (entity_id (codec r) e) = Ok (c, b) \<and>
      row (column_name c) = given_value (reading E) (scalar_kind c) b" if "row_holds E api r e row" for e row
    using identity_held [OF that] plan_identity_column c by (metis option.inject)
  have "?rows ! i \<noteq> ?rows ! j \<and> (?rows ! i) (column_name c) \<noteq> (?rows ! j) (column_name c)"
    if ij: "i < length ?rows" "j < length ?rows" "i \<noteq> j" for i j
  proof -
    from assms(1) ij have "row_holds E api r (es ! i) (?rows ! i)" "row_holds E api r (es ! j) (?rows ! j)"
      and "i < length es" "j < length es" by (simp_all add: list_all2_conv_all_nth)
    moreover from this assms(2) ij(3) have "entity_id (codec r) (es ! i) \<noteq> entity_id (codec r) (es ! j)"
      by (simp add: distinct_conv_nth)
    ultimately show ?thesis using cell key_inj by metis
  qed
  then show "distinct (map (\<lambda>row. row (column_name c)) ?rows)" by (auto simp: distinct_conv_nth)
qed

lemma entity_row_holds:
  assumes "row_holds E api r e row"
  shows "row_holds E api r e (entity_row E api r e)"
proof -
  have "\<exists>p. plan_cell api r e f = Ok p" if "f \<in> set (insertable_fields api (mapping (codec r)))" for f
    using assms that by (cases "plan_cell api r e f") (auto simp: row_holds_def cell_held_def)
  then have "is_ok (try_map (plan_cell api r e) (insertable_fields api (mapping (codec r))))"
    by (cases "try_map (plan_cell api r e) (insertable_fields api (mapping (codec r)))")
      (fastforce dest!: try_map_Err)+
  then show ?thesis
    by (cases "try_map (plan_cell api r e) (insertable_fields api (mapping (codec r)))")
      (simp_all add: entity_row_def inserted_row_holds)
qed

lemma rows_agree:
  assumes "row_holds E api r e row" and "written_fields api r F"
  shows "agree_on api (field_map (mapping (codec r))) F (entity_row E api r e) row"
  unfolding agree_on_def
proof (intro ballI allI impI)
  fix f c assume f: "f \<in> F" and c: "resolve api (field_map (mapping (codec r))) f = Ok c"
  from f assms(2) have "f \<in> set (insertable_fields api (mapping (codec r)))" by (auto simp: written_fields_def)
  with assms(1) entity_row_holds [OF assms(1)]
  have "cell_held E api r e row f" "cell_held E api r e (entity_row E api r e) f"
    by (simp_all add: row_holds_def)
  then show "entity_row E api r e (column_name c) = row (column_name c)"
    using c plan_cell_column by (fastforce simp: cell_held_def resolve_eq_Ok split: result.splits)
qed

lemma kept_by_entity:
  assumes "row_holds E api r e row" and "keeps (entity_judgement E api r) params = Some keep"
  shows "keep e = kept (reading E) api (field_map (mapping (codec r))) params row"
  using assms(2) agree_on_kept [OF rows_agree [OF assms(1)]]
  by (auto simp: entity_judgement_def split: if_splits)

lemma preceded_by_entity:
  assumes "row_holds E api r d x" and "row_holds E api r e y"
    and "precedes (entity_judgement E api r) params = Some before"
  shows "before d e = field_before (reading E) api (field_map (mapping (codec r))) (sort_keys params) x y"
  using assms(3) agree_on_field_before [OF rows_agree [OF assms(1)] rows_agree [OF assms(2)]]
  by (auto simp: entity_judgement_def split: if_splits)

lemma hold_all_find:
  assumes "hold_all es rows" and "distinct (map (entity_id (codec r)) es)"
    and "find_answers (reading E) api (field_map (mapping (codec r))) params rows out"
    and "list_all2 (\<lambda>row x. decode (codec r) (present E (selected_names api (mapping (codec r))) row) = Ok x) out xs"
  shows "finds (entity_judgement E api r) (entity_id (codec r)) params (entity_map (entity_id (codec r)) es) xs"
proof -
  let ?dec = "\<lambda>row. THE x. decode (codec r) (present E (selected_names api (mapping (codec r))) row) = Ok x"
  let ?J = "entity_judgement E api r" and ?m = "field_map (mapping (codec r))"
  have decoded: "ys = map ?dec ws" if "list_all2 (\<lambda>row x.
      decode (codec r) (present E (selected_names api (mapping (codec r))) row) = Ok x) ws ys" for ws ys
    using that by induction simp_all
  have held: "row_holds E api r (?dec row) row" if row: "row \<in> set rows" for row
    using hold_all_member [OF assms(1) row] reads_back by force
  have es: "es = map ?dec rows" by (rule decoded [OF hold_all_decode [OF assms(1)]])
  have xs: "xs = map ?dec out" by (rule decoded [OF assms(4)])
  have page: "answers (kept (reading E) api ?m params) (field_before (reading E) api ?m (sort_keys params))
      (map_option unat (limit params)) (unat (offset params)) rows out"
    using assms(3) by (simp add: find_answers_def kept_def [abs_def])
  have sub: "mset xs \<subseteq># mset es"
    unfolding xs es mset_map by (rule image_mset_subseteq_mono [OF answers_subset [OF page]])
  from image_mset_subseteq_mono [OF sub, of "entity_id (codec r)"]
  have "distinct (map (entity_id (codec r)) xs)" using distinct_submset [OF assms(2)] by simp
  moreover have "set xs \<subseteq> set es" using set_mset_mono [OF sub] by simp
  moreover have "\<exists>before. (\<forall>b. precedes ?J params = Some b \<longrightarrow> before = b) \<and>
      answers keep before (map_option unat (limit params)) (unat (offset params)) es xs"
    if keep: "keeps ?J params = Some keep" for keep
  proof (cases "precedes ?J params")
    case None
    have "answers keep (\<lambda>_ _. False) (map_option unat (limit params)) (unat (offset params)) es xs"
      unfolding es xs by (rule answers_map [OF answers_any_order [OF page]])
        (simp_all add: kept_by_entity [OF held keep])
    with None show ?thesis by auto
  next
    case (Some before)
    have "answers keep before (map_option unat (limit params)) (unat (offset params)) es xs"
      unfolding es xs by (rule answers_map [OF page])
        (simp_all add: kept_by_entity [OF held keep] preceded_by_entity [OF held held Some])
    with Some show ?thesis by auto
  qed
  moreover have "distinct es" using assms(2) by (simp add: distinct_map)
  ultimately show ?thesis
    using ran_entity_map [OF assms(2)] unfolding finds_def by metis
qed

lemma hold_all_count:
  assumes "hold_all es rows" and "keeps (entity_judgement E api r) params = Some keep"
  shows "length (filter (kept (reading E) api (field_map (mapping (codec r))) params) rows) =
     length (filter keep es)"
  using assms(1) by induction (simp_all add: kept_by_entity [OF _ assms(2)])

text \<open>The operations, one by one.\<close>

lemmas at_table = built mapping_built table_source_axioms

lemma representsE:
  assumes "represents E view api r s M"
  obtains es where "hold_all es (table_rows view (codec r) s)" and "distinct (map (entity_id (codec r)) es)"
    and "M = entity_map (entity_id (codec r)) es" and "length (table_rows view (codec r) s) = card (dom M)"
  using assms that card_entity_map unfolding represents_def by (metis list_all2_lengthD)

lemma representsI:
  "hold_all es (table_rows view (codec r) s) \<Longrightarrow> distinct (map (entity_id (codec r)) es) \<Longrightarrow>
     represents E view api r s (entity_map (entity_id (codec r)) es)"
  unfolding represents_def by blast

lemma represents_same: "view s' = view s \<Longrightarrow> represents E view api r s M \<Longrightarrow> represents E view api r s' M"
  by (simp add: represents_def)

lemma map_find:
  assumes "represents E view api r s M" and "admissible (R_Find params :: ('e, 'id) repo_operation)"
    and "repository_find api enc r params s = (Ok xs, s')"
  shows "map_answer (entity_judgement E api r) (entity_id (codec r)) merge (R_Find params) M (Entities xs) M \<and> represents E view api r s' M"
proof -
  from assms(2) have "groups_inhabited c" if "condition_of params = Some c" for c using that by simp
  from find_from_table [OF at_table this assms(3)] obtain out where
    same: "view s' = view s" and
    out: "find_answers (reading E) api (field_map (mapping (codec r))) params (table_rows view (codec r) s) out"
      "list_all2 (\<lambda>row e. decode (codec r) (present E (selected_names api (mapping (codec r))) row) = Ok e) out xs"
    by blast
  from assms(1) obtain es where es: "hold_all es (table_rows view (codec r) s)"
    "distinct (map (entity_id (codec r)) es)" and M: "M = entity_map (entity_id (codec r)) es"
    by (rule representsE)
  from hold_all_find [OF es out] represents_same [OF same assms(1)] M show ?thesis by simp
qed

lemma map_get:
  assumes "represents E view api r s M" and "repository_get api enc r i s = (Ok x, s')"
  shows "map_answer (entity_judgement E api r) (entity_id (codec r)) merge (R_Get i) M (Found x) M \<and> represents E view api r s' M"
proof -
  from get_from_table [OF at_table assms(2)] obtain c b where same: "view s' = view s" and
    id: "plan_identity api r i = Ok (c, b)" and
    x: "case x of
          None \<Rightarrow> \<forall>row \<in> set (table_rows view (codec r) s). \<not> has_identity (reading E) c b row
        | Some e \<Rightarrow> \<exists>row \<in> set (table_rows view (codec r) s). has_identity (reading E) c b row \<and>
            decode (codec r) (present E (selected_names api (mapping (codec r))) row) = Ok e"
    by blast
  from assms(1) obtain es where es: "hold_all es (table_rows view (codec r) s)"
    "distinct (map (entity_id (codec r)) es)" and M: "M = entity_map (entity_id (codec r)) es"
    by (rule representsE)
  have "x = M i"
  proof (cases x)
    case None
    with x hold_all_identity [OF es(1) id] show ?thesis by (simp add: M entity_map_None [symmetric])
  next
    case (Some e)
    with x obtain row where row: "row \<in> set (table_rows view (codec r) s)" "has_identity (reading E) c b row"
      "decode (codec r) (present E (selected_names api (mapping (codec r))) row) = Ok e" by auto
    from hold_all_member [OF es(1) row(1)] obtain d where d: "d \<in> set es" "row_holds E api r d row" by blast
    with reads_back row(3) have "d = e" by simp
    with d has_identity_held [OF d(2) id] row(2) have "M i = Some e"
      by (simp add: M entity_map_Some [OF es(2)])
    with Some show ?thesis by simp
  qed
  with represents_same [OF same assms(1)] show ?thesis by simp
qed

lemma map_count:
  assumes "represents E view api r s M" and "card (dom M) < 2 ^ 63"
    and "admissible (R_Count params :: ('e, 'id) repo_operation)"
    and "repository_count api enc gc r params s = (Ok k, s')"
  shows "map_answer (entity_judgement E api r) (entity_id (codec r)) merge (R_Count params) M (Number k) M \<and> represents E view api r s' M"
proof -
  let ?J = "entity_judgement E api r"
  from assms(1) obtain es where es: "hold_all es (table_rows view (codec r) s)"
    "distinct (map (entity_id (codec r)) es)" and M: "M = entity_map (entity_id (codec r)) es"
    and len: "length (table_rows view (codec r) s) = card (dom M)" by (rule representsE)
  from assms(3) have "groups_inhabited c" if "condition_of params = Some c" for c using that by simp
  from count_from_table [OF at_table this tallied _ assms(4)] len assms(2)
  have "view s' = view s" and k: "unat k = length (filter (kept (reading E) api (field_map (mapping (codec r))) params)
      (table_rows view (codec r) s))" by simp_all
  moreover have "unat k \<le> card (dom M)" unfolding k len [symmetric] by (rule length_filter_le)
  moreover have "unat k = card {e \<in> ran M. keep e}" if "keeps ?J params = Some keep" for keep
    unfolding k using hold_all_count [OF es(1) that] es(2) ran_entity_map [OF es(2)]
    by (simp add: M distinct_card [symmetric] distinct_map set_filter [symmetric] del: set_filter)
  ultimately show ?thesis using represents_same [OF _ assms(1)] by simp
qed

lemma map_remove:
  assumes "represents E view api r s M" and "card (dom M) < 2 ^ 63"
    and "repository_remove api enc r i s = (Ok found, s')"
  shows "map_answer (entity_judgement E api r) (entity_id (codec r)) merge (R_Remove i) M (Removed found) (M(i := None)) \<and>
     represents E view api r s' (M(i := None))"
proof -
  from assms(1) obtain es where es: "hold_all es (table_rows view (codec r) s)"
    "distinct (map (entity_id (codec r)) es)" and M: "M = entity_map (entity_id (codec r)) es"
    and len: "length (table_rows view (codec r) s) = card (dom M)" by (rule representsE)
  from remove_from_table [OF at_table _ assms(3)] len assms(2) obtain c b where
    id: "plan_identity api r i = Ok (c, b)" and
    found: "found \<longleftrightarrow> (\<exists>row \<in> set (table_rows view (codec r) s). has_identity (reading E) c b row)" and
    rows: "table_rows view (codec r) s' =
      filter (\<lambda>row. \<not> has_identity (reading E) c b row) (table_rows view (codec r) s)"
    by auto
  have "represents E view api r s' (entity_map (entity_id (codec r)) (filter (\<lambda>e. entity_id (codec r) e \<noteq> i) es))"
    using hold_all_remove [OF es(1) id] es(2)
    by (intro representsI) (simp_all add: rows distinct_map inj_on_def)
  moreover have "found \<longleftrightarrow> M i \<noteq> None"
    using hold_all_identity [OF es(1) id] found by (simp add: M entity_map_None)
  ultimately show ?thesis by (simp add: M entity_map_remove)
qed

text \<open>The writes: what an insert and what a replacement leave behind.\<close>

lemma after_insert:
  assumes "represents E view api r s M"
    and "try_map (plan_cell api r e) (insertable_fields api (mapping (codec r))) = Ok cells"
    and "table_rows view (codec r) s' = table_rows view (codec r) s @
      [store_cells (reading E) (defaults E (path_of (table (mapping (codec r))))) cells row]"
    and "keys_apart r (view s) \<Longrightarrow> keys_apart r (view s')"
  shows "M (entity_id (codec r) e) = None \<and> represents E view api r s' (M(entity_id (codec r) e \<mapsto> e))"
proof -
  from assms(1) obtain es where es: "hold_all es (table_rows view (codec r) s)"
    "distinct (map (entity_id (codec r)) es)" and M: "M = entity_map (entity_id (codec r)) es"
    by (rule representsE)
  have rows: "hold_all (es @ [e]) (table_rows view (codec r) s')"
    unfolding assms(3) using es(1) inserted_row_holds [OF assms(2)] by (simp add: list_all2_appendI)
  from inserted_row_holds [OF assms(2)] obtain c b where
    "plan_identity api r (entity_id (codec r) e) = Ok (c, b)" by (rule identity_held)
  note c = plan_identity_column [OF this]
  have "keys_apart r (view s')" by (rule assms(4) [OF keys_of_hold_all [OF es]])
  with c have "distinct (map (\<lambda>row. row (column_name c)) (table_rows view (codec r) s'))"
    by (simp add: keys_apart_def)
  from hold_all_keys [OF rows c this] have apart: "distinct (map (entity_id (codec r)) (es @ [e]))" .
  with representsI [OF rows apart] show ?thesis
    by (simp add: M entity_map_None entity_map_snoc)
qed

lemma after_replace:
  assumes "represents E view api r s M"
    and "try_map (plan_cell api r e) (replaced_fields api r) = Ok cells"
    and "plan_identity api r (entity_id (codec r) e) = Ok (c, b)"
    and "row \<in> set (table_rows view (codec r) s)" and "has_identity (reading E) c b row"
    and "table_rows view (codec r) s' =
      map (\<lambda>row. if has_identity (reading E) c b row
        then store_cells (reading E) (defaults E (path_of (table (mapping (codec r))))) cells row else row)
      (table_rows view (codec r) s)"
  shows "\<exists>old. M (entity_id (codec r) e) = Some old \<and> row_holds E api r old row \<and>
     represents E view api r s' (M(entity_id (codec r) e \<mapsto> merge old e))"
proof -
  from assms(1) obtain es where es: "hold_all es (table_rows view (codec r) s)"
    "distinct (map (entity_id (codec r)) es)" and M: "M = entity_map (entity_id (codec r)) es"
    by (rule representsE)
  from hold_all_member [OF es(1) assms(4)] obtain old where
    old: "old \<in> set es" "row_holds E api r old row" by blast
  have key: "entity_id (codec r) old = entity_id (codec r) e"
    using has_identity_held [OF old(2) assms(3)] assms(5) by simp
  have "represents E view api r s' (entity_map (entity_id (codec r))
      (map (\<lambda>x. if entity_id (codec r) x = entity_id (codec r) e then merge x e else x) es))"
    using hold_all_replace [OF es(1) assms(3,2)] es(2)
      keys_replace [where key = "entity_id (codec r)" and merge = merge, OF merged_identity]
    by (intro representsI) (simp_all only: assms(6))
  moreover have "M (entity_id (codec r) e) = Some old"
    using old(1) key by (simp add: M entity_map_Some [OF es(2)])
  ultimately show ?thesis
    using old(2) entity_map_replace [where merge = merge, OF es(2) old(1) merged_identity, of e] by (auto simp: M key)
qed

lemma map_insert:
  assumes "represents E view api r s M" and "repository_insert api enc r e s = (Ok (), s')"
  shows "map_answer (entity_judgement E api r) (entity_id (codec r)) merge (R_Insert e) M Written (M(entity_id (codec r) e \<mapsto> e)) \<and>
     represents E view api r s' (M(entity_id (codec r) e \<mapsto> e))"
proof -
  from assms(2) obtain q a reply where "apply_sql (repo_source r) q a s = (Ok reply, s')"
    by (auto simp: repository_insert_def send_Ok)
  note keys = primary_key [OF this]
  from insert_into_table [OF at_table assms(2)] obtain cells where
    "try_map (plan_cell api r e) (insertable_fields api (mapping (codec r))) = Ok cells" and
    "table_rows view (codec r) s' = table_rows view (codec r) s @
      [store_cells (reading E) (defaults E (path_of (table (mapping (codec r))))) cells
         (defaults E (path_of (table (mapping (codec r)))))]"
    by (auto simp: Let_def)
  from after_insert [OF assms(1) this keys] show ?thesis by simp
qed

lemma map_insert_returning:
  assumes "represents E view api r s M" and "repository_insert_returning api enc r e s = (Ok x, s')"
  shows "map_answer (entity_judgement E api r) (entity_id (codec r)) merge (R_Insert_Returning e) M (Stored x) (M(entity_id (codec r) e \<mapsto> e)) \<and>
     represents E view api r s' (M(entity_id (codec r) e \<mapsto> e))"
proof -
  from assms(2) obtain q a row where "apply_one (repo_source r) q a s = (Ok row, s')"
    by (auto simp: repository_insert_returning_def send_Ok)
  note keys = primary_key_one [OF this]
  from insert_returning_from_table [OF at_table assms(2)] obtain cells where
    cells: "try_map (plan_cell api r e) (insertable_fields api (mapping (codec r))) = Ok cells" and
    rows: "table_rows view (codec r) s' = table_rows view (codec r) s @
      [store_cells (reading E) (defaults E (path_of (table (mapping (codec r))))) cells
         (defaults E (path_of (table (mapping (codec r)))))]" and
    x: "decode (codec r) (present E (selected_names api (mapping (codec r)))
      (store_cells (reading E) (defaults E (path_of (table (mapping (codec r))))) cells
         (defaults E (path_of (table (mapping (codec r))))))) = Ok x"
    by auto
  from x reads_back [OF inserted_row_holds [OF cells]] have "x = e" by simp
  with after_insert [OF assms(1) cells rows keys] show ?thesis by simp
qed

lemma map_replace:
  assumes "represents E view api r s M" and "card (dom M) < 2 ^ 63"
    and "repository_replace api enc r e s = (Ok (), s')"
  shows "\<exists>M'. map_answer (entity_judgement E api r) (entity_id (codec r)) merge (R_Replace e) M Written M' \<and> represents E view api r s' M'"
proof -
  from assms(1) obtain es where "length (table_rows view (codec r) s) = card (dom M)"
    by (rule representsE)
  with assms(2) have "length (table_rows view (codec r) s) < 2 ^ 63" by simp
  from replace_in_table [OF at_table this assms(3)] obtain cells c b row where
    plan: "try_map (plan_cell api r e) (replaced_fields api r) = Ok cells"
      "plan_identity api r (entity_id (codec r) e) = Ok (c, b)"
      "row \<in> set (table_rows view (codec r) s)" "has_identity (reading E) c b row" and
    change: "view s' = (view s)(path_of (table (mapping (codec r))) :=
      map (\<lambda>row. if has_identity (reading E) c b row
        then store_cells (reading E) (defaults E (path_of (table (mapping (codec r))))) cells row else row)
      (table_rows view (codec r) s))"
    by blast
  have "table_rows view (codec r) s' =
      map (\<lambda>row. if has_identity (reading E) c b row
        then store_cells (reading E) (defaults E (path_of (table (mapping (codec r))))) cells row else row)
      (table_rows view (codec r) s)" unfolding change by simp
  from after_replace [OF assms(1) plan this] show ?thesis by auto
qed

lemma map_replace_returning:
  assumes "represents E view api r s M" and "repository_replace_returning api enc r e s = (Ok x, s')"
  shows "\<exists>M'. map_answer (entity_judgement E api r) (entity_id (codec r)) merge (R_Replace_Returning e) M (Stored x) M' \<and>
     represents E view api r s' M'"
proof -
  from replace_returning_from_table [OF at_table assms(2)] obtain cells c b row where
    plan: "try_map (plan_cell api r e) (replaced_fields api r) = Ok cells"
      "plan_identity api r (entity_id (codec r) e) = Ok (c, b)"
      "row \<in> set (table_rows view (codec r) s)" "has_identity (reading E) c b row" and
    x: "decode (codec r) (present E (selected_names api (mapping (codec r)))
      (store_cells (reading E) (defaults E (path_of (table (mapping (codec r))))) cells row)) = Ok x" and
    rows: "table_rows view (codec r) s' =
      map (\<lambda>row. if has_identity (reading E) c b row
        then store_cells (reading E) (defaults E (path_of (table (mapping (codec r))))) cells row else row)
      (table_rows view (codec r) s)"
    by auto
  from after_replace [OF assms(1) plan rows] obtain old where
    old: "M (entity_id (codec r) e) = Some old" "row_holds E api r old row"
      "represents E view api r s' (M(entity_id (codec r) e \<mapsto> merge old e))" by blast
  from reads_back [OF replaced_row_holds [OF plan(1) old(2)]] x have "x = merge old e" by simp
  with old show ?thesis by auto
qed

end

sublocale entity_table \<subseteq> store: map_store "entity_judgement E api r" "entity_id (codec r)" merge "represents E view api r"
    "repo_do api enc gc r" "2 ^ 63"
proof
  show "finite (dom M)" if "represents E view api r s M" for s M
    using that by (auto simp: represents_def)
  show "\<exists>M'. map_answer (entity_judgement E api r) (entity_id (codec r)) merge p M x M' \<and> represents E view api r s' M'"
    if "represents E view api r s M" "card (dom M) < 2 ^ 63" "admissible p" "repo_do api enc gc r p s = (Ok x, s')"
    for s M p x s'
  proof (cases p)
    case (R_Replace e)
    with that(4) have "repository_replace api enc r e s = (Ok (), s')" "x = Written" by auto
    with map_replace [OF that(1,2)] R_Replace show ?thesis by metis
  next
    case (R_Replace_Returning e)
    with that(4) obtain y where "repository_replace_returning api enc r e s = (Ok y, s')" "x = Stored y" by auto
    with map_replace_returning [OF that(1)] R_Replace_Returning show ?thesis by metis
  qed (use that in \<open>auto dest: map_find map_get map_count map_remove map_insert map_insert_returning\<close>)
qed

context entity_table
begin

lemmas operations_answer_map = store.sequence_answers_map

end

end
