(* ===== verification/Repository_Contract.thy ===== *)
theory Repository_Contract
  imports Repository_Map
begin

text \<open>
  The contract of the repository, for sequences of operations over any source that executes
  statements by their meaning, with a server that enforces a primary key to show that the
  hypotheses can hold together.
\<close>

section \<open>A server with a primary key\<close>

text \<open>A statement whose result breaks the constraint fails and changes nothing.\<close>

definition unique_violation :: sqlx_error where
  "unique_violation =
     Sqlx_Database \<lparr>code = Some ''23505'', db_kind = Unique_Violation, db_message = ''duplicate key''\<rparr>"

definition constrained ::
  "('d \<Rightarrow> bool) \<Rightarrow> ('d \<Rightarrow> ('a, sqlx_error) result \<times> 'd) \<Rightarrow> 'd \<Rightarrow> ('a, sqlx_error) result \<times> 'd" where
  "constrained ok run d =
     (case run d of (x, d') \<Rightarrow> if ok d' then (x, d') else (Err unique_violation, d))"

definition constrained_executor :: "('d \<Rightarrow> bool) \<Rightarrow> ('d, 'row) executor \<Rightarrow> ('d, 'row) executor" where
  "constrained_executor ok exec =
     exec\<lparr>run_execute := (\<lambda>q a. constrained ok (run_execute exec q a)),
          run_fetch_one := (\<lambda>q a. constrained ok (run_fetch_one exec q a))\<rparr>"

lemma constrained_Ok: "constrained ok run d = (Ok x, d') \<longleftrightarrow> run d = (Ok x, d') \<and> ok d'"
  by (auto simp: constrained_def split: prod.splits result.splits)

lemma constrained_serves: "serves E contents exec \<Longrightarrow> serves E contents (constrained_executor ok exec)"
  by (simp add: serves_def constrained_executor_def constrained_Ok)

section \<open>An instance\<close>

text \<open>
  Accounts, identified by a 64-bit number, in a table with the fields of the sample mapping.  The server compares
  texts; it hands out a row as its two texts, and a count as a number.
\<close>

type_synonym account = "64 word \<times> string"

definition account_engine :: "(string, nat + string option \<times> string option) sql_engine" where
  "account_engine =
     \<lparr>reading = reading store_engine, defaults = (\<lambda>_ _. None),
      present = (\<lambda>_ row. Inr (row ''id'', row ''display_name'')), tally = Inl\<rparr>"

definition account_mapping :: "string \<Rightarrow> pg_entity_mapping" where
  "account_mapping t = sample_mapping\<lparr>table := \<lparr>schema = Some (Pg_Identifier ''app''), table_name = Pg_Identifier t\<rparr>\<rparr>"

definition account_codec ::
  "string \<Rightarrow> (account, 64 word, nat + string option \<times> string option) pg_entity_codec" where
  "account_codec t =
     \<lparr>mapping = account_mapping t,
      decode = (\<lambda>given. case given of
          Inr (Some i, Some n) \<Rightarrow>
            (case read_nat i of Some k \<Rightarrow> Ok (of_nat k, n) | None \<Rightarrow> Err (err_validation ''identity''))
        | _ \<Rightarrow> Err (err_validation ''account'')),
      encode_value = (\<lambda>(i, n) f. Ok (Pg_Text n)),
      id_value = (\<lambda>i. Ok (Pg_U64 i)), entity_id = fst\<rparr>"

definition account_keys :: "string database \<Rightarrow> bool" where
  "account_keys d \<longleftrightarrow>
     (\<forall>t \<in> {''users'', ''orders''}. distinct (map (\<lambda>row. row ''id'') (d (Some ''app'', t))))"

definition account_count :: "nat + string option \<times> string option \<Rightarrow> (64 word, sqlx_error) result" where
  "account_count given = (case given of Inl n \<Rightarrow> Ok (word_of_nat n) | Inr _ \<Rightarrow> Err (Sqlx_Decode ''count''))"

text \<open>A replaced account keeps its number and takes the given name.\<close>

definition rename :: "account \<Rightarrow> account \<Rightarrow> account" where
  "rename old new = (fst old, snd new)"

definition account_repository ::
  "string \<Rightarrow> ('s, nat + string option \<times> string option) pg_source
     \<Rightarrow> ('s, account, 64 word, nat + string option \<times> string option) pg_repository" where
  "account_repository t src =
     \<lparr>repo_source = src, codec = account_codec t, compiler = field_map sample_mapping\<rparr>"

lemma account_simps [simp]:
  "codec (account_repository t src) = account_codec t"
  "compiler (account_repository t src) = field_map sample_mapping"
  "repo_source (account_repository t src) = src"
  "mapping (account_codec t) = account_mapping t" "entity_id (account_codec t) = fst"
  by (simp_all add: account_repository_def account_codec_def)

lemma account_mapping_simps [simp]:
  "field_map (account_mapping t) = field_map sample_mapping" "id_field (account_mapping t) = Field_Name ''id''"
  "path_of (table (account_mapping t)) = (Some ''app'', t)"
  "fields_matching api (account_mapping t) P = fields_matching api sample_mapping P"
  "ordered_fields (account_mapping t) = ordered_fields sample_mapping"
  by (simp_all add: account_mapping_def path_of_def fields_matching_def)

lemma account_selections [simp]:
  "insertable_fields api (account_mapping t) = insertable_fields api sample_mapping"
  "updatable_fields api (account_mapping t) = updatable_fields api sample_mapping"
  "selectable_fields api (account_mapping t) = selectable_fields api sample_mapping"
  "matching_columns api (account_mapping t) P = matching_columns api sample_mapping P"
  unfolding field_selection_defs matching_columns_def by simp_all

lemma mapping_ok_account:
  assumes "t \<in> {''users'', ''orders''}"
  shows "mapping_ok (account_mapping t)"
proof -
  have "table_ok (table (account_mapping t))"
    using assms by (auto simp: account_mapping_def table_ok_def ident_ok_def char_class_defs)
  with mapping_ok_sample show ?thesis by (simp add: mapping_ok_def)
qed

lemma account_plans:
  "plan_identity api (account_repository t src) i =
     Ok (sample_column ''id'' Kind_Numeric IMMUTABLE, Bind_Numeric (show_nat (unat i)))"
  "plan_cell api (account_repository t src) (i, n) (Field_Name ''id'') =
     Ok (sample_column ''id'' Kind_Numeric IMMUTABLE, Some (Bind_Numeric (show_nat (unat i))))"
  "plan_cell api (account_repository t src) (i, n) (Field_Name ''name'') =
     Ok (sample_column ''display_name'' Kind_Text PERSISTED, Some (Bind_Text n))"
  by (simp_all add: plan_cell_def plan_identity_def resolve_def entity_value_def account_codec_def
      normalize_entity_binding_def value_validate_def bind_pg_value_def)

lemma account_reading:
  "given_value (reading account_engine) Kind_Numeric (Bind_Numeric s) = Some s"
  "given_value (reading account_engine) Kind_Text (Bind_Text s) = Some s"
  "relation (reading account_engine) op = (=)" "defaults account_engine t name = None"
  by (simp_all add: given_value_def placeholder_cast_def argument_of_def account_engine_def store_engine_def)

lemma account_row_holds:
  "row_holds account_engine api (account_repository t src) (i, n) row \<longleftrightarrow>
     row ''id'' = Some (show_nat (unat i)) \<and> row ''display_name'' = Some n"
  by (simp add: row_holds_def cell_held_def cell_meaning_def account_plans account_reading)

lemma account_column:
  "columns (field_map sample_mapping) f = Some c \<Longrightarrow>
     f = Field_Name ''id'' \<and> column_name c = ''id'' \<or>
     f = Field_Name ''name'' \<and> column_name c = ''display_name'' \<or>
     f = Field_Name ''created_at'' \<and> column_name c = ''created_at''"
  by (auto simp: sample_mapping_def sample_column_def column_new_def split: if_splits)

lemma account_keys_apart: "t \<in> {''users'', ''orders''} \<Longrightarrow> account_keys d \<Longrightarrow> keys_apart (account_repository t src) d"
  by (auto simp: keys_apart_def account_keys_def)

lemma account_built: "repository_new api src (account_codec t) = Ok (account_repository t src)"
  by (simp add: repository_new_def and_then_eq_Ok mapping_validate_eq_Ok account_repository_def permission_defs)
    (simp add: sample_mapping_def)

text \<open>The hypotheses hold over every source whose server keeps the key.\<close>

lemma account_entity_table:
  assumes "t \<in> {''users'', ''orders''}" and "table_source account_engine view src"
    and "\<And>q a s reply s'. apply_sql src q a s = (Ok reply, s') \<Longrightarrow> account_keys (view s')"
    and "\<And>q a s given s'. apply_one src q a s = (Ok given, s') \<Longrightarrow> account_keys (view s')"
  shows "entity_table account_engine view (account_repository t src) sample_api account_count rename"
proof (intro entity_table.intro entity_table_axioms.intro)
  let ?r = "account_repository t src"
  show "table_source account_engine view (repo_source ?r)" using assms(2) by simp
  show "repository_new sample_api (repo_source ?r) (codec ?r) = Ok ?r"
    by (simp add: account_built)
  show "account_count (tally account_engine k) = Ok (word_of_nat k)" for k
    by (simp add: account_count_def account_engine_def)
  show "i = j"
    if "plan_identity sample_api ?r i = Ok (c, b)" "plan_identity sample_api ?r j = Ok (c, b')"
      "given_value (reading account_engine) (scalar_kind c) b = given_value (reading account_engine) (scalar_kind c) b'"
    for i j c b b'
    using that by (auto simp: account_plans account_reading word_unat_eq_iff)
  show "decode (codec ?r) (present account_engine (selected_names sample_api (mapping (codec ?r))) row) = Ok e"
    if "row_holds account_engine sample_api ?r e row" for e row
    using that account_row_holds [of sample_api t src "fst e" "snd e" row]
    by (cases e) (simp add: account_codec_def, simp add: account_engine_def)
  show "f = g"
    if "columns (field_map (mapping (codec ?r))) f = Some c"
      "columns (field_map (mapping (codec ?r))) g = Some d" "column_name c = column_name d" for f g c d
    using that account_column [of f c] account_column [of g d] by auto
  show "plan_cell sample_api ?r (rename old e) f =
      plan_cell sample_api ?r (if f \<in> set (replaced_fields sample_api ?r) then e else old) f"
    if "f \<in> set (insertable_fields sample_api (mapping (codec ?r)))" for old e f
    using that by (cases old; cases e) (auto simp: replaced_fields_def rename_def account_plans)
qed (auto simp: account_plans account_reading rename_def mapping_ok_account [OF assms(1)]
    intro: account_keys_apart [OF assms(1)] assms(3,4))

definition account_pool :: "(string database world, nat + string option \<times> string option) pg_source" where
  "account_pool = pool_source 0 (constrained_executor account_keys (reference_executor account_engine))"

interpretation accounts:
  entity_table account_engine db "account_repository ''users'' account_pool" sample_api encodes_all account_count rename
proof (rule account_entity_table, simp)
  show "table_source account_engine db account_pool"
    unfolding account_pool_def by (rule pool_serves [OF constrained_serves [OF serves_reference]])
qed (auto simp: account_pool_def pool_source_def constrained_executor_def constrained_Ok dest!: issue_Ok_db)

text \<open>Inserts and removals that the server accepts.\<close>

lemma account_pool_apply:
  "apply_sql account_pool q a s =
     issue (Statement 0 Execute q a)
       (constrained account_keys (run_execute (reference_executor account_engine) q a)) s"
  by (simp add: account_pool_def pool_source_def constrained_executor_def)

lemma account_pool_fetch_one:
  "fetch_one account_pool q a s =
     issue (Statement 0 Fetch_One q a)
       (constrained account_keys (run_fetch_one (reference_executor account_engine) q a)) s"
  by (simp add: account_pool_def pool_source_def constrained_executor_def)

lemma account_insert_statement:
  assumes "t \<in> {''users'', ''orders''}"
  shows "\<exists>q a x ret. compile_insert sample_api encodes_all (account_repository t src) (i, n) False = Ok (q, a) \<and>
     read_statement q = Some (S_Insert (Some ''app'', t) x ret)"
proof -
  obtain q a where p: "compile_insert sample_api encodes_all (account_repository t src) (i, n) False = Ok (q, a)"
    by (auto simp: compile_insert_eq account_plans compiled_arguments_def into_arguments_def
        from_bindings_def arguments_add_def)
  from prepared_insert [OF account_built _ p] mapping_ok_account [OF assms] p show ?thesis by fastforce
qed

lemma account_insert_returns:
  assumes "account_keys (db s)" and "db s (Some ''app'', ''users'') = []"
  shows "\<exists>s'. repository_insert sample_api encodes_all (account_repository ''users'' account_pool) (i, n) s = (Ok (), s') \<and>
     account_keys (db s')"
proof -
  from account_insert_statement [of "''users''" account_pool i n] obtain q a x ret where
    p: "compile_insert sample_api encodes_all (account_repository ''users'' account_pool) (i, n) False = Ok (q, a)" and
    "read_statement q = Some (S_Insert (Some ''app'', ''users'') x ret)" by auto
  then show ?thesis
    using assms by (simp add: repository_insert_def account_pool_apply issue_eq constrained_def
        reference_executor_def run_text_def Let_def account_keys_def)
qed

lemma account_remove_returns:
  assumes "account_keys (db s)"
  shows "\<exists>found s'. repository_remove sample_api encodes_all (account_repository ''users'' account_pool) i s = (Ok found, s') \<and>
     account_keys (db s')"
proof -
  let ?r = "account_repository ''users'' account_pool"
  obtain q a where p: "prepare_remove sample_api encodes_all ?r i = Ok (q, a)"
    by (simp add: prepare_remove_def compiled_id_eq account_plans compiled_arguments_def
        into_arguments_def from_bindings_def arguments_add_def)
  from prepared_remove [OF accounts.built accounts.mapping_built] p obtain c where
    "read_statement q = Some (S_Delete (Some ''app'', ''users'') (equality c 1))" by fastforce
  moreover have "distinct (map (\<lambda>row. row ''id'') (filter keep (db s (Some ''app'', ''users''))))" for keep
    using assms by (simp add: account_keys_def distinct_map_filter)
  ultimately show ?thesis
    using assms by (simp add: repository_remove_def p account_pool_apply issue_eq constrained_def reference_executor_def
        run_text_def Let_def account_keys_def)
qed

text \<open>Accounts with a given name, counted by the server and told by the account.\<close>

definition named :: "string \<Rightarrow> find_params" where
  "named n = \<lparr>condition_of = Some (Predicate (Field_Name ''name'') Op_Eq (Some (Scalar_String n))),
     sort_keys = [], limit = None, offset = 0\<rparr>"

lemma condition_of_named [simp]:
  "condition_of (named n) = Some (Predicate (Field_Name ''name'') Op_Eq (Some (Scalar_String n)))"
  by (simp add: named_def)

lemma account_row:
  "entity_row account_engine api (account_repository t src) (i, n) ''display_name'' = Some n"
  by (simp add: entity_row_def account_plans store_cells_def cell_meaning_def account_reading)

lemma account_name_binding: "normalize_binding sample_api Kind_Text (Scalar_String n) = Ok (Bind_Text n)"
  by (simp add: normalize_binding_def sample_api_def bind_scalar_def)

lemma account_collates: "collates (reading account_engine) w = id"
  by (simp add: account_engine_def store_engine_def fun_eq_iff)

lemma account_judgement:
  "keeps (entity_judgement account_engine sample_api (account_repository t src)) (named n) = Some (\<lambda>e. snd e = n)"
proof -
  have kept_named: "kept (reading account_engine) sample_api (field_map sample_mapping) (named n)
      (entity_row account_engine sample_api (account_repository t src) e) \<longleftrightarrow> snd e = n" for e
    by (cases e)
      (auto simp: kept_def named_def resolve_def predicate_means_def field_value_def account_row operands_def
        the_bindings_def account_name_binding account_reading lift3_def account_collates)
  have "written_fields sample_api (account_repository t src) (filter_fields (named n))"
    by (simp add: written_fields_def filter_fields_def named_def)
  then show ?thesis by (simp add: entity_judgement_def kept_named)
qed

lemma account_count_returns:
  assumes "length (db s (Some ''app'', ''users'')) < 2 ^ 63" and "account_keys (db s)"
  shows "\<exists>k s'. repository_count sample_api encodes_all account_count
       (account_repository ''users'' account_pool) (named n) s = (Ok k, s') \<and> db s' = db s"
proof -
  let ?r = "account_repository ''users'' account_pool"
  obtain q a where p: "prepare_count sample_api encodes_all ?r (named n) = Ok (q, a)"
    by (simp add: prepare_count_def compile_count_eq plan_where_def named_def plan_predicate_def plan_comparison_def
        resolve_def account_name_binding into_sqlx_parts_def into_arguments_def compiled_arguments_def
        from_bindings_def arguments_add_def params_validate_sample finish_def add_where_def)
  from prepared_count [OF accounts.built accounts.mapping_built p] obtain tail where
    q: "read_statement q = Some (S_Count (Some ''app'', ''users'') tail)"
    "order_of tail = []" "limit_of tail = None" "offset_of tail = None"
    by (auto simp: named_def)
  define m where "m = length (filtered (reading account_engine) a tail (db s (Some ''app'', ''users'')))"
  have "m < 2 ^ 63" unfolding m_def filtered_def by (rule le_less_trans [OF length_filter_le assms(1)])
  then have "count_of_row account_count (tally account_engine m) = Ok (word_of_nat m)"
    by (simp add: count_of_row_def account_count_def account_engine_def u64_try_from_i64_def
        sint_word_of_nat_64)
  with q assms show ?thesis
    by (simp add: repository_count_def p account_pool_fetch_one issue_eq constrained_def
        reference_executor_def run_text_def m_def)
qed

text \<open>A state in which one account has been inserted.\<close>

lemma account_inserted:
  obtains s1 where
    "repository_insert sample_api encodes_all (account_repository ''users'' account_pool) (9, ''Ada'') (store_of []) =
       (Ok (), s1)"
    and "represents account_engine db sample_api (account_repository ''users'' account_pool) s1 [9 \<mapsto> (9, ''Ada'')]"
    and "account_keys (db s1)" and "length (db s1 (Some ''app'', ''users'')) < 2 ^ 63"
proof -
  let ?r = "account_repository ''users'' account_pool"
  have start: "represents account_engine db sample_api ?r (store_of []) Map.empty"
    by (simp add: represents_def store_of_def)
  have "account_keys (db (store_of []))" "db (store_of []) (Some ''app'', ''users'') = []"
    by (simp_all add: store_of_def account_keys_def)
  from account_insert_returns [OF this] obtain s1 where
    s1: "repository_insert sample_api encodes_all ?r (9, ''Ada'') (store_of []) = (Ok (), s1)"
      "account_keys (db s1)" by blast
  from accounts.map_insert [OF start s1(1)] have M: "represents account_engine db sample_api ?r s1 [9 \<mapsto> (9, ''Ada'')]"
    by simp
  then have "length (db s1 (Some ''app'', ''users'')) = card (dom [9 :: 64 word \<mapsto> (9 :: 64 word, ''Ada'')])"
    by (rule accounts.representsE) (simp only: account_simps account_mapping_simps)
  then have "length (db s1 (Some ''app'', ''users'')) < 2 ^ 63" by simp
  with s1 M that show ?thesis by blast
qed

section \<open>Sequences of operations\<close>

text \<open>
  C1: a repository is a map from identities to entities.  Take a source that executes statements by
  their meaning, a mapping whose identity is the table's primary key and is written with the entity,
  and a codec that reads back what it writes.  Any sequence of operations that succeeds answers as
  over a map: a get returns what was last written, an insert adds a new key, a replacement changes
  the replaced fields of the entity with that key (\<open>merge\<close> keeps its immutable ones), a removal acts
  on that key only.  A find returns entities of the map, each once; a condition over written fields
  is decided on the entities, so that the find is a page of the entities that satisfy it, in an
  order that respects the sort keys, and a count is their number.
\<close>

theorem repository_is_a_map:
  assumes "entity_table E view r api gc merge" and "represents E view api r s M"
    and "card (dom M) + length ops \<le> 2 ^ 63" and "list_all admissible ops"
    and "do_all (repo_do api enc gc r) ops s = (Ok replies, s')"
  shows "\<exists>M'. map_answers (entity_judgement E api r) (entity_id (codec r)) merge ops M replies M' \<and> represents E view api r s' M'"
  by (rule entity_table.operations_answer_map [OF assms])

theorem repository_is_a_map_witness:
  "fst (do_all (repo_do sample_api encodes_all account_count (account_repository ''users'' account_pool))
       [R_Insert (9, ''Ada''), R_Count (named ''Ada''), R_Count (named ''Bob''), R_Remove 9, R_Remove 9] (store_of [])) =
     Ok [Written, Number 1, Number 0, Removed True, Removed False]"
proof -
  let ?r = "account_repository ''users'' account_pool"
  let ?ops = "[R_Insert (9, ''Ada''), R_Count (named ''Ada''), R_Count (named ''Bob''), R_Remove 9, R_Remove 9]"
  have start: "represents account_engine db sample_api ?r (store_of []) Map.empty"
    by (simp add: represents_def store_of_def)
  obtain s1 where
    s1: "repository_insert sample_api encodes_all ?r (9, ''Ada'') (store_of []) = (Ok (), s1)" "account_keys (db s1)"
    and small: "length (db s1 (Some ''app'', ''users'')) < 2 ^ 63"
    by (rule account_inserted)
  note counts = account_count_returns [OF small s1(2)]
  from counts obtain k2 s2 where
    s2: "repository_count sample_api encodes_all account_count ?r (named ''Ada'') s1 = (Ok k2, s2)" "db s2 = db s1"
    by blast
  from account_count_returns [of s2] s1(2) s2(2) obtain k3 s3 where
    s3: "repository_count sample_api encodes_all account_count ?r (named ''Bob'') s2 = (Ok k3, s3)" "db s3 = db s2"
    using small by metis
  from s1(2) s2(2) s3(2) have "account_keys (db s3)" by simp
  from account_remove_returns [OF this] obtain f4 s4 where
    s4: "repository_remove sample_api encodes_all ?r 9 s3 = (Ok f4, s4)" "account_keys (db s4)" by blast
  from account_remove_returns [OF s4(2)] obtain f5 s5 where
    s5: "repository_remove sample_api encodes_all ?r 9 s4 = (Ok f5, s5)" by blast
  have run: "do_all (repo_do sample_api encodes_all account_count ?r) ?ops (store_of []) =
      (Ok [Written, Number k2, Number k3, Removed f4, Removed f5], s5)"
    by (simp add: s1 s2 s3 s4 s5)
  obtain M' where "map_answers (entity_judgement account_engine sample_api ?r) (entity_id (codec ?r)) rename
      ?ops Map.empty [Written, Number k2, Number k3, Removed f4, Removed f5] M'"
    using repository_is_a_map [OF accounts.entity_table_axioms start _ _ run] by auto
  moreover have "{e. e = (9 :: 64 word, ''Ada'') \<and> snd e = n} = (if n = ''Ada'' then {(9, ''Ada'')} else {})" for n
    by auto
  ultimately have "unat k2 = 1" "unat k3 = 0" and "f4" "\<not> f5" by (auto simp: account_judgement)
  then have "k2 = 1" "k3 = 0" by (simp_all add: word_unat_eq_iff)
  with \<open>f4\<close> \<open>\<not> f5\<close> show ?thesis unfolding run by simp
qed

end
