(* ===== verification/Repository_Failures.thy ===== *)
theory Repository_Failures
  imports Repository_Contract
begin

text \<open>
  Failures over the store.  A driver that reports a failure may still have had its statement carried
  out, when the reply was lost: the ambiguous write outcomes of the README.  What an operation that
  fails has done to the map follows from what its failed statement has done to the data: nothing, or
  the whole of what it would have done with success, and nothing for sure unless the error carries
  such a driver failure; sequences go on from there.
\<close>

section \<open>Sequences with failures\<close>

fun try_all :: "('op \<Rightarrow> 's \<Rightarrow> 'a soap_result \<times> 's) \<Rightarrow> 'op list \<Rightarrow> 's \<Rightarrow> 'a soap_result list \<times> 's" where
  "try_all f [] s = ([], s)"
| "try_all f (p # ps) s =
     (case f p s of (x, s1) \<Rightarrow> case try_all f ps s1 of (xs, s2) \<Rightarrow> (x # xs, s2))"

text \<open>
  Failures that leave no doubt: the ones the crate itself raises, a database error, since the server
  takes a failing statement back as a whole, and a row that was not found.  Any other driver failure
  may have hit the reply of a statement that was carried out.
\<close>

definition certain :: "soap_error \<Rightarrow> bool" where
  "certain e \<longleftrightarrow>
     (case source e of
        Some (From_Sqlx d) \<Rightarrow> (case d of Sqlx_Database _ \<Rightarrow> True | Sqlx_Row_Not_Found \<Rightarrow> True | _ \<Rightarrow> False)
      | _ \<Rightarrow> True)"

text \<open>The map after an operation that failed with \<open>e\<close>.\<close>

definition map_failure ::
  "'e judgement \<Rightarrow> ('e \<Rightarrow> 'id) \<Rightarrow> ('e \<Rightarrow> 'e \<Rightarrow> 'e) \<Rightarrow> ('e, 'id) repo_operation \<Rightarrow> ('id \<rightharpoonup> 'e) \<Rightarrow> soap_error \<Rightarrow> ('id \<rightharpoonup> 'e) \<Rightarrow> bool" where
  "map_failure J key merge p M e M' \<longleftrightarrow> M' = M \<or> \<not> certain e \<and> (\<exists>x. map_answer J key merge p M x M')"

fun map_outcomes ::
  "'e judgement \<Rightarrow> ('e \<Rightarrow> 'id) \<Rightarrow> ('e \<Rightarrow> 'e \<Rightarrow> 'e) \<Rightarrow> ('e, 'id) repo_operation list \<Rightarrow> ('id \<rightharpoonup> 'e) \<Rightarrow> 'e repo_reply soap_result list
     \<Rightarrow> ('id \<rightharpoonup> 'e) \<Rightarrow> bool" where
  "map_outcomes J key merge [] M xs M' \<longleftrightarrow> xs = [] \<and> M' = M"
| "map_outcomes J key merge (p # ps) M xs M' \<longleftrightarrow>
     (\<exists>x ys M1. xs = x # ys \<and> (case x of Ok v \<Rightarrow> map_answer J key merge p M v M1
                    | Err e \<Rightarrow> map_failure J key merge p M e M1) \<and>
        map_outcomes J key merge ps M1 ys M')"

locale robust_map_store = map_store J key merge shows_map run capacity
  for J :: "'e judgement"
    and key :: "'e \<Rightarrow> 'id"
    and merge :: "'e \<Rightarrow> 'e \<Rightarrow> 'e"
    and shows_map :: "'s \<Rightarrow> ('id \<rightharpoonup> 'e) \<Rightarrow> bool"
    and run :: "('e, 'id) repo_operation \<Rightarrow> 's \<Rightarrow> 'e repo_reply soap_result \<times> 's"
    and capacity :: nat +
  assumes failure_follows_map: "shows_map s M \<Longrightarrow> card (dom M) < capacity \<Longrightarrow> admissible p \<Longrightarrow>
      run p s = (Err e, s') \<Longrightarrow> \<exists>M'. map_failure J key merge p M e M' \<and> shows_map s' M'"
begin

lemma attempts_follow_map:
  assumes "shows_map s M" and "card (dom M) + length ps \<le> capacity" and "list_all admissible ps"
    and "try_all run ps s = (xs, s')"
  shows "\<exists>M'. map_outcomes J key merge ps M xs M' \<and> shows_map s' M'"
  using assms
proof (induction ps arbitrary: s M xs)
  case (Cons p ps)
  from Cons.prems(4) obtain x s1 ys where run: "run p s = (x, s1)" and
    rest: "try_all run ps s1 = (ys, s')" and xs: "xs = x # ys"
    by (auto split: prod.splits)
  from Cons.prems(2,3) have room: "card (dom M) < capacity" "admissible p" by simp_all
  have "\<exists>M1. (case x of Ok v \<Rightarrow> map_answer J key merge p M v M1
      | Err e \<Rightarrow> map_failure J key merge p M e M1) \<and> shows_map s1 M1 \<and>
      card (dom M1) \<le> Suc (card (dom M))"
  proof (cases x)
    case (Ok v)
    from answers_map [OF Cons.prems(1) room run [unfolded Ok]] obtain M1 where
      M1: "map_answer J key merge p M v M1" "shows_map s1 M1" by blast
    with card_map_answer(2) [OF M1(1) finite_map [OF Cons.prems(1)]] Ok show ?thesis by auto
  next
    case (Err e)
    from failure_follows_map [OF Cons.prems(1) room run [unfolded Err]] obtain M1 where
      M1: "map_failure J key merge p M e M1" "shows_map s1 M1" by blast
    have "card (dom M1) \<le> Suc (card (dom M))"
      using M1(1) card_map_answer(2) [OF _ finite_map [OF Cons.prems(1)]] by (auto simp: map_failure_def)
    with M1 Err show ?thesis by auto
  qed
  then obtain M1 where M1: "case x of Ok v \<Rightarrow> map_answer J key merge p M v M1
      | Err e \<Rightarrow> map_failure J key merge p M e M1"
    "shows_map s1 M1" "card (dom M1) \<le> Suc (card (dom M))" by blast
  from M1(3) Cons.prems(2) have "card (dom M1) + length ps \<le> capacity" by simp
  from Cons.IH [OF M1(2) this _ rest] Cons.prems(3) M1(1) xs show ?case by auto
qed simp

end

section \<open>Failed operations\<close>

lemma send_Err:
  assumes "send prepared call operation handle s = (Err e, s')"
  obtains "s' = s"
    | q a d where "prepared = Ok (q, a)" and "call q a s = (Err d, s')" and "e = map_sqlx_error d operation"
    | q a reply where "prepared = Ok (q, a)" and "call q a s = (Ok reply, s')" and "handle reply = Err e"
proof (cases prepared)
  case (Ok p)
  obtain q a where p: "p = (q, a)" by fastforce
  obtain x s1 where call: "call q a s = (x, s1)" by fastforce
  show ?thesis using assms that(2,3) by (cases x) (auto simp: Ok p call and_then_eq_Err)
qed (use assms that(1) in auto)

context entity_table
begin

lemma unmatched_replace_keeps_view:
  assumes "represents E view api r s M" and "card (dom M) < 2 ^ 63"
    and "compile_replace api enc r e False = Ok (q, a)"
    and "apply_sql (repo_source r) q a s = (Ok reply, s')" and "rows_affected reply = 0"
  shows "view s' = view s"
proof -
  from assms(1) obtain es where "length (table_rows view (codec r) s) = card (dom M)" by (rule representsE)
  with assms(2) have few: "length (table_rows view (codec r) s) < 2 ^ 63" by simp
  from replace_outcome [OF at_table few assms(3,4)] assms(5) obtain cells c b where
    none: "\<forall>row \<in> set (table_rows view (codec r) s). \<not> has_identity (reading E) c b row" and
    change: "view s' = (view s)(path_of (table (mapping (codec r))) :=
      map (\<lambda>row. if has_identity (reading E) c b row
        then store_cells (reading E) (defaults E (path_of (table (mapping (codec r))))) cells row else row)
      (table_rows view (codec r) s))"
    by blast
  have "map (\<lambda>row. if has_identity (reading E) c b row
      then store_cells (reading E) (defaults E (path_of (table (mapping (codec r))))) cells row else row)
      (table_rows view (codec r) s) = table_rows view (codec r) s"
    by (rule map_idI) (use none in simp)
  with change show ?thesis by simp
qed

lemma replace_reports_absence:
  assumes "represents E view api r s M" and "card (dom M) < 2 ^ 63"
    and "compile_replace api enc r e False = Ok (q, a)"
    and "apply_sql (repo_source r) q a s = (Ok reply, s')"
  shows "rows_affected reply = 0 \<longleftrightarrow> M (entity_id (codec r) e) = None"
proof -
  from assms(1) obtain es where es: "hold_all es (table_rows view (codec r) s)" and
    M: "M = entity_map (entity_id (codec r)) es" and
    len: "length (table_rows view (codec r) s) = card (dom M)" by (rule representsE)
  from assms(2) len have few: "length (table_rows view (codec r) s) < 2 ^ 63" by simp
  from replace_outcome [OF at_table few assms(3,4)] obtain c b where
    id: "plan_identity api r (entity_id (codec r) e) = Ok (c, b)" and
    found: "rows_affected reply \<noteq> 0 \<longleftrightarrow>
      (\<exists>row \<in> set (table_rows view (codec r) s). has_identity (reading E) c b row)" by blast
  from hold_all_identity [OF es id] found show ?thesis by (simp add: M entity_map_None) blast
qed

end

text \<open>
  What a call that failed with \<open>d\<close> may have done: nothing; or, unless the server reported the failure,
  all of the outcome of its statement; and a call that asks for one row and finds none has the outcome
  without rows.
\<close>

definition failed_call ::
  "('v, 'row) sql_engine \<Rightarrow> pg_arguments \<Rightarrow> sql_statement \<Rightarrow> bool \<Rightarrow> sqlx_error \<Rightarrow> 'v database \<Rightarrow> 'v database \<Rightarrow> bool" where
  "failed_call E a p one d v v' \<longleftrightarrow> v' = v \<or>
     (case d of
        Sqlx_Database _ \<Rightarrow> False
      | Sqlx_Row_Not_Found \<Rightarrow> one \<and> (\<exists>n. outcome E a p v [] n v')
      | _ \<Rightarrow> (\<exists>rows n. outcome E a p v rows n v'))"

lemma failed_callE:
  assumes "failed_call E a p one d v v'"
  obtains "v' = v" | n where "outcome E a p v [] n v'" and "one"
    | rows n where "outcome E a p v rows n v'" and "\<not> certain (map_sqlx_error d operation)"
  using assms that by (cases d) (auto simp: failed_call_def certain_def)

locale unsure_entity_table = entity_table E view r api enc gc merge
  for E :: "('v, 'row) sql_engine" and view :: "'s \<Rightarrow> 'v database"
    and r :: "('s, 'e, 'id, 'row) pg_repository" and api :: soaprs_api and enc :: encoder
    and gc :: "'row \<Rightarrow> (64 word, sqlx_error) result"
    and merge :: "'e \<Rightarrow> 'e \<Rightarrow> 'e" +
  assumes failed_calls:
      "read_statement q = Some p \<Longrightarrow> fetch_all (repo_source r) q a s = (Err d, s') \<Longrightarrow>
        failed_call E a p False d (view s) (view s')"
      "read_statement q = Some p \<Longrightarrow> fetch_optional (repo_source r) q a s = (Err d, s') \<Longrightarrow>
        failed_call E a p False d (view s) (view s')"
      "read_statement q = Some p \<Longrightarrow> fetch_one (repo_source r) q a s = (Err d, s') \<Longrightarrow>
        failed_call E a p True d (view s) (view s')"
      "read_statement q = Some p \<Longrightarrow> apply_sql (repo_source r) q a s = (Err d, s') \<Longrightarrow>
        failed_call E a p False d (view s) (view s')"
      "read_statement q = Some p \<Longrightarrow> apply_one (repo_source r) q a s = (Err d, s') \<Longrightarrow>
        failed_call E a p True d (view s) (view s')"
    and failed_keys:
      "apply_sql (repo_source r) q a s = (Err d, s') \<Longrightarrow> keys_apart r (view s) \<Longrightarrow> keys_apart r (view s')"
      "apply_one (repo_source r) q a s = (Err d, s') \<Longrightarrow> keys_apart r (view s) \<Longrightarrow> keys_apart r (view s')"
begin

lemma reads_keep_view:
  assumes "case condition_of params of None \<Rightarrow> True | Some c \<Rightarrow> groups_inhabited c"
  shows "prepare_find api enc r params = Ok (q, a) \<Longrightarrow> fetch_all (repo_source r) q a s = (Ok rows, s') \<Longrightarrow>
      view s' = view s"
    and "prepare_count api enc r params = Ok (q, a) \<Longrightarrow> fetch_one (repo_source r) q a s = (Ok given, s') \<Longrightarrow>
      view s' = view s"
proof -
  have inhabited: "groups_inhabited c" if "condition_of params = Some c" for c using that assms by simp
  show "view s' = view s" if p: "prepare_find api enc r params = Ok (q, a)"
    and f: "fetch_all (repo_source r) q a s = (Ok rows, s')"
    using prepared_find [OF built mapping_built p inhabited] fetch_all_outcome [OF _ f] by fastforce
  show "view s' = view s" if p: "prepare_count api enc r params = Ok (q, a)"
    and f: "fetch_one (repo_source r) q a s = (Ok given, s')"
    using prepared_count [OF built mapping_built p inhabited] fetch_one_outcome [OF _ f] by fastforce
qed

lemma get_keeps_view:
  assumes "prepare_get api enc r i = Ok (q, a)" and "fetch_optional (repo_source r) q a s = (Ok found, s')"
  shows "view s' = view s"
  using prepared_get [OF built mapping_built assms(1)] fetch_optional_outcome [OF _ assms(2)] by fastforce

text \<open>A read that fails leaves the data alone in any case.\<close>

lemma failed_reads:
  "prepare_get api enc r i = Ok (q, a) \<Longrightarrow> fetch_optional (repo_source r) q a s = (Err d, s') \<Longrightarrow> view s' = view s"
  "case condition_of params of None \<Rightarrow> True | Some c \<Rightarrow> groups_inhabited c \<Longrightarrow>
     prepare_find api enc r params = Ok (q, a) \<Longrightarrow> fetch_all (repo_source r) q a s = (Err d, s') \<Longrightarrow> view s' = view s"
  "case condition_of params of None \<Rightarrow> True | Some c \<Rightarrow> groups_inhabited c \<Longrightarrow>
     prepare_count api enc r params = Ok (q, a) \<Longrightarrow> fetch_one (repo_source r) q a s = (Err d, s') \<Longrightarrow> view s' = view s"
proof -
  have read: "view s' = view s"
    if "failed_call E a (S_Select cols t tail) one d (view s) (view s') \<or>
      failed_call E a (S_Count t tail) one d (view s) (view s')" for cols t tail one
    using that by (elim disjE failed_callE) auto
  show "view s' = view s" if "prepare_get api enc r i = Ok (q, a)" "fetch_optional (repo_source r) q a s = (Err d, s')"
    using prepared_get [OF built mapping_built that(1)] failed_calls(2) [OF _ that(2)] read by blast
  assume c: "case condition_of params of None \<Rightarrow> True | Some c \<Rightarrow> groups_inhabited c"
  then have c: "groups_inhabited c" if "condition_of params = Some c" for c using that by simp
  show "view s' = view s" if "prepare_find api enc r params = Ok (q, a)" "fetch_all (repo_source r) q a s = (Err d, s')"
    using prepared_find [OF built mapping_built that(1) c] failed_calls(1) [OF _ that(2)] read by blast
  show "view s' = view s" if "prepare_count api enc r params = Ok (q, a)" "fetch_one (repo_source r) q a s = (Err d, s')"
    using prepared_count [OF built mapping_built that(1) c] failed_calls(3) [OF _ that(2)] read by blast
qed

text \<open>A write that fails leaves the map alone, or has done all of it and tells no more.\<close>

abbreviation follows :: "('e, 'id) repo_operation \<Rightarrow> ('id \<rightharpoonup> 'e) \<Rightarrow> soap_error \<Rightarrow> 's \<Rightarrow> bool" where
  "follows p M e s' \<equiv>
     (\<exists>M'. map_failure (entity_judgement E api r) (entity_id (codec r)) merge p M e M' \<and> represents E view api r s' M')"

lemma follows_same: "view s' = view s \<Longrightarrow> represents E view api r s M \<Longrightarrow> follows p M e s'"
  using represents_same by (auto simp: map_failure_def)

lemma follows_done:
  "\<not> certain e \<Longrightarrow> map_answer (entity_judgement E api r) (entity_id (codec r)) merge p M x M' \<Longrightarrow>
     represents E view api r s' M' \<Longrightarrow> follows p M e s'"
  by (auto simp: map_failure_def)

lemma failed_insert:
  assumes "represents E view api r s M" and "compile_insert api enc r e returning = Ok (q, a)"
    and "\<And>p. read_statement q = Some p \<Longrightarrow> failed_call E a p one d (view s) (view s')"
    and "one \<longrightarrow> returning" and "keys_apart r (view s) \<Longrightarrow> keys_apart r (view s')"
    and "op = (if returning then R_Insert_Returning e else R_Insert e)"
  shows "follows op M (map_sqlx_error d operation) s'"
proof -
  from prepared_insert [OF built mapping_built assms(2)] obtain cells where
    cells: "try_map (plan_cell api r e) (insertable_fields api (mapping (codec r))) = Ok cells" and
    a: "a = map argument_of (cell_binds cells)" and
    p: "read_statement q = Some (S_Insert (path_of (table (mapping (codec r))))
       (if cells = [] then None
        else Some (map (column_name \<circ> fst) cells, map slot_expr (number_cells 0 cells)))
       (returned api (mapping (codec r)) returning))" by blast
  from assms(3) [OF p] show ?thesis
  proof (cases rule: failed_callE [where operation = operation])
    case 1
    then show ?thesis using assms(1) by (rule follows_same)
  next
    case (2 n)
    with assms(4) show ?thesis unfolding a outcome_insert by (simp add: give_back_returned Let_def)
  next
    case (3 rows n)
    from 3(1) have "table_rows view (codec r) s' = table_rows view (codec r) s @
        [store_cells (reading E) (defaults E (path_of (table (mapping (codec r))))) cells
          (defaults E (path_of (table (mapping (codec r)))))]"
      unfolding a outcome_insert by (simp add: Let_def)
    from after_insert [OF assms(1) cells this assms(5)] 3(2) show ?thesis
      by (cases returning) (auto simp: assms(6) intro: follows_done)
  qed
qed

lemma failed_replace:
  assumes "represents E view api r s M" and "compile_replace api enc r e returning = Ok (q, a)"
    and "\<And>p. read_statement q = Some p \<Longrightarrow> failed_call E a p one d (view s) (view s')"
    and "one \<longrightarrow> returning" and "op = (if returning then R_Replace_Returning e else R_Replace e)"
  shows "follows op M (map_sqlx_error d operation) s'"
proof -
  from prepared_replace [OF built mapping_built assms(2)] obtain cells c b where
    cells: "try_map (plan_cell api r e) (replaced_fields api r) = Ok cells" and
    id: "plan_identity api r (entity_id (codec r) e) = Ok (c, b)" and
    a: "a = map argument_of (cell_binds cells @ [b])" and
    p: "read_statement q = Some (S_Update (path_of (table (mapping (codec r))))
       (map (\<lambda>p. (column_name (fst p), slot_expr p)) (number_cells 0 cells))
       (equality c (Suc (length (cell_binds cells)))) (returned api (mapping (codec r)) returning))" by blast
  let ?hit = "has_identity (reading E) c b" and ?rows = "table_rows view (codec r) s"
  let ?new = "store_cells (reading E) (defaults E (path_of (table (mapping (codec r))))) cells"
  have unhit: "view s' = view s"
    if "view s' = (view s)(path_of (table (mapping (codec r))) := map (\<lambda>row. if ?hit row then ?new row else row) ?rows)"
      "\<forall>row \<in> set ?rows. \<not> ?hit row"
  proof -
    have "map (\<lambda>row. if ?hit row then ?new row else row) ?rows = ?rows" by (rule map_idI) (use that(2) in simp)
    with that(1) show ?thesis by simp
  qed
  from assms(3) [OF p] show ?thesis
  proof (cases rule: failed_callE [where operation = operation])
    case 1
    then show ?thesis using assms(1) by (rule follows_same)
  next
    case (2 n)
    then have change: "view s' = (view s)(path_of (table (mapping (codec r))) :=
        map (\<lambda>row. if ?hit row then ?new row else row) ?rows)"
      and "give_back (present E) (returned api (mapping (codec r)) returning) (map ?new (filter ?hit ?rows)) = []"
      unfolding a outcome_update by simp_all
    with 2(2) assms(4) have "\<forall>row \<in> set ?rows. \<not> ?hit row"
      by (simp add: give_back_returned filter_empty_conv)
    from unhit [OF change this] assms(1) show ?thesis by (rule follows_same)
  next
    case (3 rows n)
    from 3(1) have change: "view s' = (view s)(path_of (table (mapping (codec r))) :=
        map (\<lambda>row. if ?hit row then ?new row else row) ?rows)"
      unfolding a outcome_update by blast
    show ?thesis
    proof (cases "\<exists>row \<in> set ?rows. ?hit row")
      case True
      then obtain row where row: "row \<in> set ?rows" "?hit row" by blast
      have "table_rows view (codec r) s' = map (\<lambda>row. if ?hit row then ?new row else row) ?rows"
        unfolding change by simp
      from after_replace [OF assms(1) cells id row this] 3(2) show ?thesis
        by (cases returning) (auto simp: assms(5) intro: follows_done)
    next
      case False
      with unhit [OF change] have "view s' = view s" by blast
      then show ?thesis using assms(1) by (rule follows_same)
    qed
  qed
qed

lemma failed_remove:
  assumes "represents E view api r s M" and "prepare_remove api enc r i = Ok (q, a)"
    and "apply_sql (repo_source r) q a s = (Err d, s')"
  shows "follows (R_Remove i) M (map_sqlx_error d operation) s'"
proof -
  from prepared_remove [OF built mapping_built assms(2)] obtain c b where
    id: "plan_identity api r i = Ok (c, b)" and a: "a = map argument_of [b]" and
    p: "read_statement q = Some (S_Delete (path_of (table (mapping (codec r)))) (equality c 1))" by blast
  from failed_calls(4) [OF p assms(3)] show ?thesis
  proof (cases rule: failed_callE [where operation = operation])
    case 1
    then show ?thesis using assms(1) by (rule follows_same)
  next
    case (3 rows n)
    from 3(1) have rows: "table_rows view (codec r) s' =
        filter (\<lambda>row. \<not> has_identity (reading E) c b row) (table_rows view (codec r) s)"
      unfolding a outcome_identity_delete by simp
    from assms(1) obtain es where es: "hold_all es (table_rows view (codec r) s)"
      "distinct (map (entity_id (codec r)) es)" and M: "M = entity_map (entity_id (codec r)) es"
      by (rule representsE)
    have "represents E view api r s' (entity_map (entity_id (codec r)) (filter (\<lambda>e. entity_id (codec r) e \<noteq> i) es))"
      using hold_all_remove [OF es(1) id] es(2)
      by (intro representsI) (simp_all add: rows distinct_map inj_on_def)
    then have "represents E view api r s' (M(i := None))" by (simp add: M entity_map_remove)
    with 3(2) show ?thesis by (intro follows_done) simp_all
  qed simp
qed

lemma returned_rows_decode:
  assumes "represents E view api r s M"
  shows "compile_insert api enc r e True = Ok (q, a) \<Longrightarrow> apply_one (repo_source r) q a s = (Ok y, s') \<Longrightarrow>
      decode (codec r) y = Ok e"
    and "compile_replace api enc r e True = Ok (q, a) \<Longrightarrow> apply_one (repo_source r) q a s = (Ok y, s') \<Longrightarrow>
      \<exists>x. decode (codec r) y = Ok x"
proof -
  show "decode (codec r) y = Ok e" if "compile_insert api enc r e True = Ok (q, a)"
    "apply_one (repo_source r) q a s = (Ok y, s')"
    using insert_one_outcome [OF at_table that] reads_back [OF inserted_row_holds] by blast
  assume p: "compile_replace api enc r e True = Ok (q, a)" "apply_one (repo_source r) q a s = (Ok y, s')"
  from replace_one_outcome [OF at_table p] obtain cells c b row where
    plan: "try_map (plan_cell api r e) (replaced_fields api r) = Ok cells"
      "plan_identity api r (entity_id (codec r) e) = Ok (c, b)" and
    row: "row \<in> set (table_rows view (codec r) s)" "has_identity (reading E) c b row" and
    y: "y = present E (selected_names api (mapping (codec r)))
      (store_cells (reading E) (defaults E (path_of (table (mapping (codec r))))) cells row)" by blast
  from assms obtain es where es: "hold_all es (table_rows view (codec r) s)" by (rule representsE)
  from hold_all_member [OF es row(1)] obtain old where old: "row_holds E api r old row" by blast
  from reads_back [OF replaced_row_holds [OF plan(1) old]] show "\<exists>x. decode (codec r) y = Ok x" by (simp add: y)
qed

lemma failure_follows:
  assumes "represents E view api r s M" and "card (dom M) < 2 ^ 63" and "admissible p"
    and "repo_do api enc gc r p s = (Err e, s')"
  shows "follows p M e s'"
proof (cases p)
  case (R_Find params)
  with assms(4) have "repository_find api enc r params s = (Err e, s')" by simp
  then have "view s' = view s" unfolding repository_find_def
    by (rule send_Err) (use assms(3) R_Find reads_keep_view(1) failed_reads(2) in auto)
  then show ?thesis using assms(1) by (rule follows_same)
next
  case (R_Get i)
  with assms(4) have "repository_get api enc r i s = (Err e, s')" by simp
  then have "view s' = view s" unfolding repository_get_def
    by (rule send_Err) (use get_keeps_view failed_reads(1) in auto)
  then show ?thesis using assms(1) by (rule follows_same)
next
  case (R_Count params)
  with assms(4) have "repository_count api enc gc r params s = (Err e, s')" by simp
  then have "view s' = view s" unfolding repository_count_def
    by (rule send_Err) (use assms(3) R_Count reads_keep_view(2) failed_reads(3) in auto)
  then show ?thesis using assms(1) by (rule follows_same)
next
  case (R_Insert x)
  with assms(4) have "repository_insert api enc r x s = (Err e, s')" by simp
  then show ?thesis unfolding repository_insert_def
  proof (cases rule: send_Err)
    case (2 q a d)
    show ?thesis unfolding 2(3)
      by (rule failed_insert [OF assms(1) 2(1) failed_calls(4) [OF _ 2(2)] _ failed_keys(1) [OF 2(2)]])
        (simp_all add: R_Insert)
  qed (use follows_same [OF _ assms(1)] in auto)
next
  case (R_Replace x)
  with assms(4) have "repository_replace api enc r x s = (Err e, s')" by simp
  then show ?thesis unfolding repository_replace_def
  proof (cases rule: send_Err)
    case (2 q a d)
    show ?thesis unfolding 2(3)
      by (rule failed_replace [OF assms(1) 2(1) failed_calls(4) [OF _ 2(2)]]) (simp_all add: R_Replace)
  next
    case (3 q a reply)
    then have "view s' = view s"
      using unmatched_replace_keeps_view [OF assms(1,2) 3(1,2)] by (auto split: if_splits)
    then show ?thesis using assms(1) by (rule follows_same)
  qed (use follows_same [OF _ assms(1)] in auto)
next
  case (R_Remove i)
  with assms(4) have "repository_remove api enc r i s = (Err e, s')" by simp
  then show ?thesis unfolding repository_remove_def
  proof (cases rule: send_Err)
    case (2 q a d)
    show ?thesis unfolding 2(3) R_Remove by (rule failed_remove [OF assms(1) 2(1,2)])
  qed (use follows_same [OF _ assms(1)] in auto)
next
  case (R_Insert_Returning x)
  with assms(4) have "repository_insert_returning api enc r x s = (Err e, s')" by simp
  then show ?thesis unfolding repository_insert_returning_def
  proof (cases rule: send_Err)
    case (2 q a d)
    show ?thesis unfolding 2(3)
      by (rule failed_insert [OF assms(1) 2(1) failed_calls(5) [OF _ 2(2)] _ failed_keys(2) [OF 2(2)]])
        (simp_all add: R_Insert_Returning)
  next
    case (3 q a y)
    with returned_rows_decode(1) [OF assms(1) 3(1,2)] show ?thesis by simp
  qed (use follows_same [OF _ assms(1)] in auto)
next
  case (R_Replace_Returning x)
  with assms(4) have "repository_replace_returning api enc r x s = (Err e, s')" by simp
  then show ?thesis unfolding repository_replace_returning_def
  proof (cases rule: send_Err)
    case (2 q a d)
    show ?thesis unfolding 2(3)
      by (rule failed_replace [OF assms(1) 2(1) failed_calls(5) [OF _ 2(2)]]) (simp_all add: R_Replace_Returning)
  next
    case (3 q a y)
    with returned_rows_decode(2) [OF assms(1) 3(1,2)] show ?thesis by auto
  qed (use follows_same [OF _ assms(1)] in auto)
qed

end

sublocale unsure_entity_table \<subseteq> robust: robust_map_store "entity_judgement E api r" "entity_id (codec r)" merge "represents E view api r"
    "repo_do api enc gc r" "2 ^ 63"
  by unfold_locales (rule failure_follows)

context unsure_entity_table
begin

lemmas attempts_follow_map = robust.attempts_follow_map

end

section \<open>Instances\<close>

lemma reference_failures:
  assumes "read_statement q = Some p"
  shows "run_fetch_all (reference_executor E) q a d = (Err x, d') \<Longrightarrow> failed_call E a p False x d d'"
    and "run_fetch_optional (reference_executor E) q a d = (Err x, d') \<Longrightarrow> failed_call E a p False x d d'"
    and "run_execute (reference_executor E) q a d = (Err x, d') \<Longrightarrow> failed_call E a p False x d d'"
    and "run_fetch_one (reference_executor E) q a d = (Err x, d') \<Longrightarrow> failed_call E a p True x d d'"
  by (auto simp: reference_executor_def refuse_def failed_call_def split: option.splits list.splits prod.splits
      dest!: run_text_outcome [OF assms])

lemma constrained_failure:
  assumes "constrained ok run d = (Err x, d')" and "\<And>y d1. run d = (Err y, d1) \<Longrightarrow> failed_call E a p one y d d1"
  shows "failed_call E a p one x d d'"
  using assms by (cases "run d") (auto simp: constrained_def failed_call_def split: if_splits)

lemma constrained_keys:
  "constrained ok run d = (y, d') \<Longrightarrow> d' = d \<or> ok d'"
  "snd (constrained ok run d) = d' \<Longrightarrow> d' = d \<or> ok d'"
  by (auto simp: constrained_def split: prod.splits if_splits)

lemma account_kept:
  "d' = d \<or> account_keys d' \<Longrightarrow> keys_apart (account_repository ''users'' src) d \<Longrightarrow>
     keys_apart (account_repository ''users'' src) d'"
  using account_keys_apart by blast

interpretation unsure_accounts:
  unsure_entity_table account_engine db "account_repository ''users'' account_pool" sample_api encodes_all account_count rename
proof (intro unsure_entity_table.intro unsure_entity_table_axioms.intro)
  show "entity_table account_engine db (account_repository ''users'' account_pool) sample_api account_count rename"
    by (rule accounts.entity_table_axioms)
qed (auto simp: account_pool_def pool_source_def constrained_executor_def dest!: issue_Ok_db
    intro: reference_failures constrained_failure account_kept dest: constrained_keys)

text \<open>
  A pool on a bad connection: the server carries out what it is sent, but every reply to a statement
  without rows is lost on the way.
\<close>

definition losing_replies :: "('d, 'row) executor \<Rightarrow> ('d, 'row) executor" where
  "losing_replies exec =
     exec\<lparr>run_execute := (\<lambda>q a d. (Err (Sqlx_Io ''reply lost''), snd (run_execute exec q a d)))\<rparr>"

lemma losing_replies_serves: "serves E contents exec \<Longrightarrow> serves E contents (losing_replies exec)"
  by (simp add: serves_def losing_replies_def)

definition lossy_pool :: "(string database world, nat + string option \<times> string option) pg_source" where
  "lossy_pool =
     pool_source 0 (losing_replies (constrained_executor account_keys (reference_executor account_engine)))"

lemma losing_failure:
  assumes "read_statement q = Some p" and "snd (constrained ok (run_execute (reference_executor E) q a) d) = d'"
  shows "failed_call E a p False (Sqlx_Io t) d d'"
  unfolding assms(2) [symmetric] using run_text_outcome [OF assms(1), of E a d]
  by (auto simp: constrained_def reference_executor_def refuse_def failed_call_def split: option.split)

interpretation lossy_accounts:
  unsure_entity_table account_engine db "account_repository ''users'' lossy_pool" sample_api encodes_all account_count rename
proof (intro unsure_entity_table.intro unsure_entity_table_axioms.intro)
  show "entity_table account_engine db (account_repository ''users'' lossy_pool) sample_api account_count rename"
  proof (rule account_entity_table, simp)
    show "table_source account_engine db lossy_pool"
      unfolding lossy_pool_def
      by (rule pool_serves [OF losing_replies_serves [OF constrained_serves [OF serves_reference]]])
  qed (auto simp: lossy_pool_def losing_replies_def pool_source_def constrained_executor_def constrained_Ok
      dest!: issue_Ok_db)
qed (auto simp: lossy_pool_def losing_replies_def pool_source_def constrained_executor_def dest!: issue_Ok_db
    intro: reference_failures constrained_failure losing_failure account_kept dest: constrained_keys)

lemma lossy_insert:
  assumes "account_keys (db s)" and "db s (Some ''app'', ''users'') = []"
  shows "\<exists>s'. repository_insert sample_api encodes_all (account_repository ''users'' lossy_pool) (i, n) s =
       (Err (map_sqlx_error (Sqlx_Io ''reply lost'') ''insert entity''), s') \<and> db s' (Some ''app'', ''users'') \<noteq> []"
proof -
  from account_insert_statement [of "''users''" lossy_pool i n] obtain q a x ret where
    p: "compile_insert sample_api encodes_all (account_repository ''users'' lossy_pool) (i, n) False = Ok (q, a)" and
    "read_statement q = Some (S_Insert (Some ''app'', ''users'') x ret)" by auto
  then show ?thesis
    using assms by (simp add: repository_insert_def lossy_pool_def pool_source_def losing_replies_def
        constrained_executor_def issue_eq constrained_def reference_executor_def run_text_def Let_def account_keys_def)
qed

section \<open>Properties\<close>



text \<open>
  C8: a replacement tells an absent entity from a present one.  When its statement was built and the
  server carried it out, the replacement succeeds exactly when the map has an entity with this
  identity, and then the merged entity is in its place; otherwise it fails as Not_Found and the map
  is unchanged.
\<close>

theorem replacement_tells_absence:
  assumes "entity_table E view r api gc merge" and "represents E view api r s M" and "card (dom M) < 2 ^ 63"
    and "compile_replace api enc r e False = Ok (q, a)"
    and "apply_sql (repo_source r) q a s = (Ok reply, s')"
  shows "case M (entity_id (codec r) e) of
       None \<Rightarrow> repository_replace api enc r e s = (Err (soap_error_new Not_Found ''entity identifier''), s') \<and>
         represents E view api r s' M
     | Some old \<Rightarrow> repository_replace api enc r e s = (Ok (), s') \<and>
         represents E view api r s' (M(entity_id (codec r) e \<mapsto> merge old e))"
proof -
  note none = entity_table.replace_reports_absence [OF assms]
  have reply: "repository_replace api enc r e s = (if rows_affected reply = 0
      then Err (soap_error_new Not_Found ''entity identifier'') else Ok (), s')"
    by (simp add: repository_replace_def assms(4,5))
  show ?thesis
  proof (cases "M (entity_id (codec r) e)")
    case None
    with none entity_table.unmatched_replace_keeps_view [OF assms] have "view s' = view s" by simp
    with None none reply assms(2) show ?thesis by (simp add: represents_def)
  next
    case (Some old)
    with none reply have success: "repository_replace api enc r e s = (Ok (), s')" by simp
    with Some entity_table.map_replace [OF assms(1-3) success] show ?thesis by auto
  qed
qed

theorem replacement_tells_absence_witness:
  "fst (repository_replace sample_api encodes_all (account_repository ''users'' account_pool) (9, ''Ada'') (store_of [])) =
     Err (soap_error_new Not_Found ''entity identifier'')"
proof -
  let ?r = "account_repository ''users'' account_pool"
  have start: "represents account_engine db sample_api ?r (store_of []) Map.empty"
    by (simp add: represents_def store_of_def)
  obtain q a where p: "compile_replace sample_api encodes_all ?r (9, ''Ada'') False = Ok (q, a)"
    by (auto simp: compile_replace_eq replaced_fields_def account_plans compiled_arguments_def
        into_arguments_def from_bindings_def arguments_add_def)
  from prepared_replace [OF accounts.built accounts.mapping_built] p obtain xs x ret where
    "read_statement q = Some (S_Update (Some ''app'', ''users'') xs x ret)" by fastforce
  then obtain reply s' where f: "apply_sql (repo_source ?r) q a (store_of []) = (Ok reply, s')"
    by (simp add: account_pool_apply issue_eq constrained_def reference_executor_def run_text_def Let_def
        account_keys_def store_of_def)
  from replacement_tells_absence [OF accounts.entity_table_axioms start _ p f] show ?thesis by simp
qed

end
