(* ===== verification/Transaction_Store.thy ===== *)
theory Transaction_Store
  imports Repository_Contract
begin

text \<open>
  A transaction over the store: what a repository does in it becomes visible with the commit, all
  at once, and not at all after a rollback.
\<close>

section \<open>A driver with isolated transactions\<close>

text \<open>
  What is relied on in the driver: a transaction starts from the committed data, its statements are
  carried out on its own view and do not change the committed data, a commit that succeeds
  publishes that view, a rollback does not touch the committed data.  Other clients are left out:
  the committed data changes by this source only.
\<close>

locale isolated_driver =
  fixes E :: "('v, 'row) sql_engine"
    and inside :: "'t \<Rightarrow> 'w \<Rightarrow> 'v database"
    and committed :: "'w \<Rightarrow> 'v database"
    and drv :: "('t, 'w, 'row) tx_driver"
  assumes begin_snapshot: "tx_begin drv d = (Ok t, d') \<Longrightarrow> inside t d' = committed d \<and> committed d' = committed d"
    and statements_serve: "serves E (inside t) (tx_executor drv t)"
    and statements_hidden:
      "committed (snd (run_fetch_all (tx_executor drv t) q a d)) = committed d"
      "committed (snd (run_fetch_optional (tx_executor drv t) q a d)) = committed d"
      "committed (snd (run_fetch_one (tx_executor drv t) q a d)) = committed d"
      "committed (snd (run_execute (tx_executor drv t) q a d)) = committed d"
    and commit_publishes: "tx_commit drv t d = (Ok (), d') \<Longrightarrow> committed d' = inside t d"
    and rollback_drops: "committed (snd (tx_rollback drv t d)) = committed d"
begin

text \<open>The data inside the transaction, and the committed data, of a transaction source.\<close>

abbreviation own_view :: "('t, 'w) tx_source \<Rightarrow> 'v database" where
  "own_view \<equiv> tx_view inside committed"

abbreviation shared_view :: "('t, 'w) tx_source \<Rightarrow> 'v database" where
  "shared_view st \<equiv> committed (db (tx_world st))"

lemma own_table_source: "table_source E own_view (transaction_source conn drv)"
  by (rule transaction_serves [OF statements_serve])

lemma begin_views:
  assumes "tx_source_begin drv w = (Ok st, w')"
  shows "own_view st = committed (db w) \<and> shared_view st = committed (db w) \<and> (\<exists>t. tx_state st = Active t)"
  using assms begin_snapshot
  by (auto simp: tx_source_begin_def tx_view_def dest!: issue_Ok_db split: prod.splits result.splits)

lemma in_transaction_hidden:
  assumes "\<And>t d. committed (snd (run t d)) = committed d"
  shows "shared_view (snd (in_transaction ev run st)) = shared_view st"
  using assms by (cases "tx_state st") (simp_all add: in_transaction_def active_def issue_eq)

lemma perform_hidden:
  "shared_view (snd (perform (transaction_source conn drv) p st)) = shared_view st \<and>
   tx_state (snd (perform (transaction_source conn drv) p st)) = tx_state st"
  by (cases p) (simp_all add: transaction_source_def in_transaction_hidden statements_hidden)

lemma repo_do_hidden:
  assumes "repo_source r = transaction_source conn drv"
  shows "shared_view (snd (repo_do api enc gc r p st)) = shared_view st \<and>
     tx_state (snd (repo_do api enc gc r p st)) = tx_state st"
  using perform_hidden [of conn] by (simp add: snd_repo_do repo_step_eq assms split: result.split)

lemma sequence_hidden:
  assumes "\<And>p s. shared_view (snd (f p s)) = shared_view s \<and> tx_state (snd (f p s)) = tx_state s"
    and "do_all f ops st = (replies, st')"
  shows "shared_view st' = shared_view st \<and> tx_state st' = tx_state st"
  using assms(2)
proof (induction ops arbitrary: st replies)
  case (Cons p ps)
  obtain x s1 where run: "f p st = (x, s1)" by fastforce
  with Cons.prems assms(1) [of p st] Cons.IH show ?case by (cases x) (fastforce split: prod.splits)+
qed simp

lemma commit_publishes_own_view:
  assumes "tx_source_commit drv st = (Ok (), st')" and "tx_state st = Active t"
  shows "shared_view st' = own_view st"
  using assms commit_publishes
  by (auto simp: tx_source_commit_def take_active_def tx_view_def map_err_eq_Ok dest!: issue_Ok_db
      split: prod.splits)

lemma rollback_keeps_shared_view: "shared_view (snd (tx_source_rollback drv st)) = shared_view st"
  by (auto simp: tx_source_rollback_def take_active_def issue_eq rollback_drops
      split: transaction_state.split)

text \<open>A transaction around any sequence of operations that reach the driver through the source.\<close>

lemma bracket:
  assumes "tx_source_begin drv w = (Ok st, w1)"
    and "\<And>p s. shared_view (snd (f p s)) = shared_view s \<and> tx_state (snd (f p s)) = tx_state s"
    and "do_all f ops st = (replies, st')"
  shows "own_view st = shared_view st" and "shared_view st' = shared_view st"
    and "shared_view (snd (tx_source_rollback drv st')) = shared_view st"
    and "tx_source_commit drv st' = (Ok (), st'') \<Longrightarrow> shared_view st'' = own_view st'"
proof -
  from begin_views [OF assms(1)] obtain t where
    t: "tx_state st = Active t" and same: "own_view st = shared_view st" by auto
  from sequence_hidden [OF assms(2,3)] have
    kept: "shared_view st' = shared_view st" and t': "tx_state st' = Active t" using t by simp_all
  show "own_view st = shared_view st" by (rule same)
  show "shared_view st' = shared_view st" by (rule kept)
  show "shared_view (snd (tx_source_rollback drv st')) = shared_view st"
    by (simp only: rollback_keeps_shared_view kept)
  show "shared_view st'' = own_view st'" if "tx_source_commit drv st' = (Ok (), st'')"
    by (rule commit_publishes_own_view [OF that t'])
qed

end

section \<open>A reference driver\<close>

text \<open>The committed data and the working copy of the open transaction, which the statements change.\<close>

definition on_copy :: "('d \<Rightarrow> 'a \<times> 'd) \<Rightarrow> 'd \<times> 'd \<Rightarrow> 'a \<times> 'd \<times> 'd" where
  "on_copy run d = (case run (snd d) of (x, c) \<Rightarrow> (x, (fst d, c)))"

definition copying_driver :: "('d, 'row) executor \<Rightarrow> (unit, 'd \<times> 'd, 'row) tx_driver" where
  "copying_driver exec =
     \<lparr>tx_begin = (\<lambda>d. (Ok (), (fst d, fst d))),
      tx_executor = (\<lambda>_.
        \<lparr>run_fetch_all = (\<lambda>q a. on_copy (run_fetch_all exec q a)),
         run_fetch_optional = (\<lambda>q a. on_copy (run_fetch_optional exec q a)),
         run_fetch_one = (\<lambda>q a. on_copy (run_fetch_one exec q a)),
         run_execute = (\<lambda>q a. on_copy (run_execute exec q a))\<rparr>),
      tx_commit = (\<lambda>_ d. (Ok (), (snd d, snd d))),
      tx_rollback = (\<lambda>_ d. (Ok (), (fst d, fst d)))\<rparr>"

lemma on_copy_simps [simp]:
  "on_copy run d = (x, d') \<longleftrightarrow> run (snd d) = (x, snd d') \<and> fst d' = fst d"
  "fst (snd (on_copy run d)) = fst d"
  by (cases d'; auto simp: on_copy_def split: prod.splits) (simp add: on_copy_def case_prod_beta)

lemma copying_driver_isolated:
  "serves E contents exec \<Longrightarrow>
     isolated_driver E (\<lambda>_ d. contents (snd d)) (\<lambda>d. contents (fst d)) (copying_driver exec)"
  by (rule isolated_driver.intro) (auto simp: copying_driver_def serves_def)

interpretation copying: isolated_driver E "\<lambda>_. snd" fst "copying_driver (reference_executor E)" for E
  by (rule copying_driver_isolated [OF serves_reference])

section \<open>Atomicity\<close>

lemma represents_view: "view s = view' s' \<Longrightarrow> represents E view api r s M \<longleftrightarrow> represents E view' api r s' M"
  by (simp add: represents_def)

text \<open>
  C2: a transaction is all or nothing.  Let a repository work over a transaction just begun on a
  driver with isolated transactions.  While its operations run, and whatever they answer, the
  committed data stands for the map it stood for; so it does after a rollback.  When they all
  succeed and the commit succeeds, the committed data stands for the map that results from all of
  them in order.
\<close>

theorem transactions_are_atomic:
  assumes "isolated_driver E inside committed drv" and "repo_source r = transaction_source conn drv"
    and "entity_table E (tx_view inside committed) r api gc merge"
    and "tx_source_begin drv w = (Ok st, w1)"
    and "represents E (\<lambda>st. committed (db (tx_world st))) api r st M"
    and "card (dom M) + length ops \<le> 2 ^ 63" and "list_all admissible ops"
    and "do_all (repo_do api enc gc r) ops st = (replies, st')"
  shows "represents E (\<lambda>st. committed (db (tx_world st))) api r st' M \<and>
     represents E (\<lambda>st. committed (db (tx_world st))) api r (snd (tx_source_rollback drv st')) M \<and>
     (\<forall>xs st''. replies = Ok xs \<longrightarrow> tx_source_commit drv st' = (Ok (), st'') \<longrightarrow>
        (\<exists>M'. map_answers (entity_judgement E api r) (entity_id (codec r)) merge ops M xs M' \<and>
           represents E (\<lambda>st. committed (db (tx_world st))) api r st'' M'))"
proof -
  let ?shared = "\<lambda>st. committed (db (tx_world st))" and ?own = "tx_view inside committed"
  note views = isolated_driver.bracket [OF assms(1,4) isolated_driver.repo_do_hidden [OF assms(1,2)] assms(8)]
  have kept: "represents E ?shared api r s M" if "?shared s = ?shared st" for s
    using assms(5) represents_view [of ?shared s ?shared st E api r M] that by blast
  have own: "represents E ?own api r st M"
    using assms(5) represents_view [of ?own st ?shared st E api r M] views(1) by blast
  have "\<exists>M'. map_answers (entity_judgement E api r) (entity_id (codec r)) merge ops M xs M' \<and> represents E ?shared api r st'' M'"
    if "replies = Ok xs" and commit: "tx_source_commit drv st' = (Ok (), st'')" for xs st''
  proof -
    from that(1) assms(8) have run: "do_all (repo_do api enc gc r) ops st = (Ok xs, st')" by simp
    from entity_table.operations_answer_map [OF assms(3) own assms(6,7) run] obtain M' where
      "map_answers (entity_judgement E api r) (entity_id (codec r)) merge ops M xs M'" "represents E ?own api r st' M'" by blast
    then show ?thesis using represents_view [of ?shared st'' ?own st'] views(4) [OF commit] by metis
  qed
  then show ?thesis using kept [OF views(2)] kept [OF views(3)] by blast
qed

text \<open>The accounts, in a transaction of the reference driver over the server with the key.\<close>

definition account_driver ::
  "(unit, string database \<times> string database, nat + string option \<times> string option) tx_driver" where
  "account_driver =
     copying_driver (constrained_executor account_keys (reference_executor account_engine))"

abbreviation account_transaction ::
  "((unit, string database \<times> string database) tx_source, nat + string option \<times> string option) pg_source" where
  "account_transaction \<equiv> transaction_source 0 account_driver"

interpretation account_driver: isolated_driver account_engine "\<lambda>_. snd" fst account_driver
  unfolding account_driver_def
  by (rule copying_driver_isolated [OF constrained_serves [OF serves_reference]])

lemma account_transaction_keys:
  "apply_sql account_transaction q a st = (Ok reply, st') \<Longrightarrow> account_keys (account_driver.own_view st')"
  "apply_one account_transaction q a st = (Ok given, st') \<Longrightarrow> account_keys (account_driver.own_view st')"
  by (auto simp: transaction_source_def account_driver_def copying_driver_def constrained_executor_def
      constrained_Ok tx_view_def elim!: in_transactionE)

interpretation account_transactions:
  entity_table account_engine "tx_view (\<lambda>_. snd) fst" "account_repository ''users'' account_transaction"
    sample_api encodes_all account_count rename
  by (rule account_entity_table [OF _ account_driver.own_table_source account_transaction_keys]) simp

lemma account_transaction_insert:
  assumes "t \<in> {''users'', ''orders''}" and "tx_state st = Active ()"
    and "account_keys (snd (db (tx_world st)))" and "snd (db (tx_world st)) (Some ''app'', t) = []"
  shows "\<exists>st'. repository_insert sample_api encodes_all (account_repository t account_transaction) (i, n) st = (Ok (), st') \<and>
     tx_state st' = Active () \<and> account_keys (snd (db (tx_world st'))) \<and>
     (\<forall>t'. t' \<noteq> t \<longrightarrow> snd (db (tx_world st')) (Some ''app'', t') = snd (db (tx_world st)) (Some ''app'', t'))"
proof -
  from account_insert_statement [OF assms(1), of account_transaction i n] obtain q a x ret where
    p: "compile_insert sample_api encodes_all (account_repository t account_transaction) (i, n) False = Ok (q, a)" and
    "read_statement q = Some (S_Insert (Some ''app'', t) x ret)" by blast
  then show ?thesis
    using assms
    by (auto simp: repository_insert_def transaction_source_def in_transaction_def active_def account_driver_def
        copying_driver_def on_copy_def constrained_executor_def constrained_def issue_eq reference_executor_def
        run_text_def Let_def account_keys_def)
qed

theorem transactions_are_atomic_witness:
  "\<exists>st w1 st1 st2.
     tx_source_begin account_driver \<lparr>db = (\<lambda>_. [], \<lambda>_. []), issued = []\<rparr> = (Ok st, w1) \<and>
     do_all (repo_do sample_api encodes_all account_count (account_repository ''users'' account_transaction))
       [R_Insert (9, ''Ada'')] st = (Ok [Written], st1) \<and>
     tx_source_commit account_driver st1 = (Ok (), st2) \<and>
     represents account_engine account_driver.shared_view sample_api (account_repository ''users'' account_transaction)
       st1 Map.empty \<and>
     represents account_engine account_driver.shared_view sample_api (account_repository ''users'' account_transaction)
       st2 [9 \<mapsto> (9, ''Ada'')]"
proof -
  let ?r = "account_repository ''users'' account_transaction" and ?w = "\<lparr>db = (\<lambda>_. [], \<lambda>_. []), issued = []\<rparr>"
  obtain st w1 where start: "tx_source_begin account_driver ?w = (Ok st, w1)"
    and st: "tx_state st = Active ()" "db (tx_world st) = (\<lambda>_. [], \<lambda>_. [])"
    by (simp add: tx_source_begin_def account_driver_def copying_driver_def issue_eq)
  from st have "account_keys (snd (db (tx_world st)))" by (simp add: account_keys_def)
  with account_transaction_insert [of "''users''" st 9 "''Ada''"] st obtain st1 where
    insert: "repository_insert sample_api encodes_all ?r (9, ''Ada'') st = (Ok (), st1)" and
    st1: "tx_state st1 = Active ()" by auto
  have run: "do_all (repo_do sample_api encodes_all account_count ?r) [R_Insert (9, ''Ada'')] st = (Ok [Written], st1)"
    by (simp add: insert)
  obtain st2 where commit: "tx_source_commit account_driver st1 = (Ok (), st2)"
    using st1 by (simp add: tx_source_commit_def take_active_def account_driver_def copying_driver_def issue_eq)
  have empty: "represents account_engine account_driver.shared_view sample_api ?r st Map.empty"
    using st(2) by (simp add: represents_def)
  from transactions_are_atomic [OF account_driver.isolated_driver_axioms _
      account_transactions.entity_table_axioms start empty _ _ run] commit
  obtain M' where "map_answers (entity_judgement account_engine sample_api ?r) (entity_id (codec ?r)) rename [R_Insert (9, ''Ada'')] Map.empty [Written] M'"
    "represents account_engine account_driver.shared_view sample_api ?r st1 Map.empty"
    "represents account_engine account_driver.shared_view sample_api ?r st2 M'" by auto
  with start run commit show ?thesis by fastforce
qed

end
