(* ===== verification/Repositories_Together.thy ===== *)
theory Repositories_Together
  imports Transaction_Store
begin

text \<open>
  Two repositories of different entity types over one source, as an application shares a
  transaction between them: over different tables they are two independent maps, and one
  transaction commits both.
\<close>

section \<open>Operations on either repository\<close>

fun either_do ::
  "('p \<Rightarrow> 's \<Rightarrow> 'a soap_result \<times> 's) \<Rightarrow> ('q \<Rightarrow> 's \<Rightarrow> 'b soap_result \<times> 's) \<Rightarrow> 'p + 'q \<Rightarrow> 's
     \<Rightarrow> ('a + 'b) soap_result \<times> 's" where
  "either_do f g (Inl p) s = apfst (map_ok Inl) (f p s)"
| "either_do f g (Inr q) s = apfst (map_ok Inr) (g q s)"

definition lefts :: "('a + 'b) list \<Rightarrow> 'a list" where
  "lefts xs = concat (map (case_sum (\<lambda>a. [a]) (\<lambda>_. [])) xs)"

definition rights :: "('a + 'b) list \<Rightarrow> 'b list" where
  "rights xs = concat (map (case_sum (\<lambda>_. []) (\<lambda>b. [b])) xs)"

lemma sides_simps [simp]:
  "lefts [] = []" "lefts (Inl a # xs) = a # lefts xs" "lefts (Inr b # xs) = lefts xs"
  "rights [] = []" "rights (Inl a # xs) = rights xs" "rights (Inr b # xs) = b # rights xs"
  by (simp_all add: lefts_def rights_def)

section \<open>Other tables\<close>

context entity_table
begin

text \<open>An operation touches the table of its own repository only.\<close>

lemma other_tables_kept:
  assumes "represents E view api r s M" and "card (dom M) < 2 ^ 63" and "admissible p"
    and "repo_do api enc gc r p s = (Ok x, s')" and "t \<noteq> path_of (table (mapping (codec r)))"
  shows "view s' t = view s t"
proof -
  from assms(1) obtain es where "length (table_rows view (codec r) s) = card (dom M)" by (rule representsE)
  with assms(2) have few: "length (table_rows view (codec r) s) < 2 ^ 63" by simp
  have inhabited: "groups_inhabited c"
    if "condition_of params = Some c" "p = R_Find params \<or> p = R_Count params" for params c
    using that assms(3) by auto
  note at = at_table
  show ?thesis
  proof (cases p)
    case (R_Find params)
    with assms(4) obtain xs where "repository_find api enc r params s = (Ok xs, s')" by auto
    from find_from_table [OF at inhabited this] R_Find show ?thesis by simp
  next
    case (R_Get i)
    with assms(4) obtain y where "repository_get api enc r i s = (Ok y, s')" by auto
    from get_from_table [OF at this] show ?thesis by simp
  next
    case (R_Count params)
    with assms(4) obtain k where "repository_count api enc gc r params s = (Ok k, s')" by auto
    from count_from_table [OF at inhabited tallied few this] R_Count show ?thesis by simp
  next
    case (R_Insert e)
    with assms(4) have "repository_insert api enc r e s = (Ok (), s')" by auto
    from insert_into_table [OF at this] assms(5) show ?thesis by auto
  next
    case (R_Replace e)
    with assms(4) have "repository_replace api enc r e s = (Ok (), s')" by auto
    from replace_in_table [OF at few this] assms(5) show ?thesis by auto
  next
    case (R_Remove i)
    with assms(4) obtain b where "repository_remove api enc r i s = (Ok b, s')" by auto
    from remove_from_table [OF at few this] assms(5) show ?thesis by auto
  next
    case (R_Insert_Returning e)
    with assms(4) obtain y where "repository_insert_returning api enc r e s = (Ok y, s')" by auto
    from insert_returning_from_table [OF at this] assms(5) show ?thesis by auto
  next
    case (R_Replace_Returning e)
    with assms(4) obtain y where "repository_replace_returning api enc r e s = (Ok y, s')" by auto
    from replace_returning_from_table [OF at this] assms(5) show ?thesis by auto
  qed
qed

lemmas operation_answers_map = store.answers_map

end

lemma represents_table:
  "view s (path_of (table (mapping (codec r)))) = view s' (path_of (table (mapping (codec r)))) \<Longrightarrow>
     represents E view api r s M \<longleftrightarrow> represents E view api r s' M"
  by (simp add: represents_def)

section \<open>Two repositories\<close>

locale two_entity_tables =
  one: entity_table E view r api enc gc merge + two: entity_table E view q api' enc' gc merge'
  for E :: "('v, 'row) sql_engine" and view :: "'s \<Rightarrow> 'v database"
    and r :: "('s, 'e, 'id, 'row) pg_repository" and api :: soaprs_api and enc :: encoder
    and q :: "('s, 'f, 'key, 'row) pg_repository" and api' :: soaprs_api and enc' :: encoder
    and gc :: "'row \<Rightarrow> (64 word, sqlx_error) result"
    and merge :: "'e \<Rightarrow> 'e \<Rightarrow> 'e" and merge' :: "'f \<Rightarrow> 'f \<Rightarrow> 'f" +
  assumes tables_apart: "path_of (table (mapping (codec r))) \<noteq> path_of (table (mapping (codec q)))"
begin

abbreviation do_both ::
  "('e, 'id) repo_operation + ('f, 'key) repo_operation \<Rightarrow> 's
     \<Rightarrow> ('e repo_reply + 'f repo_reply) soap_result \<times> 's" where
  "do_both \<equiv> either_do (repo_do api enc gc r) (repo_do api' enc' gc q)"

lemma independent_maps:
  assumes "represents E view api r s M" and "represents E view api' q s N"
    and "card (dom M) + length ops \<le> 2 ^ 63" and "card (dom N) + length ops \<le> 2 ^ 63"
    and "list_all admissible (lefts ops)" and "list_all admissible (rights ops)"
    and "do_all do_both ops s = (Ok xs, s')"
  shows "\<exists>M' N'. map_answers (entity_judgement E api r) (entity_id (codec r)) merge (lefts ops) M (lefts xs) M' \<and>
     map_answers (entity_judgement E api' q) (entity_id (codec q)) merge' (rights ops) N (rights xs) N' \<and>
     represents E view api r s' M' \<and> represents E view api' q s' N'"
  using assms
proof (induction ops arbitrary: s M N xs)
  case (Cons p ps)
  note M = Cons.prems(1) and N = Cons.prems(2)
  from Cons.prems(7) obtain x s1 ys where run: "do_both p s = (Ok x, s1)" and
    rest: "do_all do_both ps s1 = (Ok ys, s')" and xs: "xs = x # ys"
    by (auto simp: map_ok_eq_Ok split: prod.splits result.splits)
  from Cons.prems(3,4) have room: "card (dom M) < 2 ^ 63" "card (dom N) < 2 ^ 63" by simp_all
  show ?case
  proof (cases p)
    case (Inl a)
    with run obtain v where v: "repo_do api enc gc r a s = (Ok v, s1)" "x = Inl v" by auto
    from Cons.prems(5) Inl have a: "admissible a" by simp
    from one.operation_answers_map [OF M room(1) a v(1)] obtain M1 where
      M1: "map_answer (entity_judgement E api r) (entity_id (codec r)) merge a M v M1" "represents E view api r s1 M1" by blast
    have N1: "represents E view api' q s1 N"
      using N represents_table [of view s1 q s] one.other_tables_kept [OF M room(1) a v(1)] tables_apart by metis
    have "card (dom M1) + length ps \<le> 2 ^ 63"
      using card_map_answer(2) [OF M1(1) one.store.finite_map [OF M]] Cons.prems(3) by simp
    from Cons.IH [OF M1(2) N1 this _ _ _ rest] Cons.prems(4-6) Inl M1(1) v(2) xs show ?thesis by auto
  next
    case (Inr b)
    with run obtain v where v: "repo_do api' enc' gc q b s = (Ok v, s1)" "x = Inr v" by auto
    from Cons.prems(6) Inr have b: "admissible b" by simp
    from two.operation_answers_map [OF N room(2) b v(1)] obtain N1 where
      N1: "map_answer (entity_judgement E api' q) (entity_id (codec q)) merge' b N v N1" "represents E view api' q s1 N1" by blast
    have M1: "represents E view api r s1 M"
      using M represents_table [of view s1 r s] two.other_tables_kept [OF N room(2) b v(1)] tables_apart by metis
    have "card (dom N1) + length ps \<le> 2 ^ 63"
      using card_map_answer(2) [OF N1(1) two.store.finite_map [OF N]] Cons.prems(4) by simp
    from Cons.IH [OF M1 N1(2) _ this _ _ rest] Cons.prems(3,5,6) Inr N1(1) v(2) xs show ?thesis by auto
  qed
qed simp

end

section \<open>One transaction for both\<close>

text \<open>
  C6: one transaction commits several repositories.  Let two repositories of different entity types
  and different tables share a transaction just begun on a driver with isolated transactions.  For
  any interleaving of their operations each answers as its own map, whatever the other does; both
  committed maps stay as they were while the operations run and after a rollback, and a commit that
  succeeds publishes both.
\<close>

theorem transaction_spans_repositories:
  assumes "isolated_driver E inside committed drv"
    and "repo_source r = transaction_source conn drv" and "repo_source q = transaction_source conn' drv"
    and "two_entity_tables E (tx_view inside committed) r api q api' gc merge merge'"
    and "tx_source_begin drv w = (Ok st, w1)"
    and "represents E (\<lambda>st. committed (db (tx_world st))) api r st M"
    and "represents E (\<lambda>st. committed (db (tx_world st))) api' q st N"
    and "card (dom M) + length ops \<le> 2 ^ 63" and "card (dom N) + length ops \<le> 2 ^ 63"
    and "list_all admissible (lefts ops)" and "list_all admissible (rights ops)"
    and "do_all (either_do (repo_do api enc gc r) (repo_do api' enc' gc q)) ops st = (replies, st')"
  shows "(\<forall>s \<in> {st', snd (tx_source_rollback drv st')}.
       represents E (\<lambda>st. committed (db (tx_world st))) api r s M \<and>
       represents E (\<lambda>st. committed (db (tx_world st))) api' q s N) \<and>
     (\<forall>xs st''. replies = Ok xs \<longrightarrow> tx_source_commit drv st' = (Ok (), st'') \<longrightarrow>
        (\<exists>M' N'. map_answers (entity_judgement E api r) (entity_id (codec r)) merge (lefts ops) M (lefts xs) M' \<and>
           map_answers (entity_judgement E api' q) (entity_id (codec q)) merge' (rights ops) N (rights xs) N' \<and>
           represents E (\<lambda>st. committed (db (tx_world st))) api r st'' M' \<and>
           represents E (\<lambda>st. committed (db (tx_world st))) api' q st'' N'))"
proof -
  let ?shared = "\<lambda>st. committed (db (tx_world st))" and ?own = "tx_view inside committed"
  let ?f = "either_do (repo_do api enc gc r) (repo_do api' enc' gc q)"
  have "?shared (snd (?f p s)) = ?shared s \<and> tx_state (snd (?f p s)) = tx_state s" for p s
    using isolated_driver.repo_do_hidden [OF assms(1,2)] isolated_driver.repo_do_hidden [OF assms(1,3)]
    by (cases p) simp_all
  note views = isolated_driver.bracket [OF assms(1,5) this assms(12)]
  note move = represents_view [where E = E]
  have kept: "represents E ?shared api r s M" "represents E ?shared api' q s N" if "?shared s = ?shared st" for s
    using assms(6,7) move [of ?shared s ?shared st api r M] move [of ?shared s ?shared st api' q N] that by blast+
  have own: "represents E ?own api r st M" "represents E ?own api' q st N"
    using assms(6,7) move [of ?own st ?shared st api r M] move [of ?own st ?shared st api' q N] views(1) by blast+
  have "\<exists>M' N'. map_answers (entity_judgement E api r) (entity_id (codec r)) merge (lefts ops) M (lefts xs) M' \<and>
      map_answers (entity_judgement E api' q) (entity_id (codec q)) merge' (rights ops) N (rights xs) N' \<and>
      represents E ?shared api r st'' M' \<and> represents E ?shared api' q st'' N'"
    if "replies = Ok xs" and commit: "tx_source_commit drv st' = (Ok (), st'')" for xs st''
  proof -
    from that(1) assms(12) have run: "do_all ?f ops st = (Ok xs, st')" by simp
    from two_entity_tables.independent_maps [OF assms(4) own assms(8-11) run] obtain M' N' where
      maps: "map_answers (entity_judgement E api r) (entity_id (codec r)) merge (lefts ops) M (lefts xs) M'"
        "map_answers (entity_judgement E api' q) (entity_id (codec q)) merge' (rights ops) N (rights xs) N'" and
      new: "represents E ?own api r st' M'" "represents E ?own api' q st' N'" by blast
    from new have "represents E ?shared api r st'' M'" "represents E ?shared api' q st'' N'"
      using move [of ?shared st'' ?own st' api r M'] move [of ?shared st'' ?own st' api' q N']
        views(4) [OF commit] by blast+
    with maps show ?thesis by blast
  qed
  then show ?thesis using kept [OF views(2)] kept [OF views(3)] by blast
qed

text \<open>Users and orders, in a transaction of the reference driver.\<close>

interpretation account_orders:
  entity_table account_engine "tx_view (\<lambda>_. snd) fst" "account_repository ''orders'' account_transaction"
    sample_api encodes_all account_count rename
  by (rule account_entity_table [OF _ account_driver.own_table_source account_transaction_keys]) simp

interpretation users_and_orders:
  two_entity_tables account_engine "tx_view (\<lambda>_. snd) fst" "account_repository ''users'' account_transaction"
    sample_api encodes_all "account_repository ''orders'' account_transaction" sample_api encodes_all account_count rename rename
  by (intro two_entity_tables.intro two_entity_tables_axioms.intro account_transactions.entity_table_axioms
      account_orders.entity_table_axioms) simp

theorem transaction_spans_repositories_witness:
  "\<exists>st w1 st1 st2.
     tx_source_begin account_driver \<lparr>db = (\<lambda>_. [], \<lambda>_. []), issued = []\<rparr> = (Ok st, w1) \<and>
     do_all (either_do
         (repo_do sample_api encodes_all account_count (account_repository ''users'' account_transaction))
         (repo_do sample_api encodes_all account_count (account_repository ''orders'' account_transaction)))
       [Inl (R_Insert (9, ''Ada'')), Inr (R_Insert (9, ''Pen''))] st = (Ok [Inl Written, Inr Written], st1) \<and>
     tx_source_commit account_driver st1 = (Ok (), st2) \<and>
     represents account_engine account_driver.shared_view sample_api
       (account_repository ''users'' account_transaction) st2 [9 \<mapsto> (9, ''Ada'')] \<and>
     represents account_engine account_driver.shared_view sample_api
       (account_repository ''orders'' account_transaction) st2 [9 \<mapsto> (9, ''Pen'')]"
proof -
  let ?r = "account_repository ''users'' account_transaction" and ?q = "account_repository ''orders'' account_transaction"
  let ?f = "either_do (repo_do sample_api encodes_all account_count ?r) (repo_do sample_api encodes_all account_count ?q)"
  let ?w = "\<lparr>db = (\<lambda>_. [], \<lambda>_. []), issued = []\<rparr>" and ?ops = "[Inl (R_Insert (9, ''Ada'')), Inr (R_Insert (9, ''Pen''))]"
  obtain st w1 where start: "tx_source_begin account_driver ?w = (Ok st, w1)"
    and st: "tx_state st = Active ()" "db (tx_world st) = (\<lambda>_. [], \<lambda>_. [])"
    by (simp add: tx_source_begin_def account_driver_def copying_driver_def issue_eq)
  then have "account_keys (snd (db (tx_world st)))" by (simp add: account_keys_def)
  with account_transaction_insert [of "''users''" st 9 "''Ada''"] st obtain st0 where
    one: "repository_insert sample_api encodes_all ?r (9, ''Ada'') st = (Ok (), st0)" and
    st0: "tx_state st0 = Active ()" "account_keys (snd (db (tx_world st0)))"
      "snd (db (tx_world st0)) (Some ''app'', ''orders'') = []" by auto
  from account_transaction_insert [of "''orders''" st0 9 "''Pen''"] st0 obtain st1 where
    two: "repository_insert sample_api encodes_all ?q (9, ''Pen'') st0 = (Ok (), st1)" and
    st1: "tx_state st1 = Active ()" by auto
  have run: "do_all ?f ?ops st = (Ok [Inl Written, Inr Written], st1)" by (simp add: one two)
  obtain st2 where commit: "tx_source_commit account_driver st1 = (Ok (), st2)"
    using st1 by (simp add: tx_source_commit_def take_active_def account_driver_def copying_driver_def issue_eq)
  have empty: "represents account_engine account_driver.shared_view sample_api (account_repository t account_transaction)
      st Map.empty" for t
    using st(2) by (simp add: represents_def)
  from transaction_spans_repositories [OF account_driver.isolated_driver_axioms _ _
      users_and_orders.two_entity_tables_axioms start empty empty _ _ _ _ run] commit
  have "represents account_engine account_driver.shared_view sample_api ?r st2 [9 \<mapsto> (9, ''Ada'')] \<and>
      represents account_engine account_driver.shared_view sample_api ?q st2 [9 \<mapsto> (9, ''Pen'')]" by auto
  with start run commit show ?thesis by blast
qed

end
