(* ===== verification/Transaction_Steps.thy ===== *)
theory Transaction_Steps
  imports Transaction
begin

text \<open>
  The interleavings of \<open>src/postgres/transaction.rs\<close>.  Any number of tasks share one source; each
  runs an operation, a commit or a rollback.  A task waits for the mutex, looks at the state under
  the guard, and then either fails, or awaits its statement with the guard held (an operation), or
  takes the transaction out, releases the guard, and ends the transaction without it (commit and
  rollback).  A task may also be dropped at any await point: a held guard is released, and a
  transaction whose commit or rollback is still in flight is rolled back by its destructor
  (documented behaviour of the driver).  Between \<open>take_active\<close> and the end it leads to there is no
  await point, so a task is not dropped there.
\<close>

datatype job = Statement_Job driver_call string pg_arguments | Commit_Job | Rollback_Job

datatype pc = Not_Started | Waiting | Holding | Running | Taken | Ending | Finished | Dropped

record tx_system =
  mutex :: "nat option"
  live :: bool
  pcs :: "nat \<Rightarrow> pc"
  log :: "event list"

definition tx_system_init :: tx_system where
  "tx_system_init = \<lparr>mutex = None, live = True, pcs = (\<lambda>_. Not_Started), log = []\<rparr>"

fun end_event :: "job \<Rightarrow> event" where
  "end_event Commit_Job = Commit_Tx"
| "end_event _ = Rollback_Tx"

text \<open>One step of task \<open>i\<close>; the transaction's connection is number \<open>conn\<close>.\<close>

inductive tx_step :: "nat \<Rightarrow> job list \<Rightarrow> nat \<Rightarrow> tx_system \<Rightarrow> tx_system \<Rightarrow> bool"
  for conn :: nat and jobs :: "job list" where
  poll: "i < length jobs \<Longrightarrow> pcs s i = Not_Started \<Longrightarrow>
    tx_step conn jobs i s (s\<lparr>pcs := (pcs s)(i := Waiting)\<rparr>)"
| acquire: "pcs s i = Waiting \<Longrightarrow> mutex s = None \<Longrightarrow>
    tx_step conn jobs i s (s\<lparr>mutex := Some i, pcs := (pcs s)(i := Holding)\<rparr>)"
| reject: "pcs s i = Holding \<Longrightarrow> \<not> live s \<Longrightarrow>
    tx_step conn jobs i s (s\<lparr>mutex := None, pcs := (pcs s)(i := Finished)\<rparr>)"
| send: "pcs s i = Holding \<Longrightarrow> live s \<Longrightarrow> jobs ! i = Statement_Job call q a \<Longrightarrow>
    tx_step conn jobs i s
      (s\<lparr>pcs := (pcs s)(i := Running), log := log s @ [Statement conn call q a]\<rparr>)"
| reply: "pcs s i = Running \<Longrightarrow>
    tx_step conn jobs i s (s\<lparr>mutex := None, pcs := (pcs s)(i := Finished)\<rparr>)"
| take: "pcs s i = Holding \<Longrightarrow> live s \<Longrightarrow> jobs ! i \<in> {Commit_Job, Rollback_Job} \<Longrightarrow>
    tx_step conn jobs i s (s\<lparr>mutex := None, live := False, pcs := (pcs s)(i := Taken)\<rparr>)"
| finish_tx: "pcs s i = Taken \<Longrightarrow>
    tx_step conn jobs i s
      (s\<lparr>pcs := (pcs s)(i := Ending), log := log s @ [end_event (jobs ! i)]\<rparr>)"
| ended: "pcs s i = Ending \<Longrightarrow>
    tx_step conn jobs i s (s\<lparr>pcs := (pcs s)(i := Finished)\<rparr>)"

text \<open>Task \<open>i\<close> is dropped.\<close>

inductive tx_cancel :: "nat \<Rightarrow> tx_system \<Rightarrow> tx_system \<Rightarrow> bool" where
  drop_idle: "pcs s i = Waiting \<Longrightarrow> tx_cancel i s (s\<lparr>pcs := (pcs s)(i := Dropped)\<rparr>)"
| drop_guard: "pcs s i = Holding \<or> pcs s i = Running \<Longrightarrow>
    tx_cancel i s (s\<lparr>mutex := None, pcs := (pcs s)(i := Dropped)\<rparr>)"
| drop_owner: "pcs s i = Ending \<Longrightarrow>
    tx_cancel i s (s\<lparr>pcs := (pcs s)(i := Dropped), log := log s @ [Rollback_Tx]\<rparr>)"

inductive tx_reachable :: "nat \<Rightarrow> job list \<Rightarrow> tx_system \<Rightarrow> bool"
  for conn :: nat and jobs :: "job list" where
  start: "tx_reachable conn jobs tx_system_init"
| step: "tx_reachable conn jobs s \<Longrightarrow> tx_step conn jobs i s t \<Longrightarrow> tx_reachable conn jobs t"
| cancel: "tx_reachable conn jobs s \<Longrightarrow> tx_cancel i s t \<Longrightarrow> tx_reachable conn jobs t"

inductive_cases tx_stepE: "tx_step conn jobs i s t"
inductive_cases tx_cancelE: "tx_cancel i s t"

section \<open>The invariant\<close>

fun is_end_event :: "event \<Rightarrow> bool" where
  "is_end_event Commit_Tx = True"
| "is_end_event Rollback_Tx = True"
| "is_end_event _ = False"

text \<open>No statement after an end.\<close>

fun ends_last :: "event list \<Rightarrow> bool" where
  "ends_last [] = True"
| "ends_last (e # es) = (if is_end_event e then list_all is_end_event es else ends_last es)"

lemma ends_last_statement:
  "list_all (\<lambda>e. \<not> is_end_event e) es \<Longrightarrow> ends_last (es @ [e])"
  by (induction es) auto

lemma ends_last_end: "ends_last es \<Longrightarrow> is_end_event e \<Longrightarrow> ends_last (es @ [e])"
  by (induction es) auto

lemma is_end_event_end_event [simp]: "is_end_event (end_event j)"
  by (cases j) auto

definition guarded :: "tx_system \<Rightarrow> nat \<Rightarrow> bool" where
  "guarded s i \<longleftrightarrow> pcs s i = Holding \<or> pcs s i = Running"

definition owning :: "tx_system \<Rightarrow> nat \<Rightarrow> bool" where
  "owning s i \<longleftrightarrow> pcs s i = Taken \<or> pcs s i = Ending"

definition no_end :: "tx_system \<Rightarrow> bool" where
  "no_end s \<longleftrightarrow> list_all (\<lambda>e. \<not> is_end_event e) (log s)"

definition tx_inv :: "job list \<Rightarrow> tx_system \<Rightarrow> bool" where
  "tx_inv jobs s \<longleftrightarrow>
     (\<forall>i. guarded s i \<longrightarrow> mutex s = Some i) \<and>
     (\<forall>i. mutex s = Some i \<longrightarrow> guarded s i) \<and>
     (\<forall>i. pcs s i = Running \<longrightarrow> live s) \<and>
     (live s \<longrightarrow> no_end s \<and> (\<forall>i. \<not> owning s i)) \<and>
     (\<forall>i j. owning s i \<longrightarrow> owning s j \<longrightarrow> i = j) \<and>
     (\<forall>i. pcs s i = Taken \<longrightarrow> no_end s) \<and>
     ends_last (log s) \<and> count_list (log s) Commit_Tx \<le> 1 \<and>
     (\<forall>i. length jobs \<le> i \<longrightarrow> pcs s i = Not_Started)"

lemmas tx_inv_defs = tx_inv_def guarded_def owning_def no_end_def

lemma tx_inv_init: "tx_inv jobs tx_system_init"
  by (simp add: tx_inv_defs tx_system_init_def)

lemma count_no_end: "list_all (\<lambda>e. \<not> is_end_event e) es \<Longrightarrow> count_list es Commit_Tx = 0"
  by (induction es) auto

lemma count_append_one: "count_list (es @ [e]) x = count_list es x + (if e = x then 1 else 0)"
  by (induction es) auto

lemma tx_inv_parts:
  assumes "tx_inv jobs s"
  shows "guarded s i \<longleftrightarrow> mutex s = Some i" and "pcs s i = Running \<Longrightarrow> live s"
    and "live s \<Longrightarrow> no_end s" and "live s \<Longrightarrow> \<not> owning s i"
    and "owning s i \<Longrightarrow> owning s j \<Longrightarrow> i = j" and "pcs s i = Taken \<Longrightarrow> no_end s"
    and "ends_last (log s)" and "count_list (log s) Commit_Tx \<le> 1"
    and "length jobs \<le> i \<Longrightarrow> pcs s i = Not_Started"
  using assms unfolding tx_inv_def by blast+

text \<open>Task \<open>i\<close> moves, the others stay where they were.\<close>

lemma guarded_upd [simp]:
  "guarded (s\<lparr>mutex := m, live := v, pcs := (pcs s)(i := p), log := l\<rparr>) j \<longleftrightarrow>
     (if j = i then p = Holding \<or> p = Running else guarded s j)"
  by (simp add: guarded_def)

lemma owning_upd [simp]:
  "owning (s\<lparr>mutex := m, live := v, pcs := (pcs s)(i := p), log := l\<rparr>) j \<longleftrightarrow>
     (if j = i then p = Taken \<or> p = Ending else owning s j)"
  by (simp add: owning_def)

lemma tx_move_inv:
  assumes inv: "tx_inv jobs s" and i: "i < length jobs"
    and m: "m = (if p = Holding \<or> p = Running then Some i
                 else if mutex s = Some i then None else mutex s)"
    and free: "p = Holding \<or> p = Running \<Longrightarrow> mutex s = None \<or> mutex s = Some i"
    and running: "p = Running \<Longrightarrow> v" and fades: "v \<Longrightarrow> live s"
    and dies: "live s \<Longrightarrow> \<not> v \<Longrightarrow> mutex s = Some i \<and> l = log s"
    and owns: "p = Taken \<or> p = Ending \<Longrightarrow> \<not> v \<and> (owning s i \<or> live s)"
    and taken: "p = Taken \<Longrightarrow> l = log s \<and> live s"
    and events: "l = log s \<or> (\<exists>e. l = log s @ [e] \<and>
      (if is_end_event e then owning s i \<and> p \<noteq> Taken \<and> \<not> v \<and> (e = Commit_Tx \<longrightarrow> pcs s i = Taken) else live s))"
  shows "tx_inv jobs (s\<lparr>mutex := m, live := v, pcs := (pcs s)(i := p), log := l\<rparr>)"
proof -
  let ?t = "s\<lparr>mutex := m, live := v, pcs := (pcs s)(i := p), log := l\<rparr>"
  note parts = tx_inv_parts [OF inv]
  have no_end_t: "no_end ?t" if "no_end s" "l = log s \<or> (\<exists>e. l = log s @ [e] \<and> \<not> is_end_event e)"
    using that by (auto simp: no_end_def)
  have guard: "guarded ?t j \<longleftrightarrow> mutex ?t = Some j" for j
    using parts(1) [of j] parts(1) [of i] m free by auto
  have running_t: "live ?t" if "pcs ?t j = Running" for j
  proof (cases "j = i")
    case False
    with that have "pcs s j = Running" by simp
    then have "mutex s = Some j" "live s" using parts(1,2) [of j] by (simp_all add: guarded_def)
    with dies False show ?thesis by auto
  qed (use that running in simp)
  have live_t: "no_end ?t" if "live ?t"
    using that fades parts(3) events by (intro no_end_t) (auto split: if_splits)
  have owner_t: "\<not> owning ?t j" if "live ?t" for j
    using that fades parts(4) [of j] owns by auto
  have unique_t: "j = k" if "owning ?t j" "owning ?t k" for j k
    using that owns parts(4) parts(5) [of i j] parts(5) [of i k] parts(5) [of j k]
    by (auto split: if_splits)
  have taken_t: "no_end ?t" if "pcs ?t j = Taken" for j
  proof (cases "j = i")
    case True
    with that taken parts(3) show ?thesis by (simp add: no_end_def)
  next
    case False
    with that have j: "pcs s j = Taken" "owning s j" by (auto simp: owning_def)
    with False parts(5) [of i j] have "\<not> owning s i" by blast
    with j parts(6) [of j] events show ?thesis by (intro no_end_t) (auto split: if_splits)
  qed
  have last_t: "ends_last l" using events
  proof
    assume "\<exists>e. l = log s @ [e] \<and>
      (if is_end_event e then owning s i \<and> p \<noteq> Taken \<and> \<not> v \<and> (e = Commit_Tx \<longrightarrow> pcs s i = Taken) else live s)"
    then show ?thesis using parts(3,7)
      by (auto simp: no_end_def intro: ends_last_end ends_last_statement split: if_splits)
  qed (use parts(7) in simp)
  have count_t: "count_list l Commit_Tx \<le> 1" using events
  proof
    assume "\<exists>e. l = log s @ [e] \<and>
      (if is_end_event e then owning s i \<and> p \<noteq> Taken \<and> \<not> v \<and> (e = Commit_Tx \<longrightarrow> pcs s i = Taken) else live s)"
    then show ?thesis using parts(6) [of i] parts(8)
      by (auto simp: no_end_def count_append_one count_no_end)
  qed (use parts(8) in simp)
  have idle_t: "pcs ?t j = Not_Started" if "length jobs \<le> j" for j
    using that i parts(9) [of j] by auto
  show ?thesis unfolding tx_inv_def
  proof (intro conjI allI impI)
    show "ends_last (log ?t)" "count_list (log ?t) Commit_Tx \<le> 1"
      using last_t count_t by simp_all
    show "mutex ?t = Some j" if "guarded ?t j" for j using guard that by blast
    show "guarded ?t j" if "mutex ?t = Some j" for j using guard that by blast
    show "\<not> owning ?t j" if "live ?t" for j using owner_t that .
    show "j = k" if "owning ?t j" "owning ?t k" for j k using unique_t that .
  qed (use running_t live_t taken_t idle_t in blast)+
qed

lemma started_is_job: "tx_inv jobs s \<Longrightarrow> pcs s i \<noteq> Not_Started \<Longrightarrow> i < length jobs"
  using tx_inv_parts(9) leI by blast

lemma tx_moved_inv:
  assumes "tx_inv jobs s"
    and "t = s\<lparr>mutex := mutex t, live := live t, pcs := (pcs s)(i := pcs t i), log := log t\<rparr>"
    and "i < length jobs"
    and "mutex t = (if pcs t i = Holding \<or> pcs t i = Running then Some i
                    else if mutex s = Some i then None else mutex s)"
    and "pcs t i = Holding \<or> pcs t i = Running \<Longrightarrow> mutex s = None \<or> mutex s = Some i"
    and "pcs t i = Running \<Longrightarrow> live t" and "live t \<Longrightarrow> live s"
    and "live s \<Longrightarrow> \<not> live t \<Longrightarrow> mutex s = Some i \<and> log t = log s"
    and "pcs t i = Taken \<or> pcs t i = Ending \<Longrightarrow> \<not> live t \<and> (owning s i \<or> live s)"
    and "pcs t i = Taken \<Longrightarrow> log t = log s \<and> live s"
    and "log t = log s \<or> (\<exists>e. log t = log s @ [e] \<and>
      (if is_end_event e then owning s i \<and> pcs t i \<noteq> Taken \<and> \<not> live t \<and>
         (e = Commit_Tx \<longrightarrow> pcs s i = Taken) else live s))"
  shows "tx_inv jobs t"
proof -
  have "tx_inv jobs (s\<lparr>mutex := mutex t, live := live t, pcs := (pcs s)(i := pcs t i), log := log t\<rparr>)"
    by (rule tx_move_inv [OF assms(1,3,4)]) (fact assms(5-))+
  with assms(2) show ?thesis by (rule ssubst [where P = "tx_inv jobs"])
qed

lemma tx_step_inv: "tx_step conn jobs i s t \<Longrightarrow> tx_inv jobs s \<Longrightarrow> tx_inv jobs t"
proof (induction rule: tx_step.induct)
  case (poll i s)
  show ?case
    by (rule tx_moved_inv [of jobs s _ i])
      (use poll tx_inv_parts(1) [of jobs s i] in \<open>auto simp: guarded_def\<close>)+
next
  case (acquire s i)
  show ?case
    by (rule tx_moved_inv [of jobs s _ i])
      (use acquire in \<open>auto intro: started_is_job\<close>)+
next
  case (reject s i)
  show ?case
    by (rule tx_moved_inv [of jobs s _ i])
      (use reject tx_inv_parts(1) [of jobs s i] in \<open>auto simp: guarded_def intro: started_is_job\<close>)+
next
  case (send s i call q a)
  show ?case
    by (rule tx_moved_inv [of jobs s _ i])
      (use send tx_inv_parts(1) [of jobs s i] in \<open>auto simp: guarded_def intro: started_is_job\<close>)+
next
  case (reply s i)
  show ?case
    by (rule tx_moved_inv [of jobs s _ i])
      (use reply tx_inv_parts(1) [of jobs s i] in \<open>auto simp: guarded_def intro: started_is_job\<close>)+
next
  case (take s i)
  show ?case
    by (rule tx_moved_inv [of jobs s _ i])
      (use take tx_inv_parts(1) [of jobs s i] in \<open>auto simp: guarded_def intro: started_is_job\<close>)+
next
  case (finish_tx s i)
  show ?case
    by (rule tx_moved_inv [of jobs s _ i])
      (use finish_tx tx_inv_parts(1,4) [of jobs s i] in
        \<open>auto simp: guarded_def owning_def intro: started_is_job\<close>)+
next
  case (ended s i)
  show ?case
    by (rule tx_moved_inv [of jobs s _ i])
      (use ended tx_inv_parts(1) [of jobs s i] in \<open>auto simp: guarded_def intro: started_is_job\<close>)+
qed

lemma tx_cancel_inv: "tx_cancel i s t \<Longrightarrow> tx_inv jobs s \<Longrightarrow> tx_inv jobs t"
proof (induction rule: tx_cancel.induct)
  case (drop_idle s i)
  show ?case
    by (rule tx_moved_inv [of jobs s _ i])
      (use drop_idle tx_inv_parts(1) [of jobs s i] in \<open>auto simp: guarded_def intro: started_is_job\<close>)+
next
  case (drop_guard s i)
  show ?case
    by (rule tx_moved_inv [of jobs s _ i])
      (use drop_guard tx_inv_parts(1) [of jobs s i] in \<open>auto simp: guarded_def intro: started_is_job\<close>)+
next
  case (drop_owner s i)
  show ?case
    by (rule tx_moved_inv [of jobs s _ i])
      (use drop_owner tx_inv_parts(1,4) [of jobs s i] in
        \<open>auto simp: guarded_def owning_def intro: started_is_job\<close>)+
qed

lemma tx_reachable_inv: "tx_reachable conn jobs s \<Longrightarrow> tx_inv jobs s"
  by (induction rule: tx_reachable.induct) (auto intro: tx_inv_init tx_step_inv tx_cancel_inv)

section \<open>Which end events are sent\<close>

definition ends :: "tx_system \<Rightarrow> event list" where
  "ends s = filter is_end_event (log s)"

text \<open>
  Task \<open>i\<close> is the one that ends the transaction: how far it is decides which end events are on the
  connection, and no other task owns the transaction.
\<close>

definition ended_by :: "job list \<Rightarrow> tx_system \<Rightarrow> nat \<Rightarrow> bool" where
  "ended_by jobs s i \<longleftrightarrow> jobs ! i \<in> {Commit_Job, Rollback_Job} \<and> (\<forall>j. owning s j \<longrightarrow> j = i) \<and>
     (pcs s i = Taken \<and> ends s = [] \<or>
      pcs s i \<in> {Ending, Finished} \<and> ends s = [end_event (jobs ! i)] \<or>
      pcs s i = Dropped \<and> ends s = [end_event (jobs ! i), Rollback_Tx])"

definition ends_inv :: "job list \<Rightarrow> tx_system \<Rightarrow> bool" where
  "ends_inv jobs s \<longleftrightarrow> (if live s then ends s = [] else (\<exists>i < length jobs. ended_by jobs s i))"

lemma live_no_ends: "tx_inv jobs s \<Longrightarrow> live s \<Longrightarrow> ends s = []"
  using tx_inv_parts(3) by (fastforce simp: no_end_def ends_def list_all_iff filter_empty_conv)

text \<open>A step of a task that does not own the transaction, and does not come to own it.\<close>

lemma bystander:
  assumes "ended_by jobs s i" and "pcs t i = pcs s i" and "ends t = ends s"
    and "\<And>j. owning t j \<longleftrightarrow> owning s j"
  shows "ended_by jobs t i"
  using assms by (simp add: ended_by_def)

lemma ended_by_pcs: "ended_by jobs s i \<Longrightarrow> pcs s i \<in> {Taken, Ending, Finished, Dropped}"
  by (auto simp: ended_by_def)

lemma bystander_moves:
  assumes "ends_inv jobs s" and "live t = live s" and "ends t = ends s"
    and "\<And>j. j \<noteq> k \<Longrightarrow> pcs t j = pcs s j"
    and "pcs s k \<in> {Not_Started, Waiting, Holding, Running}" and "pcs t k \<notin> {Taken, Ending}"
  shows "ends_inv jobs t"
proof -
  have owners: "owning t j \<longleftrightarrow> owning s j" for j
    using assms(4-) by (cases "j = k") (auto simp: owning_def)
  have "ended_by jobs t i" if "ended_by jobs s i" for i
  proof -
    from ended_by_pcs [OF that] assms(5) have "i \<noteq> k" by auto
    with that show ?thesis using assms(3,4) owners by (blast intro: bystander)
  qed
  with assms(1-3) show ?thesis unfolding ends_inv_def by metis
qed

lemma owner_ends:
  assumes "ends_inv jobs s" and "tx_inv jobs s" and "owning s k"
  shows "\<not> live s" and "k < length jobs" and "ended_by jobs s k"
proof -
  show "\<not> live s" using tx_inv_parts(4) [OF assms(2)] assms(3) by blast
  with assms(1) obtain i where "i < length jobs" "ended_by jobs s i" by (auto simp: ends_inv_def)
  moreover from this assms(3) have "k = i" by (simp add: ended_by_def)
  ultimately show "k < length jobs" "ended_by jobs s k" by simp_all
qed

text \<open>A step of the task that owns the transaction.\<close>

lemma owner_moves:
  assumes "ends_inv jobs s" and "tx_inv jobs s" and "owning s k" and "live t = live s"
    and "\<And>j. j \<noteq> k \<Longrightarrow> pcs t j = pcs s j"
    and "ends s = (if pcs s k = Taken then [] else [end_event (jobs ! k)]) \<Longrightarrow>
      pcs t k \<in> {Ending, Finished} \<and> ends t = [end_event (jobs ! k)] \<or>
      pcs t k = Dropped \<and> ends t = [end_event (jobs ! k), Rollback_Tx]"
  shows "ends_inv jobs t"
proof -
  note owner = owner_ends [OF assms(1-3)]
  have "\<not> owning t j" if "j \<noteq> k" for j
    using that assms(5) [OF that] tx_inv_parts(5) [OF assms(2), of j k] assms(3) by (auto simp: owning_def)
  then have only: "\<forall>j. owning t j \<longrightarrow> j = k" by blast
  have "ends s = (if pcs s k = Taken then [] else [end_event (jobs ! k)])"
    using owner(3)[unfolded ended_by_def, THEN conjunct2, THEN conjunct2] assms(3)[unfolded owning_def]
    by auto
  from assms(6) [OF this] only owner(3) have "ended_by jobs t k"
    unfolding ended_by_def by blast
  with owner(1,2) assms(4) show ?thesis by (auto simp: ends_inv_def)
qed

lemma tx_step_ends: "tx_step conn jobs i s t \<Longrightarrow> tx_inv jobs s \<Longrightarrow> ends_inv jobs s \<Longrightarrow> ends_inv jobs t"
proof (induction rule: tx_step.induct)
  case (take s i)
  then have "\<not> owning s j" for j using tx_inv_parts(4) by blast
  then have "ended_by jobs (s\<lparr>mutex := None, live := False, pcs := (pcs s)(i := Taken)\<rparr>) i"
    using take live_no_ends [of jobs s] by (auto simp: ended_by_def owning_def ends_def)
  moreover have "i < length jobs" using take by (auto intro: started_is_job)
  ultimately show ?case unfolding ends_inv_def by auto
next
  case (finish_tx s i)
  then show ?case
    by - (rule owner_moves [of jobs s i], simp_all add: owning_def ends_def)
next
  case (ended s i)
  then show ?case
    by - (rule owner_moves [of jobs s i], simp_all add: owning_def ends_def)
next
  case (poll i s)
  then show ?case by - (rule bystander_moves [of jobs s _ i], auto simp: ends_def)
next
  case (acquire s i)
  then show ?case by - (rule bystander_moves [of jobs s _ i], auto simp: ends_def)
next
  case (reject s i)
  then show ?case by - (rule bystander_moves [of jobs s _ i], auto simp: ends_def)
next
  case (send s i call q a)
  then show ?case by - (rule bystander_moves [of jobs s _ i], auto simp: ends_def)
next
  case (reply s i)
  then show ?case by - (rule bystander_moves [of jobs s _ i], auto simp: ends_def)
qed

lemma tx_cancel_ends: "tx_cancel i s t \<Longrightarrow> tx_inv jobs s \<Longrightarrow> ends_inv jobs s \<Longrightarrow> ends_inv jobs t"
proof (induction rule: tx_cancel.induct)
  case (drop_owner s i)
  then show ?case
    by - (rule owner_moves [of jobs s i], simp_all add: owning_def ends_def)
next
  case (drop_idle s i)
  then show ?case by - (rule bystander_moves [of jobs s _ i], auto simp: ends_def)
next
  case (drop_guard s i)
  then show ?case by - (rule bystander_moves [of jobs s _ i], auto simp: ends_def)
qed

lemma ends_inv_init: "ends_inv jobs tx_system_init"
  by (simp add: ends_inv_def ends_def tx_system_init_def)

lemma tx_reachable_ends: "tx_reachable conn jobs s \<Longrightarrow> ends_inv jobs s"
proof (induction rule: tx_reachable.induct)
  case start
  show ?case by (rule ends_inv_init)
next
  case (step s i t)
  then show ?case using tx_step_ends tx_reachable_inv by blast
next
  case (cancel s i t)
  then show ?case using tx_cancel_ends tx_reachable_inv by blast
qed

section \<open>Progress\<close>

fun rank :: "pc \<Rightarrow> nat" where
  "rank Not_Started = 5"
| "rank Waiting = 4"
| "rank Holding = 3"
| "rank Running = 2"
| "rank Taken = 2"
| "rank Ending = 1"
| "rank Finished = 0"
| "rank Dropped = 0"

definition work :: "job list \<Rightarrow> tx_system \<Rightarrow> nat" where
  "work jobs s = (\<Sum>i < length jobs. rank (pcs s i))"

definition all_done :: "job list \<Rightarrow> tx_system \<Rightarrow> bool" where
  "all_done jobs s \<longleftrightarrow> (\<forall>i < length jobs. rank (pcs s i) = 0)"

lemma tx_step_rank:
  "tx_step conn jobs i s t \<Longrightarrow> rank (pcs t i) < rank (pcs s i) \<and> (\<forall>j. j \<noteq> i \<longrightarrow> pcs t j = pcs s j)"
  by (induction rule: tx_step.induct) auto

lemma tx_cancel_rank:
  "tx_cancel i s t \<Longrightarrow> rank (pcs t i) < rank (pcs s i) \<and> (\<forall>j. j \<noteq> i \<longrightarrow> pcs t j = pcs s j)"
  by (induction rule: tx_cancel.induct) auto

lemma work_decreases:
  assumes "rank (pcs t i) < rank (pcs s i) \<and> (\<forall>j. j \<noteq> i \<longrightarrow> pcs t j = pcs s j)" and "i < length jobs"
  shows "work jobs t < work jobs s"
proof -
  have "\<forall>j \<in> {..<length jobs}. rank (pcs t j) \<le> rank (pcs s j)"
    using assms(1) by (metis less_imp_le order_refl)
  with assms show ?thesis
    unfolding work_def by (intro sum_strict_mono_ex1) auto
qed

lemma tx_step_work:
  assumes "tx_step conn jobs i s t" and "tx_inv jobs s"
  shows "work jobs t < work jobs s"
proof (rule work_decreases [OF tx_step_rank [OF assms(1)]], rule ccontr)
  assume "\<not> i < length jobs"
  with assms(2) have "pcs s i = Not_Started" by (simp add: tx_inv_def)
  with assms(1) \<open>\<not> i < length jobs\<close> show False by (auto elim: tx_stepE)
qed

lemma tx_cancel_work: "tx_cancel i s t \<Longrightarrow> tx_inv jobs s \<Longrightarrow> work jobs t < work jobs s"
  by (rule work_decreases [OF tx_cancel_rank started_is_job]) (auto elim: tx_cancelE)

lemma tx_progress:
  assumes inv: "tx_inv jobs s" and "\<not> all_done jobs s"
  shows "\<exists>i t. tx_step conn jobs i s t"
proof -
  from assms(2) obtain i where i: "i < length jobs" "rank (pcs s i) \<noteq> 0"
    by (auto simp: all_done_def)
  show ?thesis
  proof (cases "mutex s")
    case (Some j)
    with inv have "pcs s j = Holding \<or> pcs s j = Running" by (auto simp: tx_inv_defs)
    then show ?thesis
    proof
      assume h: "pcs s j = Holding"
      show ?thesis
      proof (cases "live s")
        case True
        then show ?thesis
          using h by (cases "jobs ! j") (blast intro: tx_step.send tx_step.take | fastforce intro: tx_step.take)+
      next
        case False
        with h show ?thesis by (blast intro: tx_step.reject)
      qed
    qed (blast intro: tx_step.reply)
  next
    case None
    with inv have "\<not> guarded s i" by (auto simp: tx_inv_defs)
    with i None show ?thesis
      by (cases "pcs s i") (auto simp: guarded_def intro: tx_step.intros)
  qed
qed

text \<open>Steps of the tasks alone, without drops.\<close>

inductive tx_steps :: "nat \<Rightarrow> job list \<Rightarrow> nat \<Rightarrow> tx_system \<Rightarrow> tx_system \<Rightarrow> bool"
  for conn :: nat and jobs :: "job list" where
  none: "tx_steps conn jobs 0 s s"
| more: "tx_step conn jobs i s t \<Longrightarrow> tx_steps conn jobs n t u \<Longrightarrow> tx_steps conn jobs (Suc n) s u"

lemma tx_steps_inv: "tx_steps conn jobs n s u \<Longrightarrow> tx_inv jobs s \<Longrightarrow> tx_inv jobs u"
  by (induction rule: tx_steps.induct) (auto intro: tx_step_inv)

lemma tx_step_no_drop:
  "tx_step conn jobs i s t \<Longrightarrow> pcs s j \<noteq> Dropped \<Longrightarrow> pcs t j \<noteq> Dropped"
  by (induction rule: tx_step.induct) auto

lemma tx_steps_no_drop: "tx_steps conn jobs n s u \<Longrightarrow> pcs s j \<noteq> Dropped \<Longrightarrow> pcs u j \<noteq> Dropped"
  by (induction rule: tx_steps.induct) (auto dest: tx_step_no_drop)

lemma tx_completes: "tx_inv jobs s \<Longrightarrow> \<exists>n u. tx_steps conn jobs n s u \<and> all_done jobs u"
proof (induction "work jobs s" arbitrary: s rule: less_induct)
  case less
  show ?case
  proof (cases "all_done jobs s")
    case True
    then show ?thesis by (blast intro: tx_steps.none)
  next
    case False
    from tx_progress [OF less.prems False] obtain i t where t: "tx_step conn jobs i s t" by blast
    from less.hyps [OF tx_step_work [OF t less.prems] tx_step_inv [OF t less.prems]]
    show ?thesis using t by (blast intro: tx_steps.more)
  qed
qed

text \<open>Schedules: the tasks step and are dropped, in any order.\<close>

inductive tx_moves :: "nat \<Rightarrow> job list \<Rightarrow> nat \<Rightarrow> tx_system \<Rightarrow> tx_system \<Rightarrow> bool"
  for conn :: nat and jobs :: "job list" where
  settled: "tx_moves conn jobs 0 s s"
| move: "tx_step conn jobs i s t \<Longrightarrow> tx_moves conn jobs n t u \<Longrightarrow> tx_moves conn jobs (Suc n) s u"
| drop: "tx_cancel i s t \<Longrightarrow> tx_moves conn jobs n t u \<Longrightarrow> tx_moves conn jobs (Suc n) s u"

lemma tx_moves_bound: "tx_moves conn jobs n s u \<Longrightarrow> tx_inv jobs s \<Longrightarrow> n + work jobs u \<le> work jobs s"
proof (induction rule: tx_moves.induct)
  case (move i s t n u)
  then show ?case using tx_step_work [OF move.hyps(1)] tx_step_inv [OF move.hyps(1)] by fastforce
next
  case (drop i s t n u)
  then show ?case using tx_cancel_work [OF drop.hyps(1)] tx_cancel_inv [OF drop.hyps(1)] by fastforce
qed simp

lemma work_bound: "work jobs s \<le> 5 * length jobs"
proof -
  have "rank p \<le> 5" for p by (cases p) auto
  then have "work jobs s \<le> (\<Sum>i < length jobs. 5)" unfolding work_def by (intro sum_mono)
  then show ?thesis by simp
qed

section \<open>Properties\<close>

text \<open>
  C19: transactions are safe under every interleaving and every drop.  In each reachable state at
  most one task has a statement in flight, and then the source is active and that task holds the
  mutex; at most one task owns the transaction to end it; no statement follows a commit or a
  rollback on the connection; at most one commit is ever sent.  While the source is active no end
  was sent; once it is completed, one task of the jobs, a commit or a rollback, has ended it: it sent
  nothing yet, or exactly its own end, or, dropped while that end was in flight, its own end followed
  by the rollback of the destructor.
\<close>

theorem transaction_interleavings_are_safe:
  assumes "tx_reachable conn jobs s"
  shows "(\<forall>i j. pcs s i = Running \<and> pcs s j = Running \<longrightarrow> i = j) \<and>
         (\<forall>i. pcs s i = Running \<longrightarrow> live s \<and> mutex s = Some i) \<and>
         (\<forall>i j. owning s i \<and> owning s j \<longrightarrow> i = j \<and> \<not> live s) \<and>
         ends_last (log s) \<and> count_list (log s) Commit_Tx \<le> 1 \<and>
         (if live s then ends s = []
          else (\<exists>i < length jobs. jobs ! i \<in> {Commit_Job, Rollback_Job} \<and>
            (pcs s i = Taken \<and> ends s = [] \<or>
             pcs s i \<in> {Ending, Finished} \<and> ends s = [end_event (jobs ! i)] \<or>
             pcs s i = Dropped \<and> ends s = [end_event (jobs ! i), Rollback_Tx])))"
proof -
  from tx_reachable_inv [OF assms] have inv: "tx_inv jobs s" .
  have mutex: "mutex s = Some i" if "pcs s i = Running" for i
    using inv that by (auto simp: tx_inv_defs)
  have "i = j" if "pcs s i = Running" "pcs s j = Running" for i j
    using mutex [OF that(1)] mutex [OF that(2)] by simp
  moreover have "live s" if "pcs s i = Running" for i
    using tx_inv_parts(2) [OF inv that] .
  moreover have "i = j \<and> \<not> live s" if "owning s i" "owning s j" for i j
    using that tx_inv_parts(4,5) [OF inv] by blast
  moreover have "ends_last (log s)" "count_list (log s) Commit_Tx \<le> 1"
    using inv by (simp_all add: tx_inv_def)
  moreover note tx_reachable_ends [OF assms, unfolded ends_inv_def ended_by_def]
  ultimately show ?thesis using mutex by (simp split: if_splits) blast+
qed

text \<open>A statement is sent and answered, then a second task sends a commit and is dropped.\<close>

lemma reachable_running_first:
  "tx_reachable 1 (Statement_Job Execute ''x'' [] # jobs)
     \<lparr>mutex = Some 0, live = True, pcs = (\<lambda>_. Not_Started)(0 := Running),
      log = [Statement 1 Execute ''x'' []]\<rparr>"
proof -
  let ?jobs = "Statement_Job Execute ''x'' [] # jobs"
  have "tx_reachable 1 ?jobs (tx_system_init\<lparr>pcs := (pcs tx_system_init)(0 := Waiting)\<rparr>)"
    by (rule tx_reachable.step [OF tx_reachable.start tx_step.poll]) (simp_all add: tx_system_init_def)
  from tx_reachable.step [OF this tx_step.acquire [of _ 0]]
  have "tx_reachable 1 ?jobs
      \<lparr>mutex = Some 0, live = True, pcs = (\<lambda>_. Not_Started)(0 := Holding), log = []\<rparr>"
    by (simp add: tx_system_init_def)
  from tx_reachable.step [OF this tx_step.send [of _ 0]] show ?thesis by simp
qed

lemmas reachable_running = reachable_running_first [of "[]"]

lemma reachable_dropped_commit:
  "tx_reachable 1 [Statement_Job Execute ''x'' [], Commit_Job]
     \<lparr>mutex = None, live = False, pcs = (\<lambda>_. Not_Started)(0 := Finished, 1 := Dropped),
      log = [Statement 1 Execute ''x'' [], Commit_Tx, Rollback_Tx]\<rparr>"
proof -
  let ?R = "tx_reachable 1 [Statement_Job Execute ''x'' [], Commit_Job]"
  let ?S = "\<lambda>m v p l. \<lparr>mutex = m, live = v, pcs = (\<lambda>_. Not_Started)(0 := Finished, 1 := p),
    log = Statement 1 Execute ''x'' [] # l\<rparr>"
  from tx_reachable.step [OF reachable_running_first tx_step.reply [of _ 0]]
  have "?R \<lparr>mutex = None, live = True, pcs = (\<lambda>_. Not_Started)(0 := Finished),
    log = [Statement 1 Execute ''x'' []]\<rparr>" by simp
  from tx_reachable.step [OF this tx_step.poll [of 1]]
  have "?R (?S None True Waiting [])" by simp
  from tx_reachable.step [OF this tx_step.acquire [of _ 1]]
  have "?R (?S (Some 1) True Holding [])" by simp
  from tx_reachable.step [OF this tx_step.take [of _ 1]]
  have "?R (?S None False Taken [])" by simp
  from tx_reachable.step [OF this tx_step.finish_tx [of _ 1]]
  have "?R (?S None False Ending [Commit_Tx])" by simp
  from tx_reachable.cancel [OF this tx_cancel.drop_owner [of _ 1]] show ?thesis by simp
qed

theorem transaction_interleavings_are_safe_witness:
  "let s = \<lparr>mutex = None, live = False, pcs = (\<lambda>_. Not_Started)(0 := Finished, 1 := Dropped),
      log = [Statement 1 Execute ''x'' [], Commit_Tx, Rollback_Tx]\<rparr> in
   ends_last (log s) \<and> count_list (log s) Commit_Tx \<le> 1 \<and>
   ends s = [end_event ([Statement_Job Execute ''x'' [], Commit_Job] ! 1), Rollback_Tx]"
  using transaction_interleavings_are_safe [OF reachable_dropped_commit]
  by (auto simp: Let_def ends_def less_Suc_eq)

text \<open>
  C38: every schedule ends, and ends well.  From every reachable state, whatever order the tasks step
  in and whichever are dropped, there are at most five moves per task; no state in which a task is
  unfinished is stuck (no deadlock on the mutex, also after a task that held it was dropped); and the
  tasks can run to completion without drops.
\<close>

theorem transaction_tasks_complete:
  assumes "tx_reachable conn jobs s"
  shows "(\<forall>n u. tx_moves conn jobs n s u \<longrightarrow> n \<le> 5 * length jobs) \<and>
         ((\<nexists>i t. tx_step conn jobs i s t) \<longrightarrow> all_done jobs s) \<and>
         (\<exists>n u. tx_steps conn jobs n s u \<and> all_done jobs u)"
proof -
  from tx_reachable_inv [OF assms] have inv: "tx_inv jobs s" .
  have "n \<le> 5 * length jobs" if "tx_moves conn jobs n s u" for n u
    using tx_moves_bound [OF that inv] work_bound [of jobs s] by simp
  with tx_completes [OF inv] tx_progress [OF inv] show ?thesis by blast
qed

theorem transaction_tasks_complete_witness:
  "\<exists>n u. tx_steps 1 [Statement_Job Execute ''x'' []] n
     \<lparr>mutex = Some 0, live = True, pcs = (\<lambda>_. Not_Started)(0 := Running),
      log = [Statement 1 Execute ''x'' []]\<rparr> u \<and> all_done [Statement_Job Execute ''x'' []] u"
  using transaction_tasks_complete [OF reachable_running] by blast

end
