(* ===== verification/Transaction_Linear.thy ===== *)
theory Transaction_Linear
  imports Transaction_Steps
begin

text \<open>
  The interleaved transaction refines the sequential one.  The tasks take effect in the order in
  which they look at the state under the mutex; the log of any run without dropped tasks is the
  one the sequential model of \<open>Transaction\<close> gives for that order.
\<close>

fun action_of :: "job \<Rightarrow> tx_action" where
  "action_of (Statement_Job Fetch_All q a) = Tx_Fetch_All q a"
| "action_of (Statement_Job Fetch_Optional q a) = Tx_Fetch_Optional q a"
| "action_of (Statement_Job Fetch_One q a) = Tx_Fetch_One q a"
| "action_of (Statement_Job Execute q a) = Tx_Apply q a"
| "action_of Commit_Job = Tx_Commit"
| "action_of Rollback_Job = Tx_Rollback"

lemma action_of_statement [simp]:
  "tx_event conn (action_of (Statement_Job call q a)) = Statement conn call q a"
  "\<not> is_end (action_of (Statement_Job call q a))"
  by (cases call; simp add: is_end_def)+

lemma action_of_end:
  "j \<in> {Commit_Job, Rollback_Job} \<Longrightarrow>
     is_end (action_of j) \<and> tx_event conn (action_of j) = end_event j"
  by (auto simp: is_end_def)

text \<open>The sequential log when one more operation is requested.\<close>

lemma tx_expected_snoc:
  "tx_expected conn (as @ [a]) =
     tx_expected conn as @ (if \<exists>b \<in> set as. is_end b then [] else [tx_event conn a])"
  by (induction as) auto

section \<open>The simulation\<close>

definition checked :: "tx_system \<Rightarrow> nat \<Rightarrow> bool" where
  "checked s i \<longleftrightarrow> pcs s i \<in> {Running, Taken, Ending, Finished}"

text \<open>The tasks that have looked at the state, in order; a task that has taken the transaction
  out still owes its end to the log.\<close>

definition owed :: "job list \<Rightarrow> tx_system \<Rightarrow> event list \<Rightarrow> bool" where
  "owed jobs s es \<longleftrightarrow>
     ((\<forall>i. pcs s i \<noteq> Taken) \<and> es = []) \<or> (\<exists>i. pcs s i = Taken \<and> es = [end_event (jobs ! i)])"

definition simulates :: "nat \<Rightarrow> job list \<Rightarrow> tx_system \<Rightarrow> nat list \<Rightarrow> bool" where
  "simulates conn jobs s order \<longleftrightarrow>
     distinct order \<and> set order = {i. checked s i} \<and>
     (live s \<longleftrightarrow> (\<forall>i \<in> set order. \<not> is_end (action_of (jobs ! i)))) \<and>
     (\<exists>es. owed jobs s es \<and> log s @ es = tx_expected conn (map (\<lambda>i. action_of (jobs ! i)) order))"

lemma simulates_init: "simulates conn jobs tx_system_init []"
  by (simp add: simulates_def tx_system_init_def checked_def owed_def)

text \<open>A step that checks nothing keeps the order; a step that checks appends its task.\<close>

lemma owed_cong: "(\<And>j. pcs t j = Taken \<longleftrightarrow> pcs s j = Taken) \<Longrightarrow> owed jobs t es = owed jobs s es"
  by (simp add: owed_def)

lemma owed_none: "(\<And>j. pcs s j \<noteq> Taken) \<Longrightarrow> owed jobs s es \<longleftrightarrow> es = []"
  by (simp add: owed_def)

lemma simulates_keep:
  assumes "simulates conn jobs s order"
    and "\<And>j. checked t j \<longleftrightarrow> checked s j" and "\<And>j. pcs t j = Taken \<longleftrightarrow> pcs s j = Taken"
    and "live t = live s" and "log t = log s"
  shows "simulates conn jobs t order"
  using assms by (simp add: simulates_def owed_def)

lemma simulates_add:
  assumes sim: "simulates conn jobs s order"
    and new: "\<not> checked s i" "\<And>j. checked t j \<longleftrightarrow> j = i \<or> checked s j"
    and live: "live t \<longleftrightarrow> live s \<and> \<not> is_end (action_of (jobs ! i))"
    and log: "\<And>es. owed jobs s es \<Longrightarrow> \<exists>es'. owed jobs t es' \<and>
      log t @ es' = log s @ es @ (if live s then [tx_event conn (action_of (jobs ! i))] else [])"
  shows "simulates conn jobs t (order @ [i])"
proof -
  let ?as = "map (\<lambda>i. action_of (jobs ! i)) order"
  from sim obtain es where order: "distinct order" "set order = {i. checked s i}"
    "live s \<longleftrightarrow> (\<forall>i \<in> set order. \<not> is_end (action_of (jobs ! i)))"
    and es: "owed jobs s es" "log s @ es = tx_expected conn ?as"
    by (auto simp: simulates_def)
  from log [OF es(1)] obtain es' where es': "owed jobs t es'"
    "log t @ es' = (log s @ es) @ (if live s then [tx_event conn (action_of (jobs ! i))] else [])"
    by auto
  have "log t @ es' = tx_expected conn (?as @ [action_of (jobs ! i)])"
    unfolding es'(2) es(2) tx_expected_snoc using order(3) by auto
  moreover have "distinct (order @ [i])" "set (order @ [i]) = {j. checked t j}"
    using order new by auto
  moreover have "live t \<longleftrightarrow> (\<forall>j \<in> set (order @ [i]). \<not> is_end (action_of (jobs ! j)))"
    using order(3) live by auto
  ultimately show ?thesis
    using es'(1) by (auto simp: simulates_def)
qed

lemma simulates_step:
  assumes "tx_step conn jobs i s t" and inv: "tx_inv jobs s" and sim: "simulates conn jobs s order"
  shows "\<exists>order'. simulates conn jobs t order'"
  using assms(1)
proof (cases rule: tx_step.cases)
  case reject
  then have "owed jobs t es = owed jobs s es" for es by (intro owed_cong) auto
  with reject have "simulates conn jobs t (order @ [i])"
    by (intro simulates_add [OF sim]) (auto simp: checked_def)
  then show ?thesis ..
next
  case (send call q a)
  then have idle: "pcs s j \<noteq> Taken" "pcs t j \<noteq> Taken" for j
    using tx_inv_parts(4) [OF inv, of j] by (auto simp: owning_def)
  from send have "simulates conn jobs t (order @ [i])"
    by (intro simulates_add [OF sim]) (auto simp: checked_def owed_none idle)
  then show ?thesis ..
next
  case take
  then have idle: "pcs s j \<noteq> Taken" for j
    using tx_inv_parts(4) [OF inv, of j] by (auto simp: owning_def)
  have ends: "is_end (action_of (jobs ! i))" "tx_event conn (action_of (jobs ! i)) = end_event (jobs ! i)"
    using action_of_end [of "jobs ! i" conn] take by auto
  have "owed jobs t [end_event (jobs ! i)]" using take by (auto simp: owed_def)
  then have "\<exists>es'. owed jobs t es' \<and>
      log t @ es' = log s @ es @ (if live s then [tx_event conn (action_of (jobs ! i))] else [])"
    if "owed jobs s es" for es
    using that take ends by (intro exI [of _ "[end_event (jobs ! i)]"]) (simp add: owed_none [OF idle])
  moreover have "live t \<longleftrightarrow> live s \<and> \<not> is_end (action_of (jobs ! i))" using take ends by simp
  moreover have "checked t j \<longleftrightarrow> j = i \<or> checked s j" for j using take by (simp add: checked_def)
  moreover have "\<not> checked s i" using take by (simp add: checked_def)
  ultimately have "simulates conn jobs t (order @ [i])" by (intro simulates_add [OF sim])
  then show ?thesis ..
next
  case finish_tx
  then have only: "pcs s j = Taken \<Longrightarrow> j = i" for j
    using tx_inv_parts(5) [OF inv, of i j] by (auto simp: owning_def)
  obtain es where order: "distinct order" "set order = {i. checked s i}"
    "live s \<longleftrightarrow> (\<forall>i \<in> set order. \<not> is_end (action_of (jobs ! i)))"
    and es: "owed jobs s es" "log s @ es = tx_expected conn (map (\<lambda>i. action_of (jobs ! i)) order)"
    using sim unfolding simulates_def by blast
  from es(1) finish_tx(2) only have "es = [end_event (jobs ! i)]"
    unfolding owed_def by blast
  then have "log t = tx_expected conn (map (\<lambda>i. action_of (jobs ! i)) order)"
    using es(2) finish_tx(1) by simp
  moreover have "pcs t j \<noteq> Taken" for j using finish_tx(1) only [of j] by auto
  ultimately have "\<exists>es. owed jobs t es \<and>
      log t @ es = tx_expected conn (map (\<lambda>i. action_of (jobs ! i)) order)"
    by (intro exI [of _ "[]"]) (simp add: owed_none)
  moreover have "set order = {j. checked t j}"
    unfolding order(2) using finish_tx(1,2) by (auto simp: checked_def)
  moreover have "live t \<longleftrightarrow> (\<forall>i \<in> set order. \<not> is_end (action_of (jobs ! i)))"
    using order(3) finish_tx(1) by simp
  ultimately have "simulates conn jobs t order"
    unfolding simulates_def by (intro conjI order(1))
  then show ?thesis ..
qed (use sim in \<open>auto simp: checked_def intro!: exI [of _ order] simulates_keep [of conn jobs s order]
      split: if_splits\<close>)

lemma simulates_steps:
  assumes "tx_steps conn jobs n s u" and "tx_inv jobs s" and "simulates conn jobs s order"
  shows "\<exists>order'. simulates conn jobs u order'"
  using assms
proof (induction arbitrary: order rule: tx_steps.induct)
  case (more i s t n u)
  from simulates_step [OF more.hyps(1) more.prems] obtain order' where "simulates conn jobs t order'" ..
  with more.IH tx_step_inv [OF more.hyps(1) more.prems(1)] show ?case by blast
qed blast

section \<open>Properties\<close>

text \<open>
  Concurrent transactions are linearizable.  Whenever tasks that share a transaction source
  have all run to completion, in any interleaving, there is one order of the tasks, each once, for
  which the log is exactly the sequential one: the statements of the tasks before the first commit
  or rollback in that order, that end, and nothing of the tasks after it.
\<close>

theorem transaction_runs_are_linearizable:
  assumes "tx_steps conn jobs n tx_system_init u" and "all_done jobs u"
  shows "\<exists>order. distinct order \<and> set order = {..<length jobs} \<and>
           log u = tx_expected conn (map (\<lambda>i. action_of (jobs ! i)) order)"
proof -
  from simulates_steps [OF assms(1) tx_inv_init simulates_init] obtain order where
    sim: "simulates conn jobs u order" ..
  from assms(1) have never: "pcs u i \<noteq> Dropped" for i
    by (rule tx_steps_no_drop) (simp add: tx_system_init_def)
  have inv: "tx_inv jobs u" by (rule tx_steps_inv [OF assms(1) tx_inv_init])
  have finished: "pcs u i = Finished" if "i < length jobs" for i
    using assms(2) that never [of i] by (cases "pcs u i") (auto simp: all_done_def)
  have "checked u i \<longleftrightarrow> i < length jobs" for i
    using finished [of i] tx_inv_parts(9) [OF inv, of i]
    by (cases "i < length jobs") (simp_all add: checked_def)
  moreover have "pcs u i \<noteq> Taken" for i
    using finished [of i] tx_inv_parts(9) [OF inv, of i] by (cases "i < length jobs") auto
  ultimately show ?thesis
    using sim by (auto simp: simulates_def owed_def)
qed

theorem transaction_runs_are_linearizable_witness:
  "\<exists>n u. tx_steps 1 [Statement_Job Execute ''x'' [], Commit_Job] n tx_system_init u \<and>
     log u \<in> {[Statement 1 Execute ''x'' [], Commit_Tx], [Commit_Tx]}"
proof -
  let ?jobs = "[Statement_Job Execute ''x'' [], Commit_Job]"
  obtain n u where run: "tx_steps 1 ?jobs n tx_system_init u" "all_done ?jobs u"
    using tx_completes [OF tx_inv_init [of ?jobs], where conn = 1] by blast
  from transaction_runs_are_linearizable [OF this] obtain order where
    order: "distinct order" "set order = {..<length ?jobs}"
    "log u = tx_expected 1 (map (\<lambda>i. action_of (?jobs ! i)) order)" by blast
  have "set order = {0, 1}" using order(2) by (simp add: lessThan_Suc numeral_2_eq_2 insert_commute)
  moreover have "length order = 2"
    using distinct_card [OF order(1)] order(2) by simp
  then obtain a b where "order = [a, b]" by (auto simp: length_Suc_conv numeral_2_eq_2)
  ultimately consider "order = [0, 1]" | "order = [1, 0]"
    using order(1) by (auto simp: doubleton_eq_iff)
  then have "log u \<in> {[Statement 1 Execute ''x'' [], Commit_Tx], [Commit_Tx]}"
    by cases (simp_all add: order(3) is_end_def)
  with run(1) show ?thesis by blast
qed

section \<open>The effect on the data\<close>

text \<open>What the driver makes of a log, event by event.\<close>

fun replay_event :: "('t, 'w, 'row) tx_driver \<Rightarrow> 't \<Rightarrow> event \<Rightarrow> 'w \<Rightarrow> 'w" where
  "replay_event drv t (Statement conn Fetch_All q a) d = snd (run_fetch_all (tx_executor drv t) q a d)"
| "replay_event drv t (Statement conn Fetch_Optional q a) d =
     snd (run_fetch_optional (tx_executor drv t) q a d)"
| "replay_event drv t (Statement conn Fetch_One q a) d = snd (run_fetch_one (tx_executor drv t) q a d)"
| "replay_event drv t (Statement conn Execute q a) d = snd (run_execute (tx_executor drv t) q a d)"
| "replay_event drv t Begin_Tx d = d"
| "replay_event drv t Commit_Tx d = snd (tx_commit drv t d)"
| "replay_event drv t Rollback_Tx d = snd (tx_rollback drv t d)"

definition replay :: "('t, 'w, 'row) tx_driver \<Rightarrow> 't \<Rightarrow> event list \<Rightarrow> 'w \<Rightarrow> 'w" where
  "replay drv t = fold (replay_event drv t)"

lemma tx_do_replay:
  "tx_state st = Active t \<Longrightarrow>
     db (tx_world (tx_do conn drv a st)) = replay_event drv t (tx_event conn a) (db (tx_world st))"
  by (cases a)
    (simp_all add: transaction_source_def in_transaction_def active_def tx_source_commit_def
      tx_source_rollback_def take_active_def issue_eq)

lemma tx_run_replay:
  "tx_state st = Active t \<Longrightarrow>
     db (tx_world (tx_run conn drv as st)) = replay drv t (tx_expected conn as) (db (tx_world st))"
proof (induction as arbitrary: st)
  case Nil
  then show ?case by (simp add: tx_run_def replay_def)
next
  case (Cons a as)
  note state = conjunct2 [OF tx_do_Active [OF Cons.prems, of conn drv a]]
  note step = tx_do_replay [OF Cons.prems, of conn drv a]
  have run: "tx_run conn drv (a # as) st = tx_run conn drv as (tx_do conn drv a st)"
    by (simp add: tx_run_def)
  show ?case
  proof (cases "is_end a")
    case True
    with state tx_run_Completed [of "tx_do conn drv a st" conn drv as] step show ?thesis
      by (simp add: run replay_def)
  next
    case False
    with state Cons.IH [of "tx_do conn drv a st"] step show ?thesis
      by (simp add: run replay_def)
  qed
qed

text \<open>
  C37: concurrent tasks have the effect of a sequence.  Whenever tasks that share a transaction
  source have all run to completion, in any interleaving, there is one order of the tasks, each
  once, for which the driver got exactly the calls of the sequential run: the statements of the tasks
  before the first commit or rollback in that order, that end, and nothing of the tasks after it; and
  what these calls made of the data is what the tasks one after another make of it.
\<close>

theorem concurrent_tasks_act_in_sequence:
  assumes "tx_steps conn jobs n tx_system_init u" and "all_done jobs u" and "tx_state st = Active t"
  shows "\<exists>order. distinct order \<and> set order = {..<length jobs} \<and>
     log u = tx_expected conn (map (\<lambda>i. action_of (jobs ! i)) order) \<and>
     replay drv t (log u) (db (tx_world st)) =
       db (tx_world (tx_run conn drv (map (\<lambda>i. action_of (jobs ! i)) order) st))"
  using transaction_runs_are_linearizable [OF assms(1,2)] tx_run_replay [OF assms(3)] by metis

theorem concurrent_tasks_act_in_sequence_witness:
  "\<exists>n u. tx_steps 1 [Statement_Job Execute ''x'' [], Commit_Job] n tx_system_init u \<and>
     replay sample_tx_driver 0 (log u) 1 \<in> {2, 3}"
proof -
  let ?jobs = "[Statement_Job Execute ''x'' [], Commit_Job]"
  let ?st = "\<lparr>tx_state = Active 0, tx_world = \<lparr>db = 1, issued = [Begin_Tx]\<rparr>\<rparr> :: (nat, nat) tx_source"
  obtain n u where run: "tx_steps 1 ?jobs n tx_system_init u" "all_done ?jobs u"
    using tx_completes [OF tx_inv_init [of ?jobs], where conn = 1] by blast
  have active: "tx_state ?st = Active 0" by simp
  from concurrent_tasks_act_in_sequence [OF run active, of sample_tx_driver] obtain order where
    order: "distinct order" "set order = {..<length ?jobs}"
    "replay sample_tx_driver 0 (log u) 1 =
       db (tx_world (tx_run 1 sample_tx_driver (map (\<lambda>i. action_of (?jobs ! i)) order) ?st))" by auto
  have "set order = {0, 1}" using order(2) by (simp add: lessThan_Suc numeral_2_eq_2 insert_commute)
  moreover have "length order = 2"
    using distinct_card [OF order(1)] order(2) by simp
  then obtain a b where "order = [a, b]" by (auto simp: length_Suc_conv numeral_2_eq_2)
  ultimately consider "order = [0, 1]" | "order = [1, 0]"
    using order(1) by (auto simp: doubleton_eq_iff)
  then have "db (tx_world (tx_run 1 sample_tx_driver (map (\<lambda>i. action_of (?jobs ! i)) order) ?st)) \<in> {2, 3}"
    by cases (simp_all add: tx_run_def transaction_source_def in_transaction_def active_def
        tx_source_commit_def take_active_def issue_eq sample_tx_driver_def sample_executor_def)
  with run(1) order(3) show ?thesis by metis
qed

end
