(* ===== verification/Repository_Queries.thy ===== *)
theory Repository_Queries
  imports Repository_Contract
begin

text \<open>
  What a query says of the entities of a repository: how a find and a count with the same parameters
  answer, for conditions that are decided on the entities.
\<close>

section \<open>Pages\<close>

text \<open>The size of a page of \<open>n\<close> entities.\<close>

definition page_size :: "nat option \<Rightarrow> nat \<Rightarrow> nat \<Rightarrow> nat" where
  "page_size lim off n = (case lim of None \<Rightarrow> n - off | Some k \<Rightarrow> min k (n - off))"

lemma answers_facts:
  assumes "answers keep before lim off rows out"
  shows "set out \<subseteq> {x \<in> set rows. keep x}"
    and "length out = page_size lim off (length (filter keep rows))"
    and "sorted_wrt (\<lambda>a b. \<not> before b a) out"
    and "lim = None \<Longrightarrow> off = 0 \<Longrightarrow> set out = {x \<in> set rows. keep x}"
proof -
  from assms obtain xs where xs: "mset xs = mset (filter keep rows)" "sorted_wrt (\<lambda>a b. \<not> before b a) xs"
    and out: "out = (case lim of None \<Rightarrow> drop off xs | Some k \<Rightarrow> take k (drop off xs))"
    unfolding answers_def by blast
  have set: "set xs = {x \<in> set rows. keep x}" using mset_eq_setD [OF xs(1)] by simp
  have len: "length xs = length (filter keep rows)" using mset_eq_length [OF xs(1)] .
  show "set out \<subseteq> {x \<in> set rows. keep x}"
    unfolding set [symmetric] out by (auto split: option.splits dest: in_set_takeD in_set_dropD)
  show "length out = page_size lim off (length (filter keep rows))"
    by (simp add: out page_size_def len [symmetric] min.commute split: option.split)
  show "sorted_wrt (\<lambda>a b. \<not> before b a) out"
    using xs(2) by (simp add: out sorted_wrt_take sorted_wrt_drop split: option.split)
  show "set out = {x \<in> set rows. keep x}" if "lim = None" "off = 0"
    using that by (simp add: out set)
qed

lemma finds_facts:
  assumes "finds J key params M es" and "keeps J params = Some keep"
  shows "distinct (map key es)" and "set es \<subseteq> {e \<in> ran M. keep e}"
    and "length es = page_size (map_option unat (limit params)) (unat (offset params)) (card {e \<in> ran M. keep e})"
    and "precedes J params = Some before \<Longrightarrow> sorted_wrt (\<lambda>a b. \<not> before b a) es"
    and "limit params = None \<Longrightarrow> offset params = 0 \<Longrightarrow> set es = {e \<in> ran M. keep e}"
proof -
  from assms obtain b xs where order: "\<And>c. precedes J params = Some c \<Longrightarrow> b = c"
    and xs: "distinct xs" "set xs = ran M"
    and page: "answers keep b (map_option unat (limit params)) (unat (offset params)) xs es"
    unfolding finds_def by blast
  have "length (filter keep xs) = card {e \<in> ran M. keep e}"
    using distinct_card [OF distinct_filter [OF xs(1), of keep]] by (simp add: xs(2))
  with answers_facts(1-3) [OF page] order
  show "set es \<subseteq> {e \<in> ran M. keep e}"
    "length es = page_size (map_option unat (limit params)) (unat (offset params)) (card {e \<in> ran M. keep e})"
    "precedes J params = Some before \<Longrightarrow> sorted_wrt (\<lambda>a b. \<not> before b a) es"
    by (simp_all add: xs(2))
  show "set es = {e \<in> ran M. keep e}" if "limit params = None" "offset params = 0"
    using answers_facts(4) [OF page] that by (simp add: xs(2))
  show "distinct (map key es)" using assms(1) by (simp add: finds_def)
qed

section \<open>A query over the accounts\<close>

lemma account_pool_fetch_all:
  "fetch_all account_pool q a s =
     issue (Statement 0 Fetch_All q a) (run_fetch_all (reference_executor account_engine) q a) s"
  by (simp add: account_pool_def pool_source_def constrained_executor_def)

lemma window_subset: "set (window a tail rows) \<subseteq> set rows"
  by (auto simp: window_def Let_def split: option.splits dest!: in_set_takeD in_set_dropD)

lemma account_find_returns:
  assumes "represents account_engine db sample_api (account_repository ''users'' account_pool) s M"
  shows "\<exists>es s'. repository_find sample_api encodes_all (account_repository ''users'' account_pool) (named n) s =
     (Ok es, s') \<and> db s' = db s"
proof -
  let ?r = "account_repository ''users'' account_pool" and ?m = "account_mapping ''users''"
  have parts: "into_sqlx_parts encodes_all x = Ok (sql x, map argument_of (bindings x))" for x
    by (simp add: into_sqlx_parts_def and_then_eq_Ok into_arguments_eq_Ok)
  obtain start where "select_prefix sample_api ?r = Ok start" by (simp add: select_prefix_eq)
  then obtain q a where p: "prepare_find sample_api encodes_all ?r (named n) = Ok (q, a)"
    by (simp add: prepare_find_def compile_find_eq plan_find_def plan_where_def plan_order_def
        plan_number_def named_def plan_predicate_def plan_comparison_def resolve_def account_name_binding
        parts params_validate_sample)
  from prepared_find [OF accounts.built accounts.mapping_built p] obtain t where
    "plan_find sample_api (field_map sample_mapping) (named n) = Ok t"
    and q: "read_statement q = Some (S_Select (selected_names sample_api ?m) (Some ''app'', ''users'') (tail_of t))"
    by (auto simp: named_def selected_names_def)
  then have unsorted: "order_of (tail_of t) = []"
    by (auto simp: plan_find_def plan_order_def named_def and_then_eq_Ok map_ok_eq_Ok tail_of_def)
  define rows where "rows = window a (tail_of t)
    (filtered (reading account_engine) a (tail_of t) (db s (Some ''app'', ''users'')))"
  from assms obtain es where es: "accounts.hold_all es (db s (Some ''app'', ''users''))"
    by (rule accounts.representsE) simp
  have "set rows \<subseteq> set (db s (Some ''app'', ''users''))"
    unfolding rows_def filtered_def by (rule subset_trans [OF window_subset filter_is_subset])
  then have "\<exists>e. decode (account_codec ''users'') (present account_engine (selected_names sample_api ?m) row) = Ok e"
    if "row \<in> set rows" for row
    using accounts.hold_all_member [OF es] accounts.reads_back that by fastforce
  then have "\<exists>xs. try_map (decode (account_codec ''users''))
      (map (present account_engine (selected_names sample_api ?m)) rows) = Ok xs"
    by (cases "try_map (decode (account_codec ''users''))
      (map (present account_engine (selected_names sample_api ?m)) rows)") (fastforce dest!: try_map_Err)+
  with q unsorted show ?thesis
    by (simp add: repository_find_def p account_pool_fetch_all issue_eq reference_executor_def run_text_def
        rows_def Let_def)
qed

section \<open>Properties\<close>

text \<open>
  C5: finds and counts agree with the entities.  Over a repository that represents a map, with a
  condition over written fields, a count is the number of the entities that satisfy the condition; a
  find returns such entities, each once, as many as the limit and the offset leave of that number,
  in the order of the sort keys where these are written fields; without limit and offset it returns
  them all.
\<close>

theorem find_and_count_agree:
  fixes r :: "('s, 'e, 'id, 'row) pg_repository"
  assumes "entity_table E view r api gc merge" and "represents E view api r s M" and "card (dom M) < 2 ^ 63"
    and "keeps (entity_judgement E api r) params = Some keep"
    and "\<And>c. condition_of params = Some c \<Longrightarrow> groups_inhabited c"
    and "repository_find api enc r params s = (Ok es, s1)"
    and "repository_count api enc gc r params s1 = (Ok k, s2)"
  shows "unat k = card {e \<in> ran M. keep e} \<and>
     distinct (map (entity_id (codec r)) es) \<and> set es \<subseteq> {e \<in> ran M. keep e} \<and>
     length es = page_size (map_option unat (limit params)) (unat (offset params)) (unat k) \<and>
     (\<forall>before. precedes (entity_judgement E api r) params = Some before \<longrightarrow>
        sorted_wrt (\<lambda>a b. \<not> before b a) es) \<and>
     (limit params = None \<and> offset params = 0 \<longrightarrow> set es = {e \<in> ran M. keep e})"
proof -
  from assms(5) have ok: "admissible (R_Find params :: ('e, 'id) repo_operation)"
    "admissible (R_Count params :: ('e, 'id) repo_operation)" by (auto split: option.splits)
  from entity_table.map_find [OF assms(1,2) ok(1) assms(6)]
  have found: "finds (entity_judgement E api r) (entity_id (codec r)) params M es"
    and s1: "represents E view api r s1 M" by auto
  from entity_table.map_count [OF assms(1) s1 assms(3) ok(2) assms(7)] assms(4)
  have "unat k = card {e \<in> ran M. keep e}" by simp
  with finds_facts [OF found assms(4)] show ?thesis by simp
qed

theorem find_and_count_agree_witness:
  "\<exists>s s1 s2. repository_find sample_api encodes_all (account_repository ''users'' account_pool) (named ''Ada'') s =
       (Ok [(9, ''Ada'')], s1) \<and>
     repository_count sample_api encodes_all account_count (account_repository ''users'' account_pool)
       (named ''Ada'') s1 = (Ok 1, s2)"
proof -
  let ?r = "account_repository ''users'' account_pool"
  obtain s where s: "represents account_engine db sample_api ?r s [9 \<mapsto> (9, ''Ada'')]" "account_keys (db s)"
    "length (db s (Some ''app'', ''users'')) < 2 ^ 63"
    by (rule account_inserted)
  from account_find_returns [OF s(1)] obtain es s1 where
    find: "repository_find sample_api encodes_all ?r (named ''Ada'') s = (Ok es, s1)" "db s1 = db s" by blast
  from account_count_returns [of s1 "''Ada''"] s(2,3) find(2) obtain k s2 where
    count: "repository_count sample_api encodes_all account_count ?r (named ''Ada'') s1 = (Ok k, s2)" by auto
  have Ada: "{e \<in> ran [9 :: 64 word \<mapsto> (9 :: 64 word, ''Ada'')]. snd e = ''Ada''} = {(9, ''Ada'')}" by auto
  have "groups_inhabited c" if "condition_of (named ''Ada'') = Some c" for c using that by auto
  note agree = find_and_count_agree [OF accounts.entity_table_axioms s(1) _ account_judgement this find(1) count,
      unfolded Ada account_simps]
  have "unat k = 1" and es: "distinct (map fst es)" "set es = {(9, ''Ada'')}"
    using agree by (simp_all add: named_def)
  then have "unat k = unat (1 :: 64 word)" by simp
  then have k: "k = 1" by (simp only: word_unat_eq_iff)
  have "length es = 1" using distinct_card [OF es(1)] es(2) by simp
  with es(2) have "es = [(9, ''Ada'')]" by (cases es) simp_all
  with k find count show ?thesis by blast
qed

end
