(* ===== verification/Unit_Tests.thy ===== *)
theory Unit_Tests
  imports Repository_Properties Native_Query Router
begin

text \<open>
  The unit tests of the crate (the \<open>tests\<close> modules of \<open>src/postgres/*.rs\<close>), run on the model: their
  fixtures as definitions, every test as a truth value that holds its assertions, and a lemma for
  each that it passes.  They tie the definitions to the outputs the crate's authors wrote down.  The
  conditions and parameters that the tests build with \<open>soaprs_repository\<close> are written out;
  \<open>sample_api\<close> stands for the functions of that crate.
\<close>

section \<open>Assertions\<close>

text \<open>\<open>assert_eq!(r.as_ref().map_err(|error| error.kind()), Err(k))\<close>.\<close>

definition fails_with :: "soap_error_kind \<Rightarrow> 'a soap_result \<Rightarrow> bool" where
  "fails_with k r \<longleftrightarrow> (case r of Err e \<Rightarrow> kind e = k | Ok _ \<Rightarrow> False)"

text \<open>\<open>match r { Ok(x) => assertions, Err(error) => panic!(..) }\<close>.\<close>

definition succeeds :: "('a \<Rightarrow> bool) \<Rightarrow> 'a soap_result \<Rightarrow> bool" where
  "succeeds asserts r \<longleftrightarrow> (case r of Ok x \<Rightarrow> asserts x | Err _ \<Rightarrow> False)"

lemma assertion_simps [simp]:
  "fails_with k (Err e) \<longleftrightarrow> kind e = k" "\<not> fails_with k (Ok x)"
  "succeeds asserts (Ok x) \<longleftrightarrow> asserts x" "\<not> succeeds asserts (Err e)"
  by (simp_all add: fails_with_def succeeds_def)

section \<open>\<open>identifier.rs\<close>, \<open>value.rs\<close>, \<open>mapping.rs\<close>\<close>

definition validates_identifiers_before_quoting :: bool where
  "validates_identifiers_before_quoting \<longleftrightarrow>
     succeeds (\<lambda>i. ident_str i = ''display_name'') (identifier_new ''display_name'') \<and>
     \<not> is_ok (identifier_new ''users.name'') \<and>
     \<not> is_ok (identifier_new ''name; DROP TABLE users'') \<and>
     \<not> is_ok (identifier_new '''')"

lemma validates_identifiers_before_quoting_passes: validates_identifiers_before_quoting
  by code_simp

definition converts_nullable_values_and_rejects_non_finite_floats :: "f64 \<Rightarrow> bool" where
  "converts_nullable_values_and_rejects_non_finite_floats nan \<longleftrightarrow>
     from_option from_signed (Some (7 :: 16 word)) = Pg_I64 7 \<and>
     from_option from_signed (None :: 16 word option) = Pg_Null \<and>
     fails_with Validation (value_validate (Pg_F64 nan))"

text \<open>Whatever the not-a-number value of the platform.\<close>

lemma converts_nullable_values_and_rejects_non_finite_floats_passes:
  "\<not> is_finite nan \<Longrightarrow> converts_nullable_values_and_rejects_non_finite_floats nan"
  by (simp add: converts_nullable_values_and_rejects_non_finite_floats_def from_option_def
      from_signed_def value_validate_def)

definition resolves_only_explicitly_mapped_fields :: bool where
  "resolves_only_explicitly_mapped_fields \<longleftrightarrow>
     succeeds (\<lambda>mapping.
         succeeds (\<lambda>field. is_ok (resolve sample_api mapping field)) (field_name_new sample_api ''name'') \<and>
         succeeds (\<lambda>field. \<not> is_ok (resolve sample_api mapping field)) (field_name_new sample_api ''unknown''))
       (field_map_with sample_api field_map_new ''name'' ''display_name'' Kind_Text)"

lemma resolves_only_explicitly_mapped_fields_passes: resolves_only_explicitly_mapped_fields
  by code_simp

section \<open>\<open>entity.rs\<close>\<close>

definition requires_the_identity_field_to_be_mapped_and_selectable :: bool where
  "requires_the_identity_field_to_be_mapped_and_selectable \<longleftrightarrow>
     fails_with Validation
       (and_then (mapping_new sample_api ''users'' ''id'') (\<lambda>m.
        and_then (with_field sample_api m ''name'' ''display_name'' Kind_Text) (\<lambda>m.
          mapping_validate sample_api m))) \<and>
     fails_with Validation
       (and_then (mapping_new sample_api ''users'' ''id'') (\<lambda>m.
        and_then (with_field_permissions sample_api m ''id'' ''id'' Kind_Numeric
            (permissions_new False True False)) (\<lambda>m.
          mapping_validate sample_api m)))"

lemma requires_the_identity_field_to_be_mapped_and_selectable_passes:
  requires_the_identity_field_to_be_mapped_and_selectable
  by code_simp

definition supports_qualified_tables_and_field_roles :: bool where
  \<open>supports_qualified_tables_and_field_roles \<longleftrightarrow>
     succeeds (\<lambda>m.
         table_quoted (table m) = ''"billing"."users"'' \<and>
         length (insertable_fields sample_api m) = 1 \<and>
         length (updatable_fields sample_api m) = 0 \<and>
         length (selectable_fields sample_api m) = 2)
       (and_then (mapping_in_schema sample_api ''billing'' ''users'' ''id'') (\<lambda>m.
        and_then (with_immutable_field sample_api m ''id'' ''id'' Kind_Uuid) (\<lambda>m.
          with_generated_field sample_api m ''created_at'' ''created_at'' Kind_TimestampTz)))\<close>

lemma supports_qualified_tables_and_field_roles_passes: supports_qualified_tables_and_field_roles
  by code_simp

section \<open>\<open>compiler.rs\<close>\<close>

text \<open>The field map of the fixture \<open>compiler()\<close>.\<close>

definition test_fields :: "pg_field_map soap_result" where
  "test_fields =
     and_then (field_map_with sample_api field_map_new ''active'' ''is_active'' Kind_Bool) (\<lambda>m.
     and_then (field_map_with sample_api m ''age'' ''age'' Kind_Numeric) (\<lambda>m.
     and_then (field_map_with sample_api m ''name'' ''display_name'' Kind_Text) (\<lambda>m.
       field_map_with sample_api m ''nickname'' ''nickname'' Kind_Text)))"

lemma test_fields_eq:
  "test_fields = Ok \<lparr>columns =
     [Field_Name ''active'' \<mapsto> column_new (Pg_Identifier ''is_active'') Kind_Bool PERSISTED,
      Field_Name ''age'' \<mapsto> column_new (Pg_Identifier ''age'') Kind_Numeric PERSISTED,
      Field_Name ''name'' \<mapsto> column_new (Pg_Identifier ''display_name'') Kind_Text PERSISTED,
      Field_Name ''nickname'' \<mapsto> column_new (Pg_Identifier ''nickname'') Kind_Text PERSISTED]\<rparr>"
  by (simp add: test_fields_def field_map_with_def field_map_insert_def insert_with_permissions_def
      sample_api_def field_map_new_def char_class_defs Let_def)

definition compiles_nested_conditions_and_binding_order :: bool where
  \<open>compiles_nested_conditions_and_binding_order \<longleftrightarrow>
     succeeds (\<lambda>q.
         sql q = ''("is_active" = $1 AND ("age"::numeric >= $2::numeric OR "display_name" COLLATE "C" LIKE $3 ESCAPE ''
                   @ [squote, squote] @ ''))'' \<and>
         bindings q = [Bind_Bool True, Bind_Numeric ''18'', Bind_Text (''A'' @ [CHR 92] @ ''_%'')])
       (and_then test_fields (\<lambda>m.
          compile_condition sample_api m
            (Group And
               [Predicate (Field_Name ''active'') Op_Eq (Some (Scalar_Bool True)),
                Group Or
                  [Predicate (Field_Name ''age'') Op_Gte (Some (Scalar_U64 18)),
                   Predicate (Field_Name ''name'') Op_Like
                     (Some (Scalar_String (''A'' @ [CHR 92] @ ''_%'')))]])))\<close>

lemma compiles_nested_conditions_and_binding_order_passes: compiles_nested_conditions_and_binding_order
  by code_simp

definition keeps_untrusted_values_out_of_sql_text :: bool where
  \<open>keeps_untrusted_values_out_of_sql_text \<longleftrightarrow>
     (let malicious = ''Ada'' @ [squote] @ ''; DROP TABLE users; --'' in
      succeeds (\<lambda>q.
          sql q = ''"display_name" COLLATE "C" = $1'' \<and> \<not> sublist malicious (sql q) \<and>
          bindings q = [Bind_Text malicious])
        (and_then test_fields (\<lambda>m.
           compile_condition sample_api m
             (Predicate (Field_Name ''name'') Op_Eq (Some (Scalar_String malicious))))))\<close>

lemma keeps_untrusted_values_out_of_sql_text_passes: keeps_untrusted_values_out_of_sql_text
  by code_simp

definition rewrites_empty_sets_with_portable_null_semantics :: bool where
  \<open>rewrites_empty_sets_with_portable_null_semantics \<longleftrightarrow>
     succeeds (\<lambda>q. sql q = ''FALSE'')
       (and_then test_fields (\<lambda>m.
          compile_condition sample_api m
            (Predicate (Field_Name ''nickname'') Op_In (Some (Scalar_List []))))) \<and>
     succeeds (\<lambda>q. sql q = ''"nickname" COLLATE "C" IS NOT NULL'')
       (and_then test_fields (\<lambda>m.
          compile_condition sample_api m
            (Predicate (Field_Name ''nickname'') Op_Not_In (Some (Scalar_List [])))))\<close>

lemma rewrites_empty_sets_with_portable_null_semantics_passes:
  rewrites_empty_sets_with_portable_null_semantics
  by code_simp

definition emits_explicit_null_ordering_and_bound_pagination :: bool where
  \<open>emits_explicit_null_ordering_and_bound_pagination \<longleftrightarrow>
     succeeds (\<lambda>q.
         sql q = ''ORDER BY "age"::numeric DESC NULLS LAST LIMIT $1 OFFSET $2'' \<and>
         bindings q = [Bind_I64 20, Bind_I64 40])
       (and_then test_fields (\<lambda>m.
        and_then (field_name_new sample_api ''age'') (\<lambda>age.
          compile_find sample_api m
            \<lparr>condition_of = None, sort_keys = [\<lparr>sort_field = age, direction = Descending\<rparr>],
             limit = Some 20, offset = 40\<rparr>)))\<close>

lemma emits_explicit_null_ordering_and_bound_pagination_passes:
  emits_explicit_null_ordering_and_bound_pagination
  by (simp add: emits_explicit_null_ordering_and_bound_pagination_def test_fields_eq sample_api_def
      compile_find_def write_where_def write_order_def write_limit_def write_offset_def write_count_clause_def
      i64_try_from_u64_def resolve_def column_new_def column_expression_def quoted_def push_binding_def
      push_str_def cast_suffix_def separate_clause_def finish_def output_default_def show_nat.simps
      digit_char_simps Let_def numeral_2_eq_2 [symmetric])

definition rejects_unknown_fields_and_incompatible_values :: bool where
  "rejects_unknown_fields_and_incompatible_values \<longleftrightarrow>
     fails_with Validation
       (and_then test_fields (\<lambda>m.
          compile_condition sample_api m
            (Predicate (Field_Name ''missing'') Op_Eq (Some (Scalar_I64 1))))) \<and>
     fails_with Validation
       (and_then test_fields (\<lambda>m.
          compile_condition sample_api m
            (Predicate (Field_Name ''active'') Op_Eq (Some (Scalar_String ''yes'')))))"

lemma rejects_unknown_fields_and_incompatible_values_passes:
  rejects_unknown_fields_and_incompatible_values
  by code_simp

definition casts_portable_strings_for_native_columns_and_rejects_like :: bool where
  \<open>casts_portable_strings_for_native_columns_and_rejects_like \<longleftrightarrow>
     succeeds (\<lambda>m.
         succeeds (\<lambda>q. sql q = ''"id" = $1::uuid'')
           (compile_condition sample_api m
              (Predicate (Field_Name ''id'') Op_Eq
                 (Some (Scalar_String ''67e55044-10b1-426f-9247-bb680e5fe0c8'')))) \<and>
         fails_with Validation
           (compile_condition sample_api m
              (Predicate (Field_Name ''id'') Op_Like (Some (Scalar_String ''67e5%'')))))
       (field_map_with sample_api field_map_new ''id'' ''id'' Kind_Uuid)\<close>

lemma casts_portable_strings_for_native_columns_and_rejects_like_passes:
  casts_portable_strings_for_native_columns_and_rejects_like
  by code_simp

definition preserves_full_unsigned_integer_precision_through_numeric_text :: bool where
  \<open>preserves_full_unsigned_integer_precision_through_numeric_text \<longleftrightarrow>
     succeeds (\<lambda>q.
         sql q = ''"age"::numeric = $1::numeric'' \<and>
         bindings q = [Bind_Numeric ''18446744073709551615''])
       (and_then test_fields (\<lambda>m.
          compile_condition sample_api m
            (Predicate (Field_Name ''age'') Op_Eq (Some (Scalar_U64 (- 1))))))\<close>

lemma preserves_full_unsigned_integer_precision_through_numeric_text_passes:
  preserves_full_unsigned_integer_precision_through_numeric_text
proof -
  have "unat (- 1 :: 64 word) = 18446744073709551615" by (simp add: unsigned_minus_1_eq_mask mask_eq_exp_minus_1)
  then have "show_nat (unat (- 1 :: 64 word)) = ''18446744073709551615''"
    by (simp add: show_nat.simps digit_char_simps)
  then show ?thesis
    by (simp add: preserves_full_unsigned_integer_precision_through_numeric_text_def test_fields_eq
        compile_condition_def resolve_def column_new_def write_predicate_def write_comparison_def
        normalize_binding_def bind_scalar_def sample_api_def comparison_symbol_def column_expression_def
        quoted_def placeholder_cast_def push_binding_def push_str_def cast_suffix_def finish_def
        output_default_def show_nat.simps digit_char_simps Let_def)
qed

definition count_ignores_sort_pagination_and_unknown_sort_fields :: bool where
  "count_ignores_sort_pagination_and_unknown_sort_fields \<longleftrightarrow>
     succeeds (\<lambda>q. sql q = '''' \<and> bindings q = [])
       (and_then test_fields (\<lambda>m.
        and_then (field_name_new sample_api ''not_mapped'') (\<lambda>unknown.
          compile_count sample_api m
            \<lparr>condition_of = None, sort_keys = [\<lparr>sort_field = unknown, direction = Ascending\<rparr>],
             limit = Some 1, offset = 2\<rparr>)))"

lemma count_ignores_sort_pagination_and_unknown_sort_fields_passes:
  count_ignores_sort_pagination_and_unknown_sort_fields
  by code_simp

section \<open>\<open>native_query.rs\<close>\<close>

definition accepts_only_typed_values_and_rejects_default :: bool where
  "accepts_only_typed_values_and_rejects_default \<longleftrightarrow>
     succeeds (\<lambda>q. native_bindings q = [Bind_Numeric ''18''])
       (native_bind (native_new ''SELECT * FROM users WHERE age >= $1::numeric'') Kind_Numeric
          (from_unsigned (18 :: 32 word))) \<and>
     fails_with Validation (native_bind (native_new ''SELECT 1'') Kind_Numeric Pg_Default)"

lemma accepts_only_typed_values_and_rejects_default_passes: accepts_only_typed_values_and_rejects_default
  by code_simp

section \<open>\<open>error.rs\<close>\<close>

text \<open>The default transience, \<open>is_reportable\<close> and \<open>to_string\<close> are the library's and parameters.\<close>

datatype mock_error_kind = Mock_Unique | Mock_Other

record mock_database_error =
  mock_kind :: mock_error_kind
  mock_code :: string

text \<open>\<open>impl DatabaseError for MockDatabaseError\<close>.\<close>

definition mock_database :: "mock_database_error \<Rightarrow> database_error" where
  "mock_database e =
     \<lparr>code = Some (mock_code e),
      db_kind = (case mock_kind e of Mock_Unique \<Rightarrow> Unique_Violation | Mock_Other \<Rightarrow> Other_Kind),
      db_message = ''mock PostgreSQL error''\<rparr>"

definition classifies_pool_timeout_as_transient_and_preserves_source ::
  "(soap_error_kind \<Rightarrow> error_transience) \<Rightarrow> bool" where
  "classifies_pool_timeout_as_transient_and_preserves_source usual \<longleftrightarrow>
     (let error = map_sqlx_error Sqlx_Pool_Timed_Out ''find users'' in
      kind error = Timeout \<and> transience usual error = Transient \<and> source error \<noteq> None)"

lemma classifies_pool_timeout_as_transient_and_preserves_source_passes:
  "usual Timeout = Transient \<Longrightarrow> classifies_pool_timeout_as_transient_and_preserves_source usual"
  by (simp add: classifies_pool_timeout_as_transient_and_preserves_source_def map_sqlx_error_def
      soap_error_new_def transience_def)

definition classifies_io_failure_as_unavailable ::
  "(soap_error \<Rightarrow> bool) \<Rightarrow> (soap_error \<Rightarrow> string) \<Rightarrow> bool" where
  "classifies_io_failure_as_unavailable is_reportable to_string \<longleftrightarrow>
     (let error = map_sqlx_error (Sqlx_Io ''driver detail'') ''connect'' in
      kind error = Unavailable \<and> is_reportable error \<and> \<not> sublist ''driver detail'' (to_string error))"

lemma io_message_without_detail:
  "\<not> sublist ''driver detail'' (message (map_sqlx_error (Sqlx_Io ''driver detail'') ''connect''))"
  by code_simp

lemma classifies_io_failure_as_unavailable_passes:
  assumes "\<And>e. kind e = Unavailable \<Longrightarrow> is_reportable e" and "\<And>e. to_string e = message e"
  shows "classifies_io_failure_as_unavailable is_reportable to_string"
proof -
  have "kind (map_sqlx_error (Sqlx_Io ''driver detail'') ''connect'') = Unavailable"
    by (simp add: map_sqlx_error_def soap_error_new_def)
  with assms io_message_without_detail show ?thesis
    by (simp only: classifies_io_failure_as_unavailable_def Let_def) simp
qed

definition classifies_mapping_failure_as_permanent_infrastructure ::
  "(soap_error_kind \<Rightarrow> error_transience) \<Rightarrow> bool" where
  "classifies_mapping_failure_as_permanent_infrastructure usual \<longleftrightarrow>
     (let error = map_sqlx_error (Sqlx_Column_Not_Found ''name'') ''decode user'' in
      kind error = Infrastructure \<and> transience usual error = Permanent)"

lemma classifies_mapping_failure_as_permanent_infrastructure_passes:
  "classifies_mapping_failure_as_permanent_infrastructure usual"
  by (simp add: classifies_mapping_failure_as_permanent_infrastructure_def map_sqlx_error_def
      invalid_mapping_def soap_error_new_def transience_def)

definition maps_unique_constraint_to_conflict_and_preserves_database_source :: bool where
  "maps_unique_constraint_to_conflict_and_preserves_database_source \<longleftrightarrow>
     (let error = map_sqlx_error
        (Sqlx_Database (mock_database \<lparr>mock_kind = Mock_Unique, mock_code = ''23505''\<rparr>)) ''insert user'' in
      kind error = Conflict \<and> source error \<noteq> None)"

lemma maps_unique_constraint_to_conflict_and_preserves_database_source_passes:
  maps_unique_constraint_to_conflict_and_preserves_database_source
  by code_simp

definition marks_serialization_and_deadlock_failures_as_transient ::
  "(soap_error_kind \<Rightarrow> error_transience) \<Rightarrow> bool" where
  "marks_serialization_and_deadlock_failures_as_transient usual \<longleftrightarrow>
     list_all (\<lambda>c.
       let error = map_sqlx_error
         (Sqlx_Database (mock_database \<lparr>mock_kind = Mock_Other, mock_code = c\<rparr>)) ''replace user'' in
       kind error = Infrastructure \<and> transience usual error = Transient)
     [''40001'', ''40P01'']"

lemma marks_serialization_and_deadlock_failures_as_transient_passes:
  "marks_serialization_and_deadlock_failures_as_transient usual"
  by (simp add: marks_serialization_and_deadlock_failures_as_transient_def map_sqlx_error_def
      map_database_error_def mock_database_def soap_error_new_def transience_def)

definition marks_unrecognized_database_failures_as_permanent ::
  "(soap_error_kind \<Rightarrow> error_transience) \<Rightarrow> bool" where
  "marks_unrecognized_database_failures_as_permanent usual \<longleftrightarrow>
     (let error = map_sqlx_error
        (Sqlx_Database (mock_database \<lparr>mock_kind = Mock_Other, mock_code = ''42703''\<rparr>)) ''find users'' in
      kind error = Infrastructure \<and> transience usual error = Permanent \<and> source error \<noteq> None)"

lemma marks_unrecognized_database_failures_as_permanent_passes:
  "marks_unrecognized_database_failures_as_permanent usual"
  by (simp add: marks_unrecognized_database_failures_as_permanent_def map_sqlx_error_def
      map_database_error_def mock_database_def soap_error_new_def transience_def starts_with_def)

section \<open>\<open>router.rs\<close>\<close>

text \<open>
  The counting sources of the test share one state, the counters of source \<open>k\<close> at \<open>k\<close>; every
  operation counts itself and fails.
\<close>

record call_counts =
  reads :: "64 word"
  writes :: "64 word"

definition count_read :: "nat \<Rightarrow> (nat \<Rightarrow> call_counts) \<Rightarrow> ('a, sqlx_error) result \<times> (nat \<Rightarrow> call_counts)" where
  "count_read k s = (Err Sqlx_Pool_Closed, s(k := (s k)\<lparr>reads := reads (s k) + 1\<rparr>))"

definition count_write :: "nat \<Rightarrow> (nat \<Rightarrow> call_counts) \<Rightarrow> ('a, sqlx_error) result \<times> (nat \<Rightarrow> call_counts)" where
  "count_write k s = (Err Sqlx_Pool_Closed, s(k := (s k)\<lparr>writes := writes (s k) + 1\<rparr>))"

definition counting_source :: "nat \<Rightarrow> (nat \<Rightarrow> call_counts, 'row) pg_source" where
  "counting_source k =
     \<lparr>fetch_all = (\<lambda>_ _. count_read k), fetch_optional = (\<lambda>_ _. count_read k),
      fetch_one = (\<lambda>_ _. count_read k), apply_sql = (\<lambda>_ _. count_write k),
      apply_one = (\<lambda>_ _. count_write k)\<rparr>"

definition round_robins_reads_and_keeps_writes_on_primary :: bool where
  "round_robins_reads_and_keeps_writes_on_primary \<longleftrightarrow>
     (let router = router_source
            \<lparr>primary = counting_source 0, replicas = [counting_source 1, counting_source 2]\<rparr>
              :: ((nat \<Rightarrow> call_counts) router_state, unit) pg_source;
          s0 = router_new (\<lambda>_. \<lparr>reads = 0, writes = 0\<rparr>);
          s1 = snd (fetch_all router ''SELECT 1'' [] s0);
          s2 = snd (fetch_optional router ''SELECT 1'' [] s1);
          s3 = snd (apply_sql router ''UPDATE users SET active = true'' [] s2);
          s4 = snd (apply_one router ''INSERT INTO users DEFAULT VALUES RETURNING id'' [] s3)
      in reads (inner s4 1) = 1 \<and> reads (inner s4 2) = 1 \<and> reads (inner s4 0) = 0 \<and>
         writes (inner s4 0) = 2)"

lemma round_robins_reads_and_keeps_writes_on_primary_passes:
  round_robins_reads_and_keeps_writes_on_primary
  by (simp add: round_robins_reads_and_keeps_writes_on_primary_def router_source_def through_read_def
      through_primary_def read_source_def router_new_def counting_source_def count_read_def count_write_def)

section \<open>\<open>repository.rs\<close>\<close>

record user =
  user_id :: "64 word"
  user_name :: string

definition user_mapping :: "pg_entity_mapping soap_result" where
  "user_mapping =
     and_then (mapping_in_schema sample_api ''app'' ''users'' ''id'') (\<lambda>m.
     and_then (with_immutable_field sample_api m ''id'' ''id'' Kind_Numeric) (\<lambda>m.
     and_then (with_field sample_api m ''name'' ''display_name'' Kind_Text) (\<lambda>m.
       with_generated_field sample_api m ''created_at'' ''created_at'' Kind_TimestampTz)))"

definition user_value :: "user \<Rightarrow> field_name \<Rightarrow> pg_value soap_result" where
  "user_value entity field =
     (if as_str field = ''name'' \<and> user_name entity = '''' then Ok Pg_Default
      else if as_str field = ''name'' then Ok (from_string (user_name entity))
      else Err (err_validation ''unknown user field''))"

definition user_codec :: "(user, 64 word, 'row) pg_entity_codec soap_result" where
  "user_codec = map_ok (\<lambda>m.
     \<lparr>mapping = m,
      decode = (\<lambda>_. Err (soap_error_new Unsupported ''recording source does not return rows'')),
      encode_value = user_value, id_value = (\<lambda>i. Ok (from_unsigned i)), entity_id = user_id\<rparr>) user_mapping"

text \<open>
  The recording source; its state is the list of the statements.  The lock is only poisoned by a
  panic under it, and there is none.
\<close>

definition recording_source :: "(string list, 'row) pg_source" where
  "recording_source =
     \<lparr>fetch_all = (\<lambda>_ _ s. (Err Sqlx_Pool_Closed, s)), fetch_optional = (\<lambda>_ _ s. (Err Sqlx_Pool_Closed, s)),
      fetch_one = (\<lambda>_ _ s. (Err Sqlx_Pool_Closed, s)),
      apply_sql = (\<lambda>q _ s. (Ok \<lparr>rows_affected = 0\<rparr>, s @ [q])),
      apply_one = (\<lambda>_ _ s. (Err Sqlx_Pool_Closed, s))\<rparr>"

definition user_repository :: "(string list, user, 64 word, unit) pg_repository soap_result" where
  "user_repository = and_then user_codec (repository_new sample_api recording_source)"

definition delegates_schema_qualified_insert_to_the_injected_source :: bool where
  \<open>delegates_schema_qualified_insert_to_the_injected_source \<longleftrightarrow>
     succeeds (\<lambda>repository.
         repository_insert sample_api encodes_all repository \<lparr>user_id = 7, user_name = ''Ada''\<rparr> [] =
           (Ok (), [''INSERT INTO "app"."users" ("id", "display_name") VALUES ($1::numeric, $2)'']))
       user_repository\<close>

definition emits_default_and_returning_for_database_managed_values :: bool where
  \<open>emits_default_and_returning_for_database_managed_values \<longleftrightarrow>
     succeeds (\<lambda>repository.
         succeeds (\<lambda>(q, arguments).
             q = ''INSERT INTO "app"."users" ("id", "display_name") VALUES ($1::numeric, DEFAULT) RETURNING "id", "display_name", "created_at"'')
           (compile_insert sample_api encodes_all repository \<lparr>user_id = 9, user_name = ''''\<rparr> True))
       user_repository\<close>

lemma delegates_schema_qualified_insert_to_the_injected_source_passes:
  delegates_schema_qualified_insert_to_the_injected_source
  by code_simp

lemma emits_default_and_returning_for_database_managed_values_passes:
  emits_default_and_returning_for_database_managed_values
  by code_simp

end
