(* ===== verification/Spec2Isabelle.thy ===== *)
theory Spec2Isabelle
  imports Repository_Systems Native_Query Compiler_Properties Repository_Failures Repositories_Together
    Transaction_Linear Repository_Queries Unit_Tests
begin

text \<open>
  A verification development for \<open>soaprs-sqlx\<close>, the PostgreSQL adapter of the \<open>soaprs\<close> ports
  (\<open>src/postgres/*.rs\<close>).  The crate compiles portable conditions and find parameters to SQL text
  with typed bindings, keeps an allow-list from logical fields to physical columns, builds the
  statements of a generic repository, runs them through an exchangeable source (a pool, a
  primary/replica router, a shared transaction), and classifies driver failures.

  \<^bold>\<open>Theories and the code they model.\<close>
  \<^item> \<open>Prelude\<close>: the Rust \<open>Result\<close> and its combinators, decimal text, lemma collections.
  \<^item> \<open>Rust_Float\<close>: \<open>f64\<close> as bits, \<open>is_finite\<close>, \<open>to_string\<close> (shortest decimal, by search with fuel
    bounded by the position of the last binary digit; see \<open>shortest_fuel\<close>), and \<open>f32\<close> with its
    widening.  \<open>Rust_Float_Facts\<close>: the printed decimal rounds back to the float, widening is exact.
  \<^item> \<open>Soap_Core\<close>: the data of \<open>soaprs_core\<close>, \<open>soaprs_repository\<close> and \<open>sqlx\<close> the adapter builds or
    matches.  Their functions are parameters (\<open>soaprs_api\<close>, \<open>encoder\<close>, \<open>executor\<close>, \<open>tx_driver\<close>).
  \<^item> \<open>Identifier\<close>: \<open>identifier.rs\<close>.  \<open>Field_Mapping\<close>: \<open>mapping.rs\<close>.  \<open>Pg_Value\<close>: \<open>value.rs\<close>.
    \<open>Entity_Mapping\<close>: \<open>entity.rs\<close>.
  \<^item> \<open>Compiler\<close>: \<open>compiler.rs\<close>, the buffer-writing compiler operation by operation.
    \<open>Compiler_Spec\<close> and \<open>Compiler_Find\<close>: its abstract specification (plan a tree with all errors
    decided, then render) and the refinement lemmas \<open>write_*_eq\<close>, \<open>compile_*_eq\<close>.
    \<open>Sql_Tokens\<close>: an independent tokenizer for PostgreSQL's lexical rules; \<open>Compiler_Tokens\<close> reads
    every rendered tree back with it.  \<open>Compiler_Facts\<close>, \<open>Compiler_Properties\<close>: the properties.
  \<^item> \<open>Sql_Grammar\<close>: an independent parser for conditions and the clauses after them, under SQL
    precedence (its recursion has fuel \<open>parse_fuel\<close>, three steps per token, enough by
    \<open>compiled_find_parses_back\<close>), and their three-valued truth.  \<open>Compiler_Grammar\<close> parses every
    rendered tree back; \<open>Compiler_Meaning\<close>: what a find means on rows, and that its text means it.
  \<^item> \<open>Sql_Statements\<close>: whole statements; \<open>Sql_Database\<close>: their outcome on a database of tables, what
    is relied on in a server (\<open>serves\<close>) and a reference server that has it.
  \<^item> \<open>Sqlx_Error_Mapping\<close>: \<open>error.rs\<close>.  \<open>Source\<close>: \<open>source.rs\<close>, the execution boundary and its
    contract as a locale.  \<open>Router\<close>: \<open>router.rs\<close>.
  \<^item> \<open>Transaction\<close>: \<open>transaction.rs\<close> one operation at a time; \<open>Transaction_Steps\<close>: its tasks
    interleaved at their await points, with dropped tasks, as a step relation;
    \<open>Transaction_Linear\<close>: every complete run of them is one of the sequential model, in what it
    sends and in its effect on the data.
  \<^item> \<open>Dispatch\<close>: the shape of an asynchronous operation (prepare, send, map the failure, handle).
    \<open>Native_Query\<close>: \<open>native_query.rs\<close>.  \<open>Repository\<close>: \<open>repository.rs\<close>;
    \<open>Repository_Facts\<close>: its statements planned and read back; \<open>Repository_Properties\<close>: the
    properties; \<open>Repository_Meaning\<close>: its statements parsed; \<open>Repository_Store\<close>: its operations as
    reads and changes of the mapped table; \<open>Repository_Systems\<close>: sequences of repository operations over a router or a
    transaction, whose properties are in this theory.

  \<^item> \<open>Table_Source\<close>: sources that execute statements by their meaning, as a locale, with the pool,
    the router and the transaction as instances.  \<open>Map_Store\<close>: a map from identities to entities as
    the specification of a repository; \<open>Repository_Map\<close>: the repository meets it;
    \<open>Repository_Contract\<close>: sequences of operations; \<open>Repository_Queries\<close>: finds and counts;
    \<open>Repository_Failures\<close>: sequences in which operations fail; \<open>Transaction_Store\<close>: atomicity; \<open>Repositories_Together\<close>: several repositories
    in one transaction.
  \<^item> \<open>Unit_Tests\<close>: the tests of the crate with their fixtures, run on the model; the lemma named
    after a test with \<open>_passes\<close> says that its assertions hold of the definitions.

  \<^bold>\<open>State.\<close>  An operation takes the state of its source and returns its result and the new state.
  The state holds the driver's own state and a log of what the adapter sent, so properties speak
  of the exact statements, arguments, order and endpoints.  The router adds its 64-bit wrapping
  counter, a transaction source its \<open>Active\<close>/\<open>Completed\<close> state.  A failed builder call returns the
  changed field map beside the error, because the code has changed it by then.

  \<^bold>\<open>Interfaces.\<close>  \<open>field_registry\<close> (what the entity mapping relies on in the field map),
  \<open>pg_source_contract\<close> (a source sends each statement once and unchanged, or fails) and
  \<open>routed_sources\<close> (a router over such sources), \<open>table_source\<close> and \<open>routed_tables\<close> (the same for the
  meaning of statements), \<open>isolated_driver\<close> (transactions of the driver), \<open>entity_table\<close> (mapping,
  codec and key of a repository; with failed calls, \<open>unsure_entity_table\<close>; for two repositories,
  \<open>two_entity_tables\<close>), \<open>map_store\<close> and \<open>robust_map_store\<close> (the repository as a map), each interpreted
  on the model: the pool (for failed calls also one that loses replies), the router over pools, the
  transaction, the repository's operations.

  \<^bold>\<open>What the lemmas show.\<close>  Refinement of the compiler and of the repository's statement builders
  to plans; safety of the emitted SQL (parameters numbered as the arguments, mapped names only, no
  foreign literal, text independent of values); allow-list, pagination, counting, binding types and
  exact integers; one statement per operation, outcomes from replies; the builder invariant and
  validation; routing and fairness; the exact trace of a transaction, its safety under every
  interleaving and cancellation with the exact end events, that every schedule ends and none is stuck,
  and that runs are linearizable; what a failed operation may have done; classification of errors.

  The emitted text is also given a meaning that does not come from the compiler: it is tokenized,
  parsed and evaluated as SQL, and that is what the parameters mean.  On a server that executes
  statements so, the repository is a map from identities to entities, over every source of the
  crate, and a transaction is all or nothing.  Conditions and sort keys over the fields an entity is
  written with are decided on the entities of that map (\<open>judgement\<close>, \<open>finds\<close>), so a find is a page of
  the entities that satisfy its condition; conditions over generated fields only select among them.

  \<^bold>\<open>Hypotheses on foreign code\<close> are named where used: \<open>field_name_stable\<close>, \<open>validators_validate\<close>,
  that a validated condition has no empty group
  (\<open>groups_inhabited\<close>), that a server that accepts a statement carries it out (\<open>serves\<close>), what
  \<open>isolated_driver\<close> says of transactions, and what \<open>entity_table\<close> says of the mapping and the codec:
  different columns for different fields, the identity written with the entity, rows decoded to the
  entity whose cells they hold, a primary key; \<open>merge\<close> names the entity with the replaced fields of one
  and the immutable fields of another.  A failed
  statement took effect as a whole or not at all (\<open>failed_call\<close>): not when the server reports a
  database error, since a PostgreSQL statement is atomic, and possibly as a whole when the connection
  failed, the ambiguous write outcome the README warns of; an operation is as ambiguous as its
  statement, and no more.  Reference servers (\<open>reference_executor\<close>, \<open>constrained_executor\<close>,
  \<open>copying_driver\<close>, \<open>losing_replies\<close>) have these properties.
  A table has fewer than 2 to the 63 rows, so that counts survive the 64-bit reply.

  \<^bold>\<open>Not modelled.\<close>  The bodies of the foreign crates (validation of conditions, the wire encoding
  of arguments, the pool, the server); \<open>Display\<close> and \<open>Debug\<close> output; accessors that return a
  field; memory ordering of the relaxed counter beyond its atomicity; \<open>usize\<close> other than
  64 bits wide; the default transience of an error kind, which the error library gives (a parameter
  of \<open>transience\<close>); the integration
  tests, which need a live server.  Of the crate's own code nothing else that computes is left out.
\<close>

section \<open>Properties that span components\<close>

text \<open>
  C20: a repository over the router.  Any sequence of repository operations on a new router over
  pools sends, for each operation whose statement could be prepared, that statement once and in
  order: writes and returning writes to the primary, the reads to the replicas in turn; the
  operations that could not be prepared send nothing and do not advance the rotation.
\<close>

theorem repository_over_router:
  assumes "repo_source r = router_source (pool_router main others)"
  shows "issued (inner (repo_run api enc gc r ops (router_new w))) =
     issued w @ map2 (\<lambda>t p. event_on (endpoint_of t) p)
       (targets (length others) 0 (requests api enc r ops)) (requests api enc r ops)"
proof -
  let ?ps = "requests api enc r ops"
  have n: "length (replicas (pool_router main others)) = length others"
    by (simp add: pool_router_def)
  have "inner (snd (perform_all (router_source (pool_router main others)) ?ps (router_new w))) =
      snd (perform_on (pool_router main others) (zip (targets (length others) 0 ?ps) ?ps) w)"
    using perform_all_router [of "router_new w" 0 "pool_router main others" ?ps] n
    by (simp add: router_new_def case_prod_beta Let_def)
  moreover have "issued (snd (perform_on (pool_router main others)
        (zip (targets (length others) 0 ?ps) ?ps) w)) =
      issued w @ map2 (\<lambda>t p. event_on (endpoint_of t) p) (targets (length others) 0 ?ps) ?ps"
    by (rule perform_on_pools) (erule targets_valid, simp)
  ultimately show ?thesis by (simp add: repo_run_eq assms)
qed

theorem repository_over_router_witness:
  "\<exists>r :: (nat world router_state, 64 word \<times> string, 64 word, nat) pg_repository.
     \<exists>q1 q2. issued (inner (repo_run sample_api encodes_all (\<lambda>n. Ok (of_nat n)) r
        [R_Get 7, R_Remove 0, R_Remove 7, R_Get 7] (router_new \<lparr>db = 0, issued = []\<rparr>))) =
     [Statement 1 Fetch_Optional q1 [Add_String ''7''], Statement 0 Execute q2 [Add_String ''7''],
      Statement 2 Fetch_Optional q1 [Add_String ''7'']]"
proof -
  let ?r = "\<lparr>repo_source = router_source (pool_router sample_executor [sample_executor, sample_executor]),
    codec = sample_codec, compiler = field_map sample_mapping\<rparr>"
  have seven: "show_nat 7 = ''7''" by (simp add: show_nat.simps)
  have "plan_identity sample_api ?r i = plan_identity sample_api sample_repository i" for i
    by (simp add: plan_identity_def)
  note plans = this sample_plans seven
  have args: "compiled_arguments encodes_all [Bind_Numeric ''7''] = Ok [Add_String ''7'']"
    by (simp add: compiled_arguments_eq_Ok argument_of_def)
  have "\<exists>q. prepare_get sample_api encodes_all ?r 7 = Ok (q, [Add_String ''7''])"
    by (simp add: prepare_get_def compiled_id_eq plans select_prefix_eq args)
  then obtain q1 where get: "prepare_get sample_api encodes_all ?r 7 = Ok (q1, [Add_String ''7''])"
    by blast
  have "\<exists>q. prepare_remove sample_api encodes_all ?r 7 = Ok (q, [Add_String ''7''])"
    by (simp add: prepare_remove_def compiled_id_eq plans args)
  then obtain q2 where remove: "prepare_remove sample_api encodes_all ?r 7 = Ok (q2, [Add_String ''7''])"
    by blast
  have "prepare_remove sample_api encodes_all ?r 0 = Err (err_validation null_identifier_text)"
    by (simp add: prepare_remove_def compiled_id_eq plans)
  with get remove
  have reqs: "requests sample_api encodes_all ?r [R_Get 7, R_Remove 0, R_Remove 7, R_Get 7] =
      [Do_Fetch_Optional q1 [Add_String ''7''], Do_Apply q2 [Add_String ''7''],
       Do_Fetch_Optional q1 [Add_String ''7'']]"
    by (simp add: requests_def)
  have "repo_source ?r = router_source (pool_router sample_executor [sample_executor, sample_executor])"
    by simp
  from repository_over_router [OF this, of sample_api encodes_all "\<lambda>n. Ok (of_nat n)"
      "[R_Get 7, R_Remove 0, R_Remove 7, R_Get 7]" "\<lparr>db = 0, issued = []\<rparr>"]
  have "issued (inner (repo_run sample_api encodes_all (\<lambda>n. Ok (of_nat n)) ?r
        [R_Get 7, R_Remove 0, R_Remove 7, R_Get 7] (router_new \<lparr>db = 0, issued = []\<rparr>))) =
     [Statement 1 Fetch_Optional q1 [Add_String ''7''], Statement 0 Execute q2 [Add_String ''7''],
      Statement 2 Fetch_Optional q1 [Add_String ''7'']]"
    unfolding reqs by simp
  then show ?thesis by blast
qed

text \<open>
  Repositories that share a transaction form one unit of work.  After a successful begin, the
  operations of two repositories over the transaction source and a commit reach the driver as the
  begin, every statement that could be prepared, once, in order and on the transaction's own
  connection, and the commit; the source is then completed, and further operations of either
  repository send nothing.
\<close>

theorem repositories_share_a_transaction:
  assumes "tx_source_begin drv w = (Ok st, w')"
    and "repo_source users = transaction_source conn drv"
    and "repo_source orders = transaction_source conn drv"
    and "st1 = repo_run api enc gc orders ops2 (repo_run api enc gc users ops1 st)"
    and "st2 = snd (tx_source_commit drv st1)"
  shows "tx_trace st2 =
           issued w @ [Begin_Tx] @ map (event_on conn) (requests api enc users ops1) @
             map (event_on conn) (requests api enc orders ops2) @ [Commit_Tx] \<and>
         tx_state st2 = Completed \<and>
         repo_run api enc gc users ops3 st2 = st2 \<and> repo_run api enc gc orders ops4 st2 = st2"
proof -
  from assms(1) obtain t where st: "tx_state st = Active t" "tx_trace st = issued w @ [Begin_Tx]"
    by (auto simp: tx_source_begin_def tx_trace_def issue_eq split: prod.splits result.splits)
  let ?as = "map tx_action_of (requests api enc users ops1 @ requests api enc orders ops2) @ [Tx_Commit]"
  have "st2 = tx_run conn drv ?as st"
    using assms(2-5) by (simp add: repo_run_eq perform_all_tx) (simp add: tx_run_def)
  with tx_run_Active [OF st(1), of conn drv ?as] st(2)
  have trace: "tx_trace st2 = issued w @ [Begin_Tx] @
        map (event_on conn) (requests api enc users ops1 @ requests api enc orders ops2) @ [Commit_Tx]"
    and ended: "tx_state st2 = Completed"
    by (simp_all only: tx_expected_statements tx_expected.simps is_end_def) (simp_all)
  from ended trace show ?thesis
    by (simp add: repo_run_eq assms(2,3) perform_all_tx tx_run_Completed)
qed

theorem repositories_share_a_transaction_witness:
  "\<exists>q. tx_trace (snd (tx_source_commit sample_tx_driver
      (repo_run sample_api encodes_all (\<lambda>n. Ok (of_nat n)) sample_tx_repository [R_Remove 7]
        (repo_run sample_api encodes_all (\<lambda>n. Ok (of_nat n)) sample_tx_repository [R_Remove 7]
          \<lparr>tx_state = Active 0, tx_world = \<lparr>db = 1, issued = [Begin_Tx]\<rparr>\<rparr>)))) =
     [Begin_Tx, Statement 3 Execute q [Add_String ''7''], Statement 3 Execute q [Add_String ''7''],
      Commit_Tx]"
proof -
  obtain q where q: "prepare_remove sample_api encodes_all sample_tx_repository 7 = Ok (q, [Add_String ''7''])"
    using sample_tx_remove by blast
  then have reqs: "requests sample_api encodes_all sample_tx_repository [R_Remove 7] =
      [Do_Apply q [Add_String ''7'']]"
    by (simp add: requests_def)
  have b: "tx_source_begin sample_tx_driver \<lparr>db = 0, issued = []\<rparr> =
      (Ok \<lparr>tx_state = Active 0, tx_world = \<lparr>db = 1, issued = [Begin_Tx]\<rparr>\<rparr>,
       \<lparr>db = 1, issued = [Begin_Tx]\<rparr>)"
    by (simp add: tx_source_begin_def issue_def sample_tx_driver_def)
  have src: "repo_source sample_tx_repository = transaction_source 3 sample_tx_driver"
    by (simp add: sample_tx_repository_def)
  from repositories_share_a_transaction [OF b src src refl refl, of sample_api encodes_all
      "\<lambda>n. Ok (of_nat n)" "[R_Remove 7]" "[R_Remove 7]"]
  show ?thesis unfolding reqs by auto
qed

text \<open>What an operation calls itself in its errors.\<close>

fun operation_name :: "('e, 'id) repo_operation \<Rightarrow> string" where
  "operation_name (R_Find params) = ''find entities''"
| "operation_name (R_Get i) = ''get entity''"
| "operation_name (R_Count params) = ''count entities''"
| "operation_name (R_Insert e) = ''insert entity''"
| "operation_name (R_Replace e) = ''replace entity''"
| "operation_name (R_Remove i) = ''remove entity''"
| "operation_name (R_Insert_Returning e) = ''insert and return entity''"
| "operation_name (R_Replace_Returning e) = ''replace and return entity''"

lemma send_on_completed:
  assumes "\<And>q a. call q a st = (Err d, st)"
  shows "send prepared call operation handle st =
    (Err (case prepared of Err e \<Rightarrow> e | Ok _ \<Rightarrow> map_sqlx_error d operation), st)"
  using assms by (cases prepared) auto

lemma completed_source:
  assumes "tx_state st = Completed"
  shows "fetch_all (transaction_source conn drv) q a st = (Err (Sqlx_Protocol completed_text), st)"
    and "fetch_optional (transaction_source conn drv) q a st = (Err (Sqlx_Protocol completed_text), st)"
    and "fetch_one (transaction_source conn drv) q a st = (Err (Sqlx_Protocol completed_text), st)"
    and "apply_sql (transaction_source conn drv) q a st = (Err (Sqlx_Protocol completed_text), st)"
    and "apply_one (transaction_source conn drv) q a st = (Err (Sqlx_Protocol completed_text), st)"
  by (simp_all add: transaction_source_def in_transaction_Completed assms)

lemma repo_do_completed:
  assumes "tx_state st = Completed" and "repo_source r = transaction_source conn drv"
  shows "repo_do api enc gc r op st =
     (Err (case request api enc r op of Err e \<Rightarrow> e
        | Ok _ \<Rightarrow> map_sqlx_error (Sqlx_Protocol completed_text) (operation_name op)), st)"
  by (cases op)
    (simp_all add: assms completed_source send_on_completed repository_find_def repository_get_def
      repository_count_def repository_insert_def repository_replace_def repository_remove_def
      repository_insert_returning_def repository_replace_returning_def split: result.split)

lemma try_all_completed:
  assumes "tx_state st = Completed" and "repo_source r = transaction_source conn drv"
  shows "try_all (repo_do api enc gc r) ops st =
     (map (\<lambda>op. Err (case request api enc r op of Err e \<Rightarrow> e
        | Ok _ \<Rightarrow> map_sqlx_error (Sqlx_Protocol completed_text) (operation_name op))) ops, st)"
  by (induction ops) (simp_all add: repo_do_completed [OF assms])

lemma ended_source_completed:
  "tx_state (snd (tx_source_commit drv st)) = Completed"
  "tx_state (snd (tx_source_rollback drv st)) = Completed"
  by (cases "tx_state st";
    simp add: tx_source_commit_def tx_source_rollback_def take_active_def case_prod_beta split: result.split)+

text \<open>
  C40: work on an ended transaction is refused, and reported as a mapping error.  Once a commit or a
  rollback of a transaction source was called, whatever it returned, each operation of any sequence
  of repository operations over it fails and changes nothing.  If its statement cannot be prepared
  it fails with that error; otherwise with an infrastructure error that is marked permanent and says
  that the operation has an invalid PostgreSQL mapping: the completion is named in the technical
  source only, whereas a further commit or rollback does say that the source is already completed.
\<close>

theorem completed_transaction_reported_as_mapping:
  assumes "st = snd (tx_source_commit drv st0) \<or> st = snd (tx_source_rollback drv st0)"
    and "repo_source r = transaction_source conn drv"
  shows "\<exists>errs. try_all (repo_do api enc gc r) ops st = (map Err errs, st) \<and>
           list_all2 (\<lambda>op err. case request api enc r op of
              Err e \<Rightarrow> err = e
            | Ok _ \<Rightarrow> kind err = Infrastructure \<and> set_transience err = Some Permanent \<and>
                message err = operation_name op @ '' has an invalid PostgreSQL mapping'' \<and>
                source err = Some (From_Sqlx (Sqlx_Protocol completed_text))) ops errs \<and>
           tx_source_commit drv st = (Err (err_infrastructure completed_text), st) \<and>
           tx_source_rollback drv st = (Err (err_infrastructure completed_text), st)"
proof -
  have completed: "tx_state st = Completed" using assms(1) ended_source_completed by metis
  let ?err = "\<lambda>op. case request api enc r op of Err e \<Rightarrow> e
      | Ok _ \<Rightarrow> map_sqlx_error (Sqlx_Protocol completed_text) (operation_name op)"
  have table: "case request api enc r op of
      Err e \<Rightarrow> ?err op = e
    | Ok _ \<Rightarrow> kind (?err op) = Infrastructure \<and> set_transience (?err op) = Some Permanent \<and>
        message (?err op) = operation_name op @ '' has an invalid PostgreSQL mapping'' \<and>
        source (?err op) = Some (From_Sqlx (Sqlx_Protocol completed_text))" for op
    by (simp add: map_sqlx_error_def invalid_mapping_def soap_error_new_def split: result.split)
  have "try_all (repo_do api enc gc r) ops st = (map Err (map ?err ops), st)"
    by (simp add: try_all_completed [OF completed assms(2)])
  moreover have "list_all2 (\<lambda>op err. case request api enc r op of
              Err e \<Rightarrow> err = e
            | Ok _ \<Rightarrow> kind err = Infrastructure \<and> set_transience err = Some Permanent \<and>
                message err = operation_name op @ '' has an invalid PostgreSQL mapping'' \<and>
                source err = Some (From_Sqlx (Sqlx_Protocol completed_text))) ops (map ?err ops)"
    unfolding list.rel_map by (rule list.rel_refl) (rule table)
  moreover have "tx_source_commit drv st = (Err (err_infrastructure completed_text), st)"
    "tx_source_rollback drv st = (Err (err_infrastructure completed_text), st)"
    using completed by (simp_all add: tx_source_commit_def tx_source_rollback_def take_active_def)
  ultimately show ?thesis by blast
qed

theorem completed_transaction_reported_as_mapping_witness:
  "let st = snd (tx_source_commit sample_tx_driver \<lparr>tx_state = Active 7, tx_world = \<lparr>db = 1, issued = []\<rparr>\<rparr>) in
   \<exists>err e. try_all (repo_do sample_api encodes_all (\<lambda>n. Ok (of_nat n)) sample_tx_repository) [R_Remove 7, R_Remove 0] st =
       ([Err err, Err e], st) \<and>
     message err = ''remove entity has an invalid PostgreSQL mapping'' \<and> kind e = Validation"
proof -
  let ?st = "snd (tx_source_commit sample_tx_driver \<lparr>tx_state = Active 7, tx_world = \<lparr>db = 1, issued = []\<rparr>\<rparr>)"
  have src: "repo_source sample_tx_repository = transaction_source 3 sample_tx_driver"
    by (simp add: sample_tx_repository_def)
  obtain q where "prepare_remove sample_api encodes_all sample_tx_repository 7 = Ok (q, [Add_String ''7''])"
    using sample_tx_remove by blast
  then have seven: "request sample_api encodes_all sample_tx_repository (R_Remove 7) = Ok (Do_Apply q [Add_String ''7''])"
    by simp
  have zero: "request sample_api encodes_all sample_tx_repository (R_Remove 0) = Err (err_validation null_identifier_text)"
    using sample_tx_remove_null by simp
  from completed_transaction_reported_as_mapping [OF disjI1 [OF refl] src, where api = sample_api
      and enc = encodes_all and gc = "\<lambda>n. Ok (of_nat n)" and ops = "[R_Remove 7, R_Remove 0]"]
  obtain errs where "try_all (repo_do sample_api encodes_all (\<lambda>n. Ok (of_nat n)) sample_tx_repository)
      [R_Remove 7, R_Remove 0] ?st = (map Err errs, ?st)"
    and "list_all2 (\<lambda>op err. case request sample_api encodes_all sample_tx_repository op of
              Err e \<Rightarrow> err = e
            | Ok _ \<Rightarrow> kind err = Infrastructure \<and> set_transience err = Some Permanent \<and>
                message err = operation_name op @ '' has an invalid PostgreSQL mapping'' \<and>
                source err = Some (From_Sqlx (Sqlx_Protocol completed_text))) [R_Remove 7, R_Remove 0] errs"
    by blast
  then show ?thesis
    using seven zero by (auto simp: Let_def list_all2_Cons1 soap_error_new_def simp del: request.simps try_all.simps)
qed

end
